(* ===== verification/Prelude.thy ===== *)
theory Prelude
  imports "HOL-Library.Word" "HOL-Library.Monad_Syntax"
begin

text \<open>
  Shared vocabulary of the development: the names of the machine integer types, the
  little- and big-endian byte encodings the code takes from the standard library
  (\<open>to_le_bytes\<close>, \<open>from_le_bytes\<close>, \<open>to_be_bytes\<close>, \<open>from_be_bytes\<close>), slices, and the
  lemmas on them that every component uses.

  Conventions used by all theories:
  \<^item> \<open>Result<T, E>\<close> is the sum \<open>E + T\<close> (\<open>Inl\<close> the error);
  \<^item> a computation that may panic (or, for the one loop where that is possible, may not
    return) has an \<open>option\<close> result, \<open>None\<close> being the panic;
  \<^item> a method with \<open>&mut self\<close> returns the new value of \<open>self\<close>, also on its error paths;
  \<^item> arithmetic on \<open>u8\<close>, \<open>u32\<close>, \<open>u64\<close> values is arithmetic on words of that width, which
    wraps around as a release build does; \<open>usize\<close> counters are 64 bit wide.
\<close>

unbundle bit_operations_syntax

named_theorems wire_simps \<open>lengths and round trips of byte encodings\<close>
named_theorems inv_intros \<open>preservation of component invariants\<close>

type_synonym byte = "8 word"
type_synonym u16 = "16 word"
type_synonym u32 = "32 word"
type_synonym u64 = "64 word"
type_synonym bytes = "byte list"

section \<open>Byte encodings of words\<close>

fun le_bytes :: "nat \<Rightarrow> 'a::len word \<Rightarrow> bytes" where
  "le_bytes 0 w = []"
| "le_bytes (Suc n) w = ucast w # le_bytes n (drop_bit 8 w)"

fun of_le_bytes :: "bytes \<Rightarrow> 'a::len word" where
  "of_le_bytes [] = 0"
| "of_le_bytes (b # bs) = ucast b OR push_bit 8 (of_le_bytes bs)"

definition be_bytes :: "nat \<Rightarrow> 'a::len word \<Rightarrow> bytes" where
  "be_bytes n w = rev (le_bytes n w)"

definition of_be_bytes :: "bytes \<Rightarrow> 'a::len word" where
  "of_be_bytes bs = of_le_bytes (rev bs)"

lemma length_le_bytes [simp, wire_simps]: "length (le_bytes n w) = n"
  by (induction n w rule: le_bytes.induct) simp_all

lemma length_be_bytes [simp, wire_simps]: "length (be_bytes n w) = n"
  by (simp add: be_bytes_def)

lemma ucast_byte_or_push:
  fixes w :: "'a::len word"
  shows "(ucast (ucast w :: byte) :: 'a word) OR push_bit 8 (take_bit n (drop_bit 8 w))
    = take_bit (8 + n) w"
  by (rule bit_word_eqI) (auto simp: bit_simps)

lemma of_le_bytes_le_bytes_take:
  "of_le_bytes (le_bytes n (w :: 'a::len word)) = take_bit (8 * n) w"
  by (induction n w rule: le_bytes.induct) (simp_all add: ucast_byte_or_push)

lemma of_le_bytes_le_bytes [wire_simps]:
  "LENGTH('a::len) \<le> 8 * n \<Longrightarrow> of_le_bytes (le_bytes n w) = (w :: 'a word)"
  by (simp add: of_le_bytes_le_bytes_take take_bit_word_eq_self)

lemma of_be_bytes_be_bytes [wire_simps]:
  "LENGTH('a::len) \<le> 8 * n \<Longrightarrow> of_be_bytes (be_bytes n w) = (w :: 'a word)"
  by (simp add: of_be_bytes_def be_bytes_def of_le_bytes_le_bytes)

lemma of_le_u32 [simp, wire_simps]: "of_le_bytes (le_bytes 4 (w :: u32)) = w"
  by (simp add: of_le_bytes_le_bytes)

lemma of_le_u64 [simp, wire_simps]: "of_le_bytes (le_bytes 8 (w :: u64)) = w"
  by (simp add: of_le_bytes_le_bytes)

lemma of_be_u32 [simp, wire_simps]: "of_be_bytes (be_bytes 4 (w :: u32)) = w"
  by (simp add: of_be_bytes_be_bytes)

lemma of_be_u64 [simp, wire_simps]: "of_be_bytes (be_bytes 8 (w :: u64)) = w"
  by (simp add: of_be_bytes_be_bytes)

lemma le_bytes_inject:
  assumes "LENGTH('a::len) \<le> 8 * n" and "le_bytes n (v :: 'a word) = le_bytes n w"
  shows "v = w"
  using assms of_le_bytes_le_bytes by metis

lemma of_le_bytes_take:
  "of_le_bytes bs = (take_bit (8 * length bs) (of_le_bytes bs) :: 'a::len word)"
proof (induction bs)
  case Nil
  then show ?case by simp
next
  case (Cons b bs)
  have "push_bit 8 (of_le_bytes bs :: 'a word)
      = take_bit (8 + 8 * length bs) (push_bit 8 (of_le_bytes bs))"
    by (subst Cons.IH, subst (2) Cons.IH) (rule bit_word_eqI, auto simp: bit_simps)
  moreover have "ucast b = take_bit (8 + 8 * length bs) (ucast b :: 'a word)"
    by (rule bit_word_eqI) (auto simp: bit_simps dest: bit_imp_le_length)
  ultimately show ?case by (simp add: take_bit_or)
qed

lemma drop_bit_8_push:
  fixes x :: "'a::len word"
  assumes "8 + n \<le> LENGTH('a)" and "x = take_bit n x"
  shows "drop_bit 8 (ucast (b :: byte) OR push_bit 8 x) = x"
  using assms(1) by (subst (1 2) assms(2)) (rule bit_word_eqI, auto simp: bit_simps dest: bit_imp_le_length)

lemma ucast_or_push_8:
  fixes x :: "'a::len word"
  assumes "8 \<le> LENGTH('a)"
  shows "ucast (ucast (b :: byte) OR push_bit 8 x) = b"
  using assms by (intro bit_word_eqI) (auto simp: bit_simps)

lemma le_bytes_of_le_bytes [wire_simps]:
  "length bs = n \<Longrightarrow> 8 * n \<le> LENGTH('a) \<Longrightarrow> le_bytes n (of_le_bytes bs :: 'a::len word) = bs"
proof (induction bs arbitrary: n)
  case Nil
  then show ?case by simp
next
  case (Cons b bs)
  then obtain m where m: "n = Suc m" and len: "length bs = m" by auto
  have "drop_bit 8 (ucast b OR push_bit 8 (of_le_bytes bs :: 'a word)) = of_le_bytes bs"
    using Cons.prems m len of_le_bytes_take by (intro drop_bit_8_push [where n = "8 * m"]) auto
  with Cons.IH [OF len] Cons.prems m show ?case by (simp add: ucast_or_push_8)
qed

lemma le_of_le_u32 [simp, wire_simps]: "length bs = 4 \<Longrightarrow> le_bytes 4 (of_le_bytes bs :: u32) = bs"
  by (simp add: le_bytes_of_le_bytes)

lemma le_of_le_u64 [simp, wire_simps]: "length bs = 8 \<Longrightarrow> le_bytes 8 (of_le_bytes bs :: u64) = bs"
  by (simp add: le_bytes_of_le_bytes)

lemma unat_Suc_less:
  fixes i j :: "'a::len word"
  assumes "i < j"
  shows "unat (i + 1) = Suc (unat i)"
proof -
  have "Suc (unat i) \<le> unat j" using assms by (simp add: word_less_nat_alt)
  also have "unat j < 2 ^ LENGTH('a)" by simp
  finally show ?thesis by (simp add: unat_word_ariths)
qed

section \<open>Residues\<close>

lemma mod_eq_close:
  fixes a b m :: nat
  assumes "a mod m = b mod m" and "a < b + m" and "b < a + m"
  shows "a = b"
proof -
  have *: "x = y" if "x mod m = y mod m" "y \<le> x" "x < y + m" for x y :: nat
  proof -
    have "m dvd x - y" using that(1,2) by (simp add: mod_eq_dvd_iff_nat)
    moreover have "x - y < m" using that(2,3) by simp
    ultimately have "x - y = 0" using dvd_imp_le by fastforce
    with that(2) show ?thesis by simp
  qed
  show ?thesis using * [of a b] * [of b a] assms by (cases "b \<le> a") auto
qed

lemma ex_residue_in_range:
  fixes i j m s :: nat
  assumes "s < m" and "i + m \<le> j"
  shows "\<exists>k. i \<le> k \<and> k < j \<and> k mod m = s"
proof -
  obtain q r where q: "q = i div m" and r: "r = i mod m" by blast
  have i: "i = m * q + r" "r < m" using assms(1) by (simp_all add: q r)
  show ?thesis
  proof (cases "r \<le> s")
    case True
    then have "i \<le> m * q + s" "m * q + s < j" using i assms by linarith+
    moreover have "(m * q + s) mod m = s" using assms(1) by simp
    ultimately show ?thesis by blast
  next
    case False
    then have "i \<le> m * q + m + s" "m * q + m + s < j" using i assms by linarith+
    moreover have "(m * q + m + s) mod m = s" using assms(1) by (simp add: add.assoc)
    ultimately show ?thesis by blast
  qed
qed

section \<open>Slices\<close>

text \<open>\<open>slice_of i j xs\<close> is the Rust slice \<open>xs[i..j]\<close>; the code takes it only where
  \<open>i \<le> j \<le> xs.len()\<close> has been checked.\<close>

definition slice_of :: "nat \<Rightarrow> nat \<Rightarrow> 'a list \<Rightarrow> 'a list" where
  "slice_of i j xs = take (j - i) (drop i xs)"

lemma length_slice [simp, wire_simps]: "j \<le> length xs \<Longrightarrow> length (slice_of i j xs) = j - i"
  by (auto simp: slice_of_def)

lemma slice_append_left [wire_simps]: "j \<le> length xs \<Longrightarrow> slice_of i j (xs @ ys) = slice_of i j xs"
  by (simp add: slice_of_def)

lemma slice_append_right [wire_simps]:
  "length xs \<le> i \<Longrightarrow> slice_of i j (xs @ ys) = slice_of (i - length xs) (j - length xs) ys"
  by (simp add: slice_of_def)

lemma slice_all [wire_simps]: "length xs = n \<Longrightarrow> slice_of 0 n xs = xs"
  by (simp add: slice_of_def)

lemma slice_app [wire_simps]:
  assumes "length xs = i" and "length ys = j - i" and "i \<le> j"
  shows "slice_of i j (xs @ ys @ zs) = ys"
  using assms by (simp add: slice_of_def)

section \<open>The question-mark operator\<close>

text \<open>\<open>expr?\<close> in a function returning \<open>Result\<close>: go on with the value, or return the error.\<close>

definition bind_result :: "'e + 'a \<Rightarrow> ('a \<Rightarrow> 'e + 'b) \<Rightarrow> 'e + 'b" where
  "bind_result r f = (case r of Inl e \<Rightarrow> Inl e | Inr x \<Rightarrow> f x)"

lemma bind_result_simps [simp]:
  "bind_result (Inl e) f = Inl e"
  "bind_result (Inr x) f = f x"
  by (simp_all add: bind_result_def)

text \<open>The \<open>?\<close> operator of a method with the state \<open>s\<close>: an error is returned at once, with the state
  the method has reached.\<close>

definition try_with :: "'s \<Rightarrow> 'e + 'a \<Rightarrow> ('a \<Rightarrow> ('s \<times> ('e + 'b)) option) \<Rightarrow> ('s \<times> ('e + 'b)) option" where
  "try_with s r k = (case r of Inl e \<Rightarrow> Some (s, Inl e) | Inr x \<Rightarrow> k x)"

lemma try_with_simps [simp]:
  "try_with s (Inl e) k = Some (s, Inl e)"
  "try_with s (Inr x) k = k x"
  by (simp_all add: try_with_def)

text \<open>\<open>copy_from_slice\<close> into the first bytes of a buffer.\<close>

definition fill_prefix :: "'a list \<Rightarrow> 'a list \<Rightarrow> 'a list" where
  "fill_prefix dst xs = xs @ drop (length xs) dst"

lemma take_fill_prefix: "n = length xs + k \<Longrightarrow> take n (fill_prefix dst xs) = xs @ take k (drop (length xs) dst)"
  by (simp add: fill_prefix_def)

end
