(* ===== verification/Wire.thy ===== *)
theory Wire
  imports Prelude
begin

text \<open>
  The wire formats: \<^verbatim>\<open>noise/errors.rs\<close> and the first part of \<^verbatim>\<open>noise/mod.rs\<close> (message
  types, sizes, packet structs, \<open>Tunn::parse_incoming_packet\<close>, \<open>Tunn::dst_address\<close>).

  The cargo feature \<open>pq\<close> is the argument \<open>pq\<close> of the functions whose body depends on it; the
  data types are those of a build with the feature. The lemmas show that the parser is exactly
  the inverse of the wire layout: it accepts a datagram iff it is the encoding of a
  well-formed packet, and then returns that packet.
\<close>

datatype wireguard_error =
    DestinationBufferTooSmall | IncorrectPacketLength | UnexpectedPacket | WrongPacketType
  | WrongIndex | WrongKey | InvalidTai64nTimestamp | WrongTai64nTimestamp | InvalidMac
  | InvalidAeadTag | InvalidCounter | DuplicateCounter | InvalidPacket | NoCurrentSession
  | LockFailed | ConnectionExpired | UnderLoad | MlKemDecapsulationFailed

type_synonym 'a wg_result = "wireguard_error + 'a"

section \<open>Constants\<close>

definition HANDSHAKE_INIT :: u32 where "HANDSHAKE_INIT = 1"
definition HANDSHAKE_RESP :: u32 where "HANDSHAKE_RESP = 2"
definition COOKIE_REPLY :: u32 where "COOKIE_REPLY = 3"
definition DATA :: u32 where "DATA = 4"
definition PQ_HANDSHAKE_INIT :: u32 where "PQ_HANDSHAKE_INIT = 5"
definition PQ_HANDSHAKE_RESP :: u32 where "PQ_HANDSHAKE_RESP = 6"

definition HANDSHAKE_INIT_SZ :: nat where "HANDSHAKE_INIT_SZ = 148"
definition HANDSHAKE_RESP_SZ :: nat where "HANDSHAKE_RESP_SZ = 92"
definition COOKIE_REPLY_SZ :: nat where "COOKIE_REPLY_SZ = 64"
definition DATA_OVERHEAD_SZ :: nat where "DATA_OVERHEAD_SZ = 32"
definition MLKEM768_PK_SIZE :: nat where "MLKEM768_PK_SIZE = 1184"
definition MLKEM768_CT_SIZE :: nat where "MLKEM768_CT_SIZE = 1088"
definition PQ_HANDSHAKE_INIT_SZ :: nat where "PQ_HANDSHAKE_INIT_SZ = 1332"
definition PQ_HANDSHAKE_RESP_SZ :: nat where "PQ_HANDSHAKE_RESP_SZ = 1180"

definition IPV4_MIN_HEADER_SIZE :: nat where "IPV4_MIN_HEADER_SIZE = 20"
definition IPV4_LEN_OFF :: nat where "IPV4_LEN_OFF = 2"
definition IPV4_SRC_IP_OFF :: nat where "IPV4_SRC_IP_OFF = 12"
definition IPV4_DST_IP_OFF :: nat where "IPV4_DST_IP_OFF = 16"
definition IPV4_IP_SZ :: nat where "IPV4_IP_SZ = 4"
definition IPV6_MIN_HEADER_SIZE :: nat where "IPV6_MIN_HEADER_SIZE = 40"
definition IPV6_LEN_OFF :: nat where "IPV6_LEN_OFF = 4"
definition IPV6_SRC_IP_OFF :: nat where "IPV6_SRC_IP_OFF = 8"
definition IPV6_DST_IP_OFF :: nat where "IPV6_DST_IP_OFF = 24"
definition IPV6_IP_SZ :: nat where "IPV6_IP_SZ = 16"
definition IP_LEN_SZ :: nat where "IP_LEN_SZ = 2"

lemmas msg_consts = HANDSHAKE_INIT_def HANDSHAKE_RESP_def COOKIE_REPLY_def DATA_def
  PQ_HANDSHAKE_INIT_def PQ_HANDSHAKE_RESP_def
lemmas size_consts = HANDSHAKE_INIT_SZ_def HANDSHAKE_RESP_SZ_def COOKIE_REPLY_SZ_def
  DATA_OVERHEAD_SZ_def MLKEM768_PK_SIZE_def MLKEM768_CT_SIZE_def PQ_HANDSHAKE_INIT_SZ_def
  PQ_HANDSHAKE_RESP_SZ_def
lemmas ip_consts = IPV4_MIN_HEADER_SIZE_def IPV4_LEN_OFF_def IPV4_SRC_IP_OFF_def
  IPV4_DST_IP_OFF_def IPV4_IP_SZ_def IPV6_MIN_HEADER_SIZE_def IPV6_LEN_OFF_def
  IPV6_SRC_IP_OFF_def IPV6_DST_IP_OFF_def IPV6_IP_SZ_def IP_LEN_SZ_def

section \<open>Packets\<close>

record handshake_init =
  hi_sender_idx :: u32
  hi_unencrypted_ephemeral :: bytes
  hi_encrypted_static :: bytes
  hi_encrypted_timestamp :: bytes

record handshake_response =
  hr_sender_idx :: u32
  hr_receiver_idx :: u32
  hr_unencrypted_ephemeral :: bytes
  hr_encrypted_nothing :: bytes

record packet_cookie_reply =
  cr_receiver_idx :: u32
  cr_nonce :: bytes
  cr_encrypted_cookie :: bytes

record packet_data =
  pd_receiver_idx :: u32
  pd_counter :: u64
  pd_encrypted_encapsulated_packet :: bytes

record pq_handshake_init =
  pqi_sender_idx :: u32
  pqi_unencrypted_ephemeral :: bytes
  pqi_encrypted_static :: bytes
  pqi_encrypted_timestamp :: bytes
  pqi_mlkem_ephemeral_public :: bytes

record pq_handshake_response =
  pqr_sender_idx :: u32
  pqr_receiver_idx :: u32
  pqr_unencrypted_ephemeral :: bytes
  pqr_encrypted_nothing :: bytes
  pqr_mlkem_ciphertext :: bytes

datatype packet =
    HandshakeInit handshake_init
  | HandshakeResponse handshake_response
  | PacketCookieReply packet_cookie_reply
  | PacketData packet_data
  | PqHandshakeInit pq_handshake_init
  | PqHandshakeResponse pq_handshake_response

text \<open>\<open>Tunn::parse_incoming_packet\<close>: the type word (which also covers the three reserved zero
  bytes) and the length select the format.\<close>

definition parse_incoming_packet :: "bool \<Rightarrow> bytes \<Rightarrow> packet wg_result" where
  "parse_incoming_packet pq src =
    (if length src < 4 then Inl InvalidPacket else
     let packet_type = (of_le_bytes (slice_of 0 4 src) :: u32) in
     if packet_type = HANDSHAKE_INIT \<and> length src = HANDSHAKE_INIT_SZ then
       Inr (HandshakeInit \<lparr>
         hi_sender_idx = of_le_bytes (slice_of 4 8 src),
         hi_unencrypted_ephemeral = slice_of 8 40 src,
         hi_encrypted_static = slice_of 40 88 src,
         hi_encrypted_timestamp = slice_of 88 116 src \<rparr>)
     else if packet_type = HANDSHAKE_RESP \<and> length src = HANDSHAKE_RESP_SZ then
       Inr (HandshakeResponse \<lparr>
         hr_sender_idx = of_le_bytes (slice_of 4 8 src),
         hr_receiver_idx = of_le_bytes (slice_of 8 12 src),
         hr_unencrypted_ephemeral = slice_of 12 44 src,
         hr_encrypted_nothing = slice_of 44 60 src \<rparr>)
     else if packet_type = COOKIE_REPLY \<and> length src = COOKIE_REPLY_SZ then
       Inr (PacketCookieReply \<lparr>
         cr_receiver_idx = of_le_bytes (slice_of 4 8 src),
         cr_nonce = slice_of 8 32 src,
         cr_encrypted_cookie = slice_of 32 64 src \<rparr>)
     else if packet_type = DATA \<and> DATA_OVERHEAD_SZ \<le> length src then
       Inr (PacketData \<lparr>
         pd_receiver_idx = of_le_bytes (slice_of 4 8 src),
         pd_counter = of_le_bytes (slice_of 8 16 src),
         pd_encrypted_encapsulated_packet = drop 16 src \<rparr>)
     else if pq \<and> packet_type = PQ_HANDSHAKE_INIT \<and> length src = PQ_HANDSHAKE_INIT_SZ then
       Inr (PqHandshakeInit \<lparr>
         pqi_sender_idx = of_le_bytes (slice_of 4 8 src),
         pqi_unencrypted_ephemeral = slice_of 8 40 src,
         pqi_encrypted_static = slice_of 40 88 src,
         pqi_encrypted_timestamp = slice_of 88 116 src,
         pqi_mlkem_ephemeral_public = slice_of 116 (116 + MLKEM768_PK_SIZE) src \<rparr>)
     else if pq \<and> packet_type = PQ_HANDSHAKE_RESP \<and> length src = PQ_HANDSHAKE_RESP_SZ then
       Inr (PqHandshakeResponse \<lparr>
         pqr_sender_idx = of_le_bytes (slice_of 4 8 src),
         pqr_receiver_idx = of_le_bytes (slice_of 8 12 src),
         pqr_unencrypted_ephemeral = slice_of 12 44 src,
         pqr_encrypted_nothing = slice_of 44 60 src,
         pqr_mlkem_ciphertext = slice_of 60 (60 + MLKEM768_CT_SIZE) src \<rparr>)
     else Inl InvalidPacket)"

section \<open>IP addresses of tunnelled packets\<close>

text \<open>\<open>IpAddr\<close>: the octets of the address, in network order.\<close>

datatype ip_addr = IpV4 bytes | IpV6 bytes

definition dst_address :: "bytes \<Rightarrow> ip_addr option" where
  "dst_address packet =
    (case packet of [] \<Rightarrow> None | b # _ \<Rightarrow>
      if drop_bit 4 b = 4 \<and> IPV4_MIN_HEADER_SIZE \<le> length packet then
        Some (IpV4 (slice_of IPV4_DST_IP_OFF (IPV4_DST_IP_OFF + IPV4_IP_SZ) packet))
      else if drop_bit 4 b = 6 \<and> IPV6_MIN_HEADER_SIZE \<le> length packet then
        Some (IpV6 (slice_of IPV6_DST_IP_OFF (IPV6_DST_IP_OFF + IPV6_IP_SZ) packet))
      else None)"

section \<open>The wire layout, as a specification\<close>

text \<open>The layout of every message up to its two MAC fields (the last 32 bytes of the four
  handshake messages), independently of how the parser reads it.\<close>

fun wire_body :: "packet \<Rightarrow> bytes" where
  "wire_body (HandshakeInit p) = le_bytes 4 HANDSHAKE_INIT @ le_bytes 4 (hi_sender_idx p)
     @ hi_unencrypted_ephemeral p @ hi_encrypted_static p @ hi_encrypted_timestamp p"
| "wire_body (HandshakeResponse p) = le_bytes 4 HANDSHAKE_RESP @ le_bytes 4 (hr_sender_idx p)
     @ le_bytes 4 (hr_receiver_idx p) @ hr_unencrypted_ephemeral p @ hr_encrypted_nothing p"
| "wire_body (PacketCookieReply p) = le_bytes 4 COOKIE_REPLY @ le_bytes 4 (cr_receiver_idx p)
     @ cr_nonce p @ cr_encrypted_cookie p"
| "wire_body (PacketData p) = le_bytes 4 DATA @ le_bytes 4 (pd_receiver_idx p)
     @ le_bytes 8 (pd_counter p) @ pd_encrypted_encapsulated_packet p"
| "wire_body (PqHandshakeInit p) = le_bytes 4 PQ_HANDSHAKE_INIT @ le_bytes 4 (pqi_sender_idx p)
     @ pqi_unencrypted_ephemeral p @ pqi_encrypted_static p @ pqi_encrypted_timestamp p
     @ pqi_mlkem_ephemeral_public p"
| "wire_body (PqHandshakeResponse p) = le_bytes 4 PQ_HANDSHAKE_RESP @ le_bytes 4 (pqr_sender_idx p)
     @ le_bytes 4 (pqr_receiver_idx p) @ pqr_unencrypted_ephemeral p @ pqr_encrypted_nothing p
     @ pqr_mlkem_ciphertext p"

fun packet_wf :: "packet \<Rightarrow> bool" where
  "packet_wf (HandshakeInit p) \<longleftrightarrow> length (hi_unencrypted_ephemeral p) = 32
     \<and> length (hi_encrypted_static p) = 48 \<and> length (hi_encrypted_timestamp p) = 28"
| "packet_wf (HandshakeResponse p) \<longleftrightarrow> length (hr_unencrypted_ephemeral p) = 32
     \<and> length (hr_encrypted_nothing p) = 16"
| "packet_wf (PacketCookieReply p) \<longleftrightarrow> length (cr_nonce p) = 24 \<and> length (cr_encrypted_cookie p) = 32"
| "packet_wf (PacketData p) \<longleftrightarrow> 16 \<le> length (pd_encrypted_encapsulated_packet p)"
| "packet_wf (PqHandshakeInit p) \<longleftrightarrow> length (pqi_unencrypted_ephemeral p) = 32
     \<and> length (pqi_encrypted_static p) = 48 \<and> length (pqi_encrypted_timestamp p) = 28
     \<and> length (pqi_mlkem_ephemeral_public p) = MLKEM768_PK_SIZE"
| "packet_wf (PqHandshakeResponse p) \<longleftrightarrow> length (pqr_unencrypted_ephemeral p) = 32
     \<and> length (pqr_encrypted_nothing p) = 16 \<and> length (pqr_mlkem_ciphertext p) = MLKEM768_CT_SIZE"

fun macs_len :: "packet \<Rightarrow> nat" where
  "macs_len (PacketCookieReply p) = 0"
| "macs_len (PacketData p) = 0"
| "macs_len p = 32"

fun is_pq_packet :: "packet \<Rightarrow> bool" where
  "is_pq_packet (PqHandshakeInit p) = True"
| "is_pq_packet (PqHandshakeResponse p) = True"
| "is_pq_packet p = False"

lemma slice_of_split:
  assumes "i \<le> j" and "j \<le> k"
  shows "slice_of i k xs = slice_of i j xs @ slice_of j k xs"
proof -
  have "k - i = (j - i) + (k - j)" using assms by simp
  then have "slice_of i k xs = take (j - i) (drop i xs) @ take (k - j) (drop (j - i) (drop i xs))"
    by (simp only: slice_of_def take_add)
  then show ?thesis using assms by (simp add: slice_of_def)
qed

lemma slice_of_drop: "length xs \<le> j \<Longrightarrow> slice_of i j xs = drop i xs"
  by (simp add: slice_of_def)

lemma parse_wire_body:
  assumes "packet_wf p" and "is_pq_packet p \<longrightarrow> pq" and "length macs = macs_len p"
  shows "parse_incoming_packet pq (wire_body p @ macs) = Inr p"
  using assms
  by (cases p) (auto simp: parse_incoming_packet_def msg_consts size_consts slice_of_def)

lemma drop_slice_of:
  assumes "i \<le> j"
  shows "drop i xs = slice_of i j xs @ drop j xs"
proof -
  have "drop (j - i) (drop i xs) = drop j xs" using assms by simp
  then show ?thesis by (metis append_take_drop_id slice_of_def)
qed

lemma le_bytes_type:
  "4 \<le> length src \<Longrightarrow> of_le_bytes (slice_of 0 4 src) = (t :: u32) \<Longrightarrow> le_bytes 4 t = slice_of 0 4 src"
  by auto

lemma cut_init: "src = slice_of 0 4 src @ slice_of 4 8 src @ slice_of 8 40 src @ slice_of 40 88 src
    @ slice_of 88 116 src @ drop 116 src"
  using drop_slice_of [of 0 4 src] drop_slice_of [of 4 8 src] drop_slice_of [of 8 40 src]
    drop_slice_of [of 40 88 src] drop_slice_of [of 88 116 src] by simp

lemma cut_resp: "src = slice_of 0 4 src @ slice_of 4 8 src @ slice_of 8 12 src @ slice_of 12 44 src
    @ slice_of 44 60 src @ drop 60 src"
  using drop_slice_of [of 0 4 src] drop_slice_of [of 4 8 src] drop_slice_of [of 8 12 src]
    drop_slice_of [of 12 44 src] drop_slice_of [of 44 60 src] by simp

lemma cut_cookie: "src = slice_of 0 4 src @ slice_of 4 8 src @ slice_of 8 32 src @ slice_of 32 64 src
    @ drop 64 src"
  using drop_slice_of [of 0 4 src] drop_slice_of [of 4 8 src] drop_slice_of [of 8 32 src]
    drop_slice_of [of 32 64 src] by simp

lemma cut_data: "src = slice_of 0 4 src @ slice_of 4 8 src @ slice_of 8 16 src @ drop 16 src"
  using drop_slice_of [of 0 4 src] drop_slice_of [of 4 8 src] drop_slice_of [of 8 16 src] by simp

lemma parse_only_wire_body:
  assumes "parse_incoming_packet pq src = Inr p"
  shows "packet_wf p \<and> (is_pq_packet p \<longrightarrow> pq) \<and>
    (\<exists>macs. length macs = macs_len p \<and> src = wire_body p @ macs)"
proof -
  have len: "4 \<le> length src" using assms by (auto simp: parse_incoming_packet_def split: if_splits)
  let ?t = "of_le_bytes (slice_of 0 4 src) :: u32"
  have ty: "le_bytes 4 ?t = slice_of 0 4 src" using len by simp
  consider
      (hi) "?t = HANDSHAKE_INIT" "length src = HANDSHAKE_INIT_SZ"
    | (hr) "?t = HANDSHAKE_RESP" "length src = HANDSHAKE_RESP_SZ"
    | (cr) "?t = COOKIE_REPLY" "length src = COOKIE_REPLY_SZ"
    | (pd) "?t = DATA" "DATA_OVERHEAD_SZ \<le> length src"
    | (pqi) "pq" "?t = PQ_HANDSHAKE_INIT" "length src = PQ_HANDSHAKE_INIT_SZ"
    | (pqr) "pq" "?t = PQ_HANDSHAKE_RESP" "length src = PQ_HANDSHAKE_RESP_SZ"
    using assms by (auto simp: parse_incoming_packet_def Let_def split: if_splits)
  then show ?thesis
  proof cases
    case hi
    then show ?thesis using assms ty cut_init [of src]
      by (auto simp: parse_incoming_packet_def msg_consts size_consts intro!: exI [of _ "drop 116 src"])
  next
    case hr
    then show ?thesis using assms ty cut_resp [of src]
      by (auto simp: parse_incoming_packet_def msg_consts size_consts intro!: exI [of _ "drop 60 src"])
  next
    case cr
    then show ?thesis using assms ty cut_cookie [of src]
      by (auto simp: parse_incoming_packet_def msg_consts size_consts)
  next
    case pd
    then show ?thesis using assms ty cut_data [of src]
      by (auto simp: parse_incoming_packet_def msg_consts size_consts)
  next
    case pqi
    then have "drop 116 src = slice_of 116 1300 src @ drop 1300 src"
      by (intro drop_slice_of) simp
    with pqi show ?thesis using assms ty cut_init [of src]
      by (auto simp: parse_incoming_packet_def msg_consts size_consts intro!: exI [of _ "drop 1300 src"])
  next
    case pqr
    then have "drop 60 src = slice_of 60 1148 src @ drop 1148 src"
      by (intro drop_slice_of) simp
    with pqr show ?thesis using assms ty cut_resp [of src]
      by (auto simp: parse_incoming_packet_def msg_consts size_consts intro!: exI [of _ "drop 1148 src"])
  qed
qed

text \<open>C21: the parser and the message formats. A datagram is parsed to a packet if and only if it is the
  encoding of this packet followed by its MACs: everything that is encoded is parsed back, nothing else is
  parsed, and the hybrid messages only with the feature.\<close>
theorem wire_format_roundtrip:
  "parse_incoming_packet pq src = Inr p \<longleftrightarrow>
     packet_wf p \<and> (is_pq_packet p \<longrightarrow> pq) \<and> (\<exists>macs. length macs = macs_len p \<and> src = wire_body p @ macs)"
  using parse_only_wire_body [of pq src p] parse_wire_body [of p pq] by auto

theorem wire_format_roundtrip_witness:
  "parse_incoming_packet False (le_bytes 4 DATA @ le_bytes 4 (7 :: u32) @ le_bytes 8 (9 :: u64) @ replicate 16 1) =
     Inr (PacketData \<lparr> pd_receiver_idx = 7, pd_counter = 9, pd_encrypted_encapsulated_packet = replicate 16 1 \<rparr>)"
  unfolding wire_format_roundtrip by simp

end
