(* ===== verification/Crypto.thy ===== *)
theory Crypto
  imports Wire
begin

text \<open>
  The cryptographic primitives are code of other crates (blake2, hmac, ring, chacha20poly1305,
  x25519-dalek, ml-kem): they are the fields of a record \<open>crypto\<close> which every operation that
  calls them takes as an argument. What the program relies on is the predicate \<open>crypto_ok\<close>:
  output sizes, that opening what was sealed gives it back, and that Diffie-Hellman commutes.
  The wrappers at the top of \<^verbatim>\<open>noise/handshake.rs\<close> are modelled as they are written.
\<close>

record crypto =
  blake2s256 :: "bytes \<Rightarrow> bytes"
  hmac_blake2s :: "bytes \<Rightarrow> bytes \<Rightarrow> bytes"
  blake2s_mac :: "nat \<Rightarrow> bytes \<Rightarrow> bytes \<Rightarrow> bytes"
  chacha_seal :: "bytes \<Rightarrow> bytes \<Rightarrow> bytes \<Rightarrow> bytes \<Rightarrow> bytes \<times> bytes"
  chacha_open :: "bytes \<Rightarrow> bytes \<Rightarrow> bytes \<Rightarrow> bytes \<Rightarrow> bytes option"
  xchacha_seal :: "bytes \<Rightarrow> bytes \<Rightarrow> bytes \<Rightarrow> bytes \<Rightarrow> bytes \<times> bytes"
  xchacha_open :: "bytes \<Rightarrow> bytes \<Rightarrow> bytes \<Rightarrow> bytes \<Rightarrow> bytes option"
  x25519_public :: "bytes \<Rightarrow> bytes"
  x25519_dh :: "bytes \<Rightarrow> bytes \<Rightarrow> bytes"
  mlkem_keygen :: "bytes \<Rightarrow> bytes \<times> bytes"
  mlkem_ek_ok :: "bytes \<Rightarrow> bool"
  mlkem_encaps :: "bytes \<Rightarrow> bytes \<Rightarrow> bytes \<times> bytes"
  mlkem_decaps :: "bytes \<Rightarrow> bytes \<Rightarrow> bytes option"

definition b2s_hash :: "crypto \<Rightarrow> bytes \<Rightarrow> bytes \<Rightarrow> bytes" where
  "b2s_hash c data1 data2 = blake2s256 c (data1 @ data2)"

definition b2s_hmac :: "crypto \<Rightarrow> bytes \<Rightarrow> bytes \<Rightarrow> bytes" where
  "b2s_hmac c key data1 = hmac_blake2s c key data1"

definition b2s_hmac2 :: "crypto \<Rightarrow> bytes \<Rightarrow> bytes \<Rightarrow> bytes \<Rightarrow> bytes" where
  "b2s_hmac2 c key data1 data2 = hmac_blake2s c key (data1 @ data2)"

definition b2s_keyed_mac_16 :: "crypto \<Rightarrow> bytes \<Rightarrow> bytes \<Rightarrow> bytes" where
  "b2s_keyed_mac_16 c key data1 = blake2s_mac c 16 key data1"

definition b2s_keyed_mac_16_2 :: "crypto \<Rightarrow> bytes \<Rightarrow> bytes \<Rightarrow> bytes \<Rightarrow> bytes" where
  "b2s_keyed_mac_16_2 c key data1 data2 = blake2s_mac c 16 key (data1 @ data2)"

definition b2s_mac_24 :: "crypto \<Rightarrow> bytes \<Rightarrow> bytes \<Rightarrow> bytes" where
  "b2s_mac_24 c key data1 = blake2s_mac c 24 key data1"

text \<open>The 12 byte AEAD nonce: four zero bytes and the counter.\<close>

definition counter_nonce :: "u64 \<Rightarrow> bytes" where
  "counter_nonce counter = replicate 4 0 @ le_bytes 8 counter"

text \<open>\<open>aead_chacha20_seal\<close> fills the whole destination, whose length is that of the data plus the
  tag; the two copies panic on any other length.\<close>

definition aead_chacha20_seal ::
  "crypto \<Rightarrow> nat \<Rightarrow> bytes \<Rightarrow> u64 \<Rightarrow> bytes \<Rightarrow> bytes \<Rightarrow> bytes option" where
  "aead_chacha20_seal c ciphertext_len key counter data aad =
    (let (ct, tag) = chacha_seal c key (counter_nonce counter) aad data
     in if length data \<le> ciphertext_len \<and> ciphertext_len - length data = length tag
        then Some (ct @ tag) else None)"

definition aead_chacha20_open ::
  "crypto \<Rightarrow> nat \<Rightarrow> bytes \<Rightarrow> u64 \<Rightarrow> bytes \<Rightarrow> bytes \<Rightarrow> (bytes wg_result) option" where
  "aead_chacha20_open c buffer_len key counter data aad =
    (case chacha_open c key (counter_nonce counter) aad data of
       None \<Rightarrow> Some (Inl InvalidAeadTag)
     | Some plaintext \<Rightarrow>
         if length plaintext = buffer_len then Some (Inr plaintext) else None)"

section \<open>What the program relies on\<close>

definition crypto_ok :: "crypto \<Rightarrow> bool" where
  "crypto_ok c \<longleftrightarrow>
     (\<forall>x. length (blake2s256 c x) = 32) \<and>
     (\<forall>k x. length (hmac_blake2s c k x) = 32) \<and>
     (\<forall>n k x. length (blake2s_mac c n k x) = n) \<and>
     (\<forall>k n a d. length (fst (chacha_seal c k n a d)) = length d \<and>
                length (snd (chacha_seal c k n a d)) = 16) \<and>
     (\<forall>k n a d. chacha_open c k n a (fst (chacha_seal c k n a d) @ snd (chacha_seal c k n a d)) = Some d) \<and>
     (\<forall>k n a x d. chacha_open c k n a x = Some d \<longrightarrow> length x = length d + 16) \<and>
     (\<forall>k n a d. length (fst (xchacha_seal c k n a d)) = length d \<and>
                length (snd (xchacha_seal c k n a d)) = 16) \<and>
     (\<forall>k n a d. xchacha_open c k n a (fst (xchacha_seal c k n a d) @ snd (xchacha_seal c k n a d)) = Some d) \<and>
     (\<forall>k n a x d. xchacha_open c k n a x = Some d \<longrightarrow> length x = length d + 16) \<and>
     (\<forall>k. length (x25519_public c k) = 32) \<and>
     (\<forall>k p. length (x25519_dh c k p) = 32) \<and>
     (\<forall>a b. x25519_dh c a (x25519_public c b) = x25519_dh c b (x25519_public c a)) \<and>
     (\<forall>r. length (snd (mlkem_keygen c r)) = MLKEM768_PK_SIZE \<and> mlkem_ek_ok c (snd (mlkem_keygen c r))) \<and>
     (\<forall>ek r. length (fst (mlkem_encaps c ek r)) = MLKEM768_CT_SIZE)"

lemma crypto_ok_lengths:
  assumes "crypto_ok c"
  shows "length (b2s_hash c x y) = 32" "length (b2s_hmac c k x) = 32"
    "length (b2s_hmac2 c k x y) = 32" "length (b2s_keyed_mac_16 c k x) = 16"
    "length (b2s_keyed_mac_16_2 c k x y) = 16" "length (b2s_mac_24 c k x) = 24"
    "length (x25519_public c k) = 32" "length (x25519_dh c k p) = 32"
    "length (snd (mlkem_keygen c r)) = MLKEM768_PK_SIZE" "length (fst (mlkem_encaps c ek r)) = MLKEM768_CT_SIZE"
  using assms
  by (auto simp: crypto_ok_def b2s_hash_def b2s_hmac_def b2s_hmac2_def b2s_keyed_mac_16_def
      b2s_keyed_mac_16_2_def b2s_mac_24_def)

lemma crypto_ok_dh:
  "crypto_ok c \<Longrightarrow> x25519_dh c a (x25519_public c b) = x25519_dh c b (x25519_public c a)"
  by (simp add: crypto_ok_def)

lemma crypto_ok_keygen: "crypto_ok c \<Longrightarrow> mlkem_ek_ok c (snd (mlkem_keygen c r))"
  by (simp add: crypto_ok_def)

lemma crypto_ok_open_seal:
  "crypto_ok c \<Longrightarrow> chacha_open c k n a (fst (chacha_seal c k n a d) @ snd (chacha_seal c k n a d)) = Some d"
  by (simp add: crypto_ok_def)

lemma crypto_ok_open_len:
  "crypto_ok c \<Longrightarrow> chacha_open c k n a x = Some d \<Longrightarrow> length x = length d + 16"
  by (simp add: crypto_ok_def)

lemma crypto_ok_seal_len:
  assumes "crypto_ok c"
  shows "length (fst (chacha_seal c k n a d)) = length d" "length (snd (chacha_seal c k n a d)) = 16"
  using assms by (simp_all add: crypto_ok_def)

lemma crypto_ok_xopen_seal:
  "crypto_ok c \<Longrightarrow> xchacha_open c k n a (fst (xchacha_seal c k n a d) @ snd (xchacha_seal c k n a d)) = Some d"
  by (simp add: crypto_ok_def)

lemma crypto_ok_xseal_len:
  assumes "crypto_ok c"
  shows "length (fst (xchacha_seal c k n a d)) = length d" "length (snd (xchacha_seal c k n a d)) = 16"
  using assms by (simp_all add: crypto_ok_def)

lemma crypto_ok_xopen_len:
  "crypto_ok c \<Longrightarrow> xchacha_open c k n a x = Some d \<Longrightarrow> length x = length d + 16"
  by (simp add: crypto_ok_def)

text \<open>Sealing and opening of the fixed-size handshake fields never panics.\<close>

lemma aead_seal_Some:
  assumes "crypto_ok c" and "n = length data + 16"
  shows "\<exists>x. aead_chacha20_seal c n key counter data aad = Some x \<and> length x = n \<and>
    aead_chacha20_open c (length data) key counter x aad = Some (Inr data)"
  using assms crypto_ok_seal_len [OF assms(1)] crypto_ok_open_seal [OF assms(1)]
  by (simp add: aead_chacha20_seal_def aead_chacha20_open_def case_prod_beta)

lemma aead_open_Some:
  assumes "crypto_ok c" and "length data = n + 16"
  shows "\<exists>r. aead_chacha20_open c n key counter data aad = Some r \<and> (\<forall>x. r = Inr x \<longrightarrow> length x = n)
    \<and> (\<forall>e. r = Inl e \<longrightarrow> e = InvalidAeadTag)"
  using assms crypto_ok_open_len [OF assms(1)]
  by (fastforce simp: aead_chacha20_open_def split: option.splits)

section \<open>A concrete instance\<close>

text \<open>An instance that satisfies \<open>crypto_ok\<close>, so that the theorems can be applied to concrete
  inputs. It has no cryptographic strength.\<close>

definition pad32 :: "bytes \<Rightarrow> bytes" where
  "pad32 x = take 32 (x @ replicate 32 0)"

definition plain_tag :: "bytes \<Rightarrow> bytes \<Rightarrow> bytes" where
  "plain_tag k a = take 16 (rev a @ k @ replicate 16 0)"

definition plain_open :: "bytes \<Rightarrow> bytes \<Rightarrow> bytes \<Rightarrow> bytes \<Rightarrow> bytes option" where
  "plain_open k n a x =
    (if length x < 16 then None
     else if drop (length x - 16) x = plain_tag k a then Some (take (length x - 16) x) else None)"

definition plain_crypto :: crypto where
  "plain_crypto = \<lparr>
     blake2s256 = (\<lambda>x. take 32 (rev x @ replicate 32 0)),
     hmac_blake2s = (\<lambda>k x. take 32 (rev x @ k @ replicate 32 0)),
     blake2s_mac = (\<lambda>n k x. take n (rev x @ k @ replicate n 0)),
     chacha_seal = (\<lambda>k n a d. (d, plain_tag k a)),
     chacha_open = plain_open,
     xchacha_seal = (\<lambda>k n a d. (d, plain_tag k a)),
     xchacha_open = plain_open,
     x25519_public = pad32,
     x25519_dh = (\<lambda>k p. map2 (XOR) (pad32 k) (pad32 p)),
     mlkem_keygen = (\<lambda>r. (r, replicate MLKEM768_PK_SIZE 1)),
     mlkem_ek_ok = (\<lambda>_. True),
     mlkem_encaps = (\<lambda>ek r. (pad32 r @ replicate (MLKEM768_CT_SIZE - 32) 0, pad32 r)),
     mlkem_decaps = (\<lambda>dk ct. Some (take 32 ct)) \<rparr>"

lemma length_pad32 [simp]: "length (pad32 x) = 32"
  by (simp add: pad32_def)

lemma pad32_pad32 [simp]: "pad32 (pad32 x) = pad32 x"
  by (simp add: pad32_def)

lemma length_plain_tag [simp]: "length (plain_tag k a) = 16"
  by (simp add: plain_tag_def)

lemma map2_xor_commute: "map2 (XOR) xs ys = map2 (XOR) ys (xs :: bytes)"
  by (induction xs ys rule: list_induct2') (simp_all add: xor.commute)

lemma plain_crypto_ok: "crypto_ok plain_crypto"
  by (auto simp: crypto_ok_def plain_crypto_def plain_open_def MLKEM768_CT_SIZE_def
      map2_xor_commute split: if_splits)

end
