(* ===== verification/Session.thy ===== *)
theory Session
  imports Crypto
begin

text \<open>
  \<^verbatim>\<open>noise/session.rs\<close>: the sliding-window replay filter \<open>ReceivingKeyCounterValidator\<close> and the
  transport session that encrypts and decrypts data packets.

  The filter keeps the highest counter seen (\<open>next\<close> is one more) and a ring of 1024 bits. Its
  specification is the set of counters accepted so far; the refinement lemma relates the two,
  and the interface \<open>replay_filter\<close> collects what the session and its concurrent callers rely
  on. Sums of \<open>u64\<close> values wrap around here, as in a release build.
\<close>

section \<open>The replay filter\<close>

definition WORD_SIZE :: u64 where "WORD_SIZE = 64"
definition N_WORDS :: u64 where "N_WORDS = 16"
definition N_BITS :: u64 where "N_BITS = WORD_SIZE * N_WORDS"

definition DATA_OFFSET :: nat where "DATA_OFFSET = 16"
definition AEAD_SIZE :: nat where "AEAD_SIZE = 16"

record validator =
  next_counter :: u64
  receive_cnt :: u64
  bitmap :: "u64 list"

definition validator_default :: validator where
  "validator_default = \<lparr> next_counter = 0, receive_cnt = 0, bitmap = replicate 16 0 \<rparr>"

definition set_bit_at :: "validator \<Rightarrow> u64 \<Rightarrow> validator" where
  "set_bit_at v idx =
    (let bit_idx = idx mod N_BITS;
         word = unat (bit_idx div WORD_SIZE);
         b = unat (bit_idx mod WORD_SIZE)
     in v\<lparr>bitmap := (bitmap v)[word := (bitmap v ! word) OR push_bit b 1]\<rparr>)"

definition clear_bit_at :: "validator \<Rightarrow> u64 \<Rightarrow> validator" where
  "clear_bit_at v idx =
    (let bit_idx = idx mod N_BITS;
         word = unat (bit_idx div WORD_SIZE);
         b = unat (bit_idx mod WORD_SIZE)
     in v\<lparr>bitmap := (bitmap v)[word := (bitmap v ! word) AND NOT (push_bit b 1)]\<rparr>)"

definition clear_word :: "validator \<Rightarrow> u64 \<Rightarrow> validator" where
  "clear_word v idx =
    (let bit_idx = idx mod N_BITS;
         word = unat (bit_idx div WORD_SIZE)
     in v\<lparr>bitmap := (bitmap v)[word := 0]\<rparr>)"

definition check_bit :: "validator \<Rightarrow> u64 \<Rightarrow> bool" where
  "check_bit v idx =
    (let bit_idx = idx mod N_BITS;
         word = unat (bit_idx div WORD_SIZE);
         b = unat (bit_idx mod WORD_SIZE)
     in drop_bit b (bitmap v ! word) AND 1 = 1)"

definition will_accept :: "validator \<Rightarrow> u64 \<Rightarrow> unit wg_result" where
  "will_accept v counter =
    (if next_counter v \<le> counter then Inr ()
     else if counter + N_BITS < next_counter v then Inl InvalidCounter
     else if \<not> check_bit v counter then Inr () else Inl DuplicateCounter)"

text \<open>The three loops of \<open>mark_did_receive\<close> that clear the skipped counters. The second one
  adds \<open>WORD_SIZE\<close> to its index before comparing; if that sum wrapped around it would not
  terminate, so it is a partial function. \<open>mark_did_receive_returns\<close> below shows that it always returns.\<close>

function clear_until_aligned :: "u64 \<Rightarrow> u64 \<Rightarrow> validator \<Rightarrow> u64 \<times> validator" where
  "clear_until_aligned i counter v =
    (if i mod WORD_SIZE \<noteq> 0 \<and> i < counter
     then clear_until_aligned (i + 1) counter (clear_bit_at v i) else (i, v))"
  by pat_completeness auto
termination
proof (relation "measure (\<lambda>(i, counter, v). unat counter - unat i)")
  fix i counter :: u64 and v :: validator
  assume a: "i mod WORD_SIZE \<noteq> 0 \<and> i < counter"
  then have "unat (i + 1) = Suc (unat i)" by (auto dest: unat_Suc_less)
  with a show "((i + 1, counter, clear_bit_at v i), (i, counter, v)) \<in> measure (\<lambda>(i, counter, v). unat counter - unat i)"
    by (auto simp: word_less_nat_alt)
qed simp

partial_function (option) clear_whole_words :: "u64 \<Rightarrow> u64 \<Rightarrow> validator \<Rightarrow> (u64 \<times> validator) option" where
  "clear_whole_words i counter v =
    (if i + WORD_SIZE < counter
     then clear_whole_words ((i + WORD_SIZE) AND (0 - WORD_SIZE)) counter (clear_word v i)
     else Some (i, v))"

declare clear_whole_words.simps [code]

function clear_remaining :: "u64 \<Rightarrow> u64 \<Rightarrow> validator \<Rightarrow> validator" where
  "clear_remaining i counter v =
    (if i < counter then clear_remaining (i + 1) counter (clear_bit_at v i) else v)"
  by pat_completeness auto
termination
proof (relation "measure (\<lambda>(i, counter, v). unat counter - unat i)")
  fix i counter :: u64 and v :: validator
  assume a: "i < counter"
  then have "unat (i + 1) = Suc (unat i)" by (auto dest: unat_Suc_less)
  with a show "((i + 1, counter, clear_bit_at v i), (i, counter, v)) \<in> measure (\<lambda>(i, counter, v). unat counter - unat i)"
    by (auto simp: word_less_nat_alt)
qed simp

declare clear_until_aligned.simps [simp del] clear_remaining.simps [simp del]

definition mark_did_receive :: "validator \<Rightarrow> u64 \<Rightarrow> (validator \<times> unit wg_result) option" where
  "mark_did_receive v counter =
    (if counter + N_BITS < next_counter v then Some (v, Inl InvalidCounter)
     else if counter = next_counter v then
       let v1 = set_bit_at v counter in Some (v1\<lparr>next_counter := next_counter v1 + 1\<rparr>, Inr ())
     else if counter < next_counter v then
       (if check_bit v counter then Some (v, Inl InvalidCounter) else Some (set_bit_at v counter, Inr ()))
     else do {
       v1 \<leftarrow> (if N_BITS \<le> counter - next_counter v
               then Some (v\<lparr>bitmap := map (\<lambda>_. 0) (bitmap v)\<rparr>)
               else do {
                 let (i, v1) = clear_until_aligned (next_counter v) counter v;
                 (i, v1) \<leftarrow> clear_whole_words i counter v1;
                 Some (clear_remaining i counter v1)
               });
       Some ((set_bit_at v1 counter)\<lparr>next_counter := counter + 1\<rparr>, Inr ())
     })"

section \<open>The bitmap as 1024 slots\<close>

definition slot :: "u64 \<Rightarrow> nat" where
  "slot c = unat c mod 1024"

definition bits :: "validator \<Rightarrow> nat \<Rightarrow> bool" where
  "bits v s = bit (bitmap v ! (s div 64)) (s mod 64)"

definition validator_wf :: "validator \<Rightarrow> bool" where
  "validator_wf v \<longleftrightarrow> length (bitmap v) = 16"

lemma slot_less [simp]: "slot c < 1024"
  by (simp add: slot_def)

lemma slot_index:
  "unat ((idx mod N_BITS) div WORD_SIZE) = slot idx div 64"
  "unat ((idx mod N_BITS) mod WORD_SIZE) = slot idx mod 64"
  by (simp_all add: N_BITS_def N_WORDS_def WORD_SIZE_def slot_def unat_div unat_mod)

lemma div_mod_64_eq: "s div 64 = t div 64 \<Longrightarrow> s mod 64 = t mod 64 \<Longrightarrow> s = (t :: nat)"
  by (metis div_mult_mod_eq)

lemma check_bit_bits: "check_bit v idx = bits v (slot idx)"
  by (simp add: check_bit_def Let_def slot_index bits_def bit_iff_odd_drop_bit and_one_eq
      odd_iff_mod_2_eq_one)

lemma bits_set_bit:
  assumes "validator_wf v" "s < 1024"
  shows "bits (set_bit_at v idx) s \<longleftrightarrow> s = slot idx \<or> bits v s"
proof (cases "s div 64 = slot idx div 64")
  case True
  have "slot idx div 64 < 16" using slot_less [of idx] by linarith
  moreover have "s mod 64 = slot idx mod 64 \<longleftrightarrow> s = slot idx" using True div_mod_64_eq by blast
  ultimately show ?thesis using True assms
    by (auto simp: set_bit_at_def Let_def slot_index bits_def validator_wf_def bit_simps)
next
  case False
  then show ?thesis by (auto simp: set_bit_at_def Let_def slot_index bits_def)
qed

lemma bits_clear_bit:
  assumes "validator_wf v" "s < 1024"
  shows "bits (clear_bit_at v idx) s \<longleftrightarrow> s \<noteq> slot idx \<and> bits v s"
proof (cases "s div 64 = slot idx div 64")
  case True
  have "slot idx div 64 < 16" using slot_less [of idx] by linarith
  moreover have "s mod 64 = slot idx mod 64 \<longleftrightarrow> s = slot idx" using True div_mod_64_eq by blast
  ultimately show ?thesis using True assms
    by (auto simp: clear_bit_at_def Let_def slot_index bits_def validator_wf_def bit_simps
        dest: bit_imp_le_length)
next
  case False
  then show ?thesis by (auto simp: clear_bit_at_def Let_def slot_index bits_def)
qed

lemma bits_clear_word:
  assumes "validator_wf v" "s < 1024"
  shows "bits (clear_word v idx) s \<longleftrightarrow> s div 64 \<noteq> slot idx div 64 \<and> bits v s"
proof -
  have "slot idx div 64 < 16" using slot_less [of idx] by linarith
  then show ?thesis using assms
    by (auto simp: clear_word_def Let_def slot_index bits_def validator_wf_def nth_list_update)
qed

lemma validator_frame [simp]:
  "next_counter (set_bit_at v i) = next_counter v" "validator_wf (set_bit_at v i) = validator_wf v"
  "next_counter (clear_bit_at v i) = next_counter v" "validator_wf (clear_bit_at v i) = validator_wf v"
  "next_counter (clear_word v i) = next_counter v" "validator_wf (clear_word v i) = validator_wf v"
  "receive_cnt (set_bit_at v i) = receive_cnt v" "receive_cnt (clear_bit_at v i) = receive_cnt v"
  "receive_cnt (clear_word v i) = receive_cnt v"
  by (simp_all add: set_bit_at_def clear_bit_at_def clear_word_def Let_def validator_wf_def)

text \<open>What clearing the counters from \<open>i\<close> up to \<open>j\<close> means for the slots.\<close>

definition cleared :: "validator \<Rightarrow> validator \<Rightarrow> nat \<Rightarrow> nat \<Rightarrow> bool" where
  "cleared v v' i j \<longleftrightarrow> validator_wf v' \<and> next_counter v' = next_counter v
     \<and> receive_cnt v' = receive_cnt v
     \<and> (\<forall>s<1024. bits v' s \<longleftrightarrow> bits v s \<and> \<not> (\<exists>k. i \<le> k \<and> k < j \<and> k mod 1024 = s))"

lemma cleared_refl [intro]: "validator_wf v \<Longrightarrow> cleared v v i i"
  by (auto simp: cleared_def)

lemma cleared_trans:
  assumes "cleared v v1 i j" and "cleared v1 v2 j k" and "i \<le> j" and "j \<le> k"
  shows "cleared v v2 i k"
proof -
  have "(\<exists>m. i \<le> m \<and> m < k \<and> m mod 1024 = s) \<longleftrightarrow>
      (\<exists>m. i \<le> m \<and> m < j \<and> m mod 1024 = s) \<or> (\<exists>m. j \<le> m \<and> m < k \<and> m mod 1024 = s)" for s
    using assms(3,4) by (metis le_trans less_le_trans not_le)
  with assms(1,2) show ?thesis by (auto simp: cleared_def)
qed

lemma cleared_one: "validator_wf v \<Longrightarrow> cleared v (clear_bit_at v i) (unat i) (Suc (unat i))"
  by (auto simp: cleared_def bits_clear_bit slot_def less_Suc_eq_le dest: le_antisym)

lemma clear_until_aligned_cleared:
  assumes "validator_wf v" and "i \<le> counter" and "clear_until_aligned i counter v = (j, v')"
  shows "cleared v v' (unat i) (unat j) \<and> i \<le> j \<and> j \<le> counter \<and> (j mod WORD_SIZE = 0 \<or> j = counter)"
  using assms
proof (induction i counter v arbitrary: j v' rule: clear_until_aligned.induct)
  case (1 i counter v)
  show ?case
  proof (cases "i mod WORD_SIZE \<noteq> 0 \<and> i < counter")
    case True
    then have suc: "unat (i + 1) = Suc (unat i)" by (auto dest: unat_Suc_less)
    then have le: "i + 1 \<le> counter" "i \<le> i + 1"
      using True by (auto simp: word_le_nat_alt word_less_nat_alt)
    have "clear_until_aligned (i + 1) counter (clear_bit_at v i) = (j, v')"
      using "1.prems"(3) True by (simp add: clear_until_aligned.simps [of i])
    with "1.IH" [OF True] "1.prems"(1) le
    have ih: "cleared (clear_bit_at v i) v' (unat (i + 1)) (unat j)" "i + 1 \<le> j" "j \<le> counter"
      "j mod WORD_SIZE = 0 \<or> j = counter" by auto
    have "Suc (unat i) \<le> unat j" using ih(2) suc by (simp add: word_le_nat_alt)
    with cleared_trans [OF cleared_one [OF "1.prems"(1)] ih(1) [unfolded suc]]
    have "cleared v v' (unat i) (unat j)" by simp
    with ih le show ?thesis by auto
  next
    case False
    with "1.prems" have "j = i" "v' = v" by (auto simp: clear_until_aligned.simps [of i])
    with False "1.prems" show ?thesis by auto
  qed
qed

lemma clear_remaining_cleared:
  assumes "validator_wf v" and "i \<le> counter"
  shows "cleared v (clear_remaining i counter v) (unat i) (unat counter)"
  using assms
proof (induction i counter v rule: clear_remaining.induct)
  case (1 i counter v)
  show ?case
  proof (cases "i < counter")
    case True
    then have suc: "unat (i + 1) = Suc (unat i)" by (auto dest: unat_Suc_less)
    then have le: "i + 1 \<le> counter" "Suc (unat i) \<le> unat counter"
      using True by (auto simp: word_le_nat_alt word_less_nat_alt)
    have "cleared (clear_bit_at v i) (clear_remaining (i + 1) counter (clear_bit_at v i))
        (Suc (unat i)) (unat counter)"
      using "1.IH" [OF True] "1.prems"(1) le suc by simp
    with cleared_trans [OF cleared_one [OF "1.prems"(1)]] le
    have "cleared v (clear_remaining (i + 1) counter (clear_bit_at v i)) (unat i) (unat counter)" by simp
    with True show ?thesis by (simp add: clear_remaining.simps [of i])
  next
    case False
    with "1.prems" have "i = counter" by simp
    with False "1.prems" show ?thesis by (auto simp: clear_remaining.simps [of counter])
  qed
qed

lemma aligned_and_mask:
  assumes "x mod WORD_SIZE = 0"
  shows "x AND (0 - WORD_SIZE) = x"
proof -
  have "take_bit 6 x = 0" using assms by (simp add: take_bit_eq_mod WORD_SIZE_def)
  then have "\<not> bit x n" if "n < 6" for n
    using that bit_take_bit_iff [of 6 x n] by simp
  moreover have "0 - WORD_SIZE = NOT (mask 6 :: u64)"
    by (simp add: WORD_SIZE_def mask_eq_exp_minus_1)
  ultimately show ?thesis
    by (intro bit_word_eqI) (auto simp: bit_simps not_less [symmetric])
qed

lemma mod_1024_split: "k mod 1024 = 64 * (k div 64 mod 16) + k mod (64 :: nat)"
  using mod_mult2_eq [of k 64 16] by simp

lemma aligned_slots:
  assumes "n mod 64 = (0 :: nat)" and "s < 1024"
  shows "(\<exists>k. n \<le> k \<and> k < n + 64 \<and> k mod 1024 = s) \<longleftrightarrow> s div 64 = n mod 1024 div 64"
proof -
  obtain m where m: "n = 64 * m" using assms(1) by auto
  have n: "n mod 1024 div 64 = m mod 16" by (simp add: m mod_1024_split)
  have off: "(64 * m + r) mod 1024 = 64 * (m mod 16) + r" if "r < 64" for r
    using that by (simp add: mod_1024_split [of "64 * m + r"])
  show ?thesis
  proof
    assume "\<exists>k. n \<le> k \<and> k < n + 64 \<and> k mod 1024 = s"
    then obtain k where k: "n \<le> k" "k < n + 64" "k mod 1024 = s" by blast
    then have "k = 64 * m + (k - n)" "k - n < 64" by (auto simp: m)
    with off [of "k - n"] k(3) have "s = 64 * (m mod 16) + (k - n)" by metis
    with \<open>k - n < 64\<close> show "s div 64 = n mod 1024 div 64" by (simp add: n)
  next
    assume "s div 64 = n mod 1024 div 64"
    then have "s = 64 * (m mod 16) + s mod 64" by (metis n mult_div_mod_eq)
    with off [of "s mod 64"] have "(n + s mod 64) mod 1024 = s" by (simp add: m)
    then show "\<exists>k. n \<le> k \<and> k < n + 64 \<and> k mod 1024 = s" by (intro exI [of _ "n + s mod 64"]) simp
  qed
qed

lemma cleared_word:
  assumes "validator_wf v" and "i mod WORD_SIZE = 0"
  shows "cleared v (clear_word v i) (unat i) (unat i + 64)"
proof -
  have "unat (i mod WORD_SIZE) = 0" using assms(2) by simp
  then have "unat i mod 64 = 0" by (simp add: unat_mod WORD_SIZE_def)
  with assms(1) show ?thesis
    by (auto simp: cleared_def bits_clear_word slot_def aligned_slots)
qed

lemma aligned_add:
  assumes "i mod WORD_SIZE = 0" and "unat i + 64 < 2 ^ 64"
  shows "(i + WORD_SIZE) mod WORD_SIZE = 0" and "unat (i + WORD_SIZE) = unat i + 64"
proof -
  show u: "unat (i + WORD_SIZE) = unat i + 64"
    using assms(2) by (simp add: WORD_SIZE_def unat_word_ariths)
  have "unat (i mod WORD_SIZE) = 0" using assms(1) by simp
  then have "unat ((i + WORD_SIZE) mod WORD_SIZE) = 0"
    using u by (simp add: unat_mod WORD_SIZE_def)
  then show "(i + WORD_SIZE) mod WORD_SIZE = 0" by (simp add: unat_0_iff)
qed

lemma clear_whole_words_cleared:
  assumes "validator_wf v" and "i \<le> counter" and "i mod WORD_SIZE = 0 \<or> i = counter"
    and "unat counter + 64 < 2 ^ 64"
  shows "\<exists>j v'. clear_whole_words i counter v = Some (j, v') \<and> cleared v v' (unat i) (unat j)
    \<and> i \<le> j \<and> j \<le> counter"
  using assms(1-3)
proof (induction "unat counter - unat i" arbitrary: i v rule: less_induct)
  case less
  have ui: "unat i + 64 < 2 ^ 64"
    using less.prems(2) assms(4) by (simp add: word_le_nat_alt)
  then have u: "unat (i + WORD_SIZE) = unat i + 64" by (simp add: WORD_SIZE_def unat_word_ariths)
  show ?case
  proof (cases "i + WORD_SIZE < counter")
    case True
    then have lt: "unat i + 64 < unat counter" using u by (simp add: word_less_nat_alt)
    then have al: "i mod WORD_SIZE = 0" using less.prems(3) by auto
    let ?i = "i + WORD_SIZE"
    have mask: "?i AND (0 - WORD_SIZE) = ?i"
      using aligned_add(1) [OF al ui] by (rule aligned_and_mask)
    have wf: "validator_wf (clear_word v i)" using less.prems(1) by simp
    have le: "?i \<le> counter" "i \<le> ?i" using lt u by (auto simp: word_le_nat_alt)
    have dec: "unat counter - unat ?i < unat counter - unat i" using lt u by simp
    from less.hyps [OF dec wf le(1)] aligned_add(1) [OF al ui] obtain j v' where
      ih: "clear_whole_words ?i counter (clear_word v i) = Some (j, v')"
        "cleared (clear_word v i) v' (unat ?i) (unat j)" "?i \<le> j" "j \<le> counter" by blast
    have "unat i + 64 \<le> unat j" using ih(3) u by (simp add: word_le_nat_alt)
    with cleared_trans [OF cleared_word [OF less.prems(1) al] ih(2) [unfolded u]]
    have "cleared v v' (unat i) (unat j)" by simp
    moreover have "clear_whole_words i counter v = Some (j, v')"
      using True ih(1) mask by (simp add: clear_whole_words.simps [of i])
    moreover have "i \<le> j" using le(2) ih(3) by simp
    ultimately show ?thesis using ih(4) by blast
  next
    case False
    then have "clear_whole_words i counter v = Some (i, v)"
      by (simp add: clear_whole_words.simps [of i])
    with less.prems show ?thesis by auto
  qed
qed

text \<open>The three loops together clear exactly the counters from \<open>next\<close> up to the received one.\<close>

lemma clear_loops:
  assumes "validator_wf v" and "i \<le> counter" and "unat counter + 64 < 2 ^ 64"
  shows "\<exists>v'. (case clear_until_aligned i counter v of (j, v1) \<Rightarrow>
      Option.bind (clear_whole_words j counter v1) (\<lambda>(k, v2). Some (clear_remaining k counter v2))) = Some v'
    \<and> cleared v v' (unat i) (unat counter)"
proof -
  obtain j v1 where 1: "clear_until_aligned i counter v = (j, v1)" by (cases "clear_until_aligned i counter v")
  from clear_until_aligned_cleared [OF assms(1,2) 1]
  have a: "cleared v v1 (unat i) (unat j)" "i \<le> j" "j \<le> counter" "j mod WORD_SIZE = 0 \<or> j = counter" by auto
  then have wf1: "validator_wf v1" by (simp add: cleared_def)
  from clear_whole_words_cleared [OF wf1 a(3,4) assms(3)] obtain k v2 where
    2: "clear_whole_words j counter v1 = Some (k, v2)" and b: "cleared v1 v2 (unat j) (unat k)" "j \<le> k" "k \<le> counter"
    by blast
  then have wf2: "validator_wf v2" by (simp add: cleared_def)
  have c: "cleared v2 (clear_remaining k counter v2) (unat k) (unat counter)"
    using clear_remaining_cleared [OF wf2 b(3)] .
  have "cleared v (clear_remaining k counter v2) (unat i) (unat counter)"
    using a b c by (meson cleared_trans word_le_nat_alt order_trans)
  with 1 2 show ?thesis by simp
qed

section \<open>Specification of the filter\<close>

text \<open>The abstract filter: the set of counters accepted so far and the bound \<open>n\<close> above all of
  them. A counter is accepted iff it is at most 1024 below \<open>n\<close> and was not accepted before.\<close>

definition spec_mark :: "nat set \<times> nat \<Rightarrow> nat \<Rightarrow> (nat set \<times> nat) option" where
  "spec_mark st c = (case st of (S, n) \<Rightarrow>
     if c + 1024 < n \<or> c \<in> S then None else Some (insert c S, max n (c + 1)))"

definition replay_rel :: "validator \<Rightarrow> nat set \<times> nat \<Rightarrow> bool" where
  "replay_rel v st \<longleftrightarrow> (case st of (S, n) \<Rightarrow>
     validator_wf v \<and> unat (next_counter v) = n \<and> (\<forall>c\<in>S. c < n) \<and>
     (\<forall>c<n. n \<le> c + 1024 \<longrightarrow> (bits v (c mod 1024) \<longleftrightarrow> c \<in> S)))"

text \<open>Counters for which no sum in the filter wraps around.\<close>

definition counter_ok :: "u64 \<Rightarrow> bool" where
  "counter_ok c \<longleftrightarrow> unat c + 1024 < 2 ^ 64"

lemma unat_N_BITS [simp]: "unat N_BITS = 1024"
  by (simp add: N_BITS_def N_WORDS_def WORD_SIZE_def)

lemma counter_ok_add:
  "counter_ok c \<Longrightarrow> unat (c + N_BITS) = unat c + 1024"
  "counter_ok c \<Longrightarrow> unat (c + 1) = unat c + 1"
  by (simp_all add: counter_ok_def unat_word_ariths)

lemma replay_rel_init: "replay_rel validator_default ({}, 0)"
  by (simp add: replay_rel_def validator_default_def validator_wf_def)

lemma replay_rel_check_bit:
  assumes "replay_rel v (S, n)" and "unat c < n" and "n \<le> unat c + 1024"
  shows "check_bit v c \<longleftrightarrow> unat c \<in> S"
  using assms by (simp add: replay_rel_def check_bit_bits slot_def)

lemma replay_rel_set_bit:
  assumes "replay_rel v (S, n)" and "unat c < n" and "n \<le> unat c + 1024"
  shows "replay_rel (set_bit_at v c) (insert (unat c) S, n)"
proof -
  have "d mod 1024 = slot c \<longleftrightarrow> d = unat c" if "d < n" "n \<le> d + 1024" for d
  proof
    assume "d mod 1024 = slot c"
    then have "d mod 1024 = unat c mod 1024" by (simp add: slot_def)
    moreover have "d < unat c + 1024" "unat c < d + 1024" using that assms(2,3) by auto
    ultimately show "d = unat c" by (rule mod_eq_close)
  qed (simp add: slot_def)
  with assms show ?thesis by (auto simp: replay_rel_def bits_set_bit)
qed

lemma replay_rel_next:
  assumes "replay_rel v (S, n)" and "cleared v v' n m" and "n \<le> m" and "m < 2 ^ 64"
  shows "replay_rel (v'\<lparr>next_counter := of_nat m\<rparr>) (S, m)"
proof -
  have bits: "bits (v'\<lparr>next_counter := of_nat m\<rparr>) s = bits v' s" for s by (simp add: bits_def)
  have "bits v' (c mod 1024) \<longleftrightarrow> c \<in> S" if c: "c < m" "m \<le> c + 1024" for c
  proof (cases "c < n")
    case True
    have "\<not> (\<exists>k. n \<le> k \<and> k < m \<and> k mod 1024 = c mod 1024)"
    proof
      assume "\<exists>k. n \<le> k \<and> k < m \<and> k mod 1024 = c mod 1024"
      then obtain k where k: "n \<le> k" "k < m" "k mod 1024 = c mod 1024" by blast
      then have "c < k" "k < c + 1024" using True c by auto
      with mod_eq_close [OF k(3)] show False by simp
    qed
    moreover have "n \<le> c + 1024" using c assms(3) by simp
    ultimately show ?thesis using assms(1,2) True by (auto simp: cleared_def replay_rel_def)
  next
    case False
    then have "\<not> bits v' (c mod 1024)" using assms(2) c by (auto simp: cleared_def not_less)
    moreover have "c \<notin> S" using False assms(1) by (auto simp: replay_rel_def)
    ultimately show ?thesis by simp
  qed
  moreover have "unat (of_nat m :: u64) = m" using assms(4) by (simp add: unat_of_nat)
  ultimately show ?thesis using assms by (fastforce simp: replay_rel_def cleared_def bits validator_wf_def)
qed

lemma cleared_all:
  assumes "validator_wf v" and "i + 1024 \<le> j"
  shows "cleared v (v\<lparr>bitmap := map (\<lambda>_. 0) (bitmap v)\<rparr>) i j"
proof -
  have "\<exists>k. i \<le> k \<and> k < j \<and> k mod 1024 = s" if "s < 1024" for s
    using that assms(2) by (rule ex_residue_in_range)
  moreover have "\<not> bits (v\<lparr>bitmap := map (\<lambda>_. 0) (bitmap v)\<rparr>) s" if "s < 1024" for s
    using that assms(1) by (simp add: bits_def validator_wf_def)
  ultimately show ?thesis using assms(1) by (auto simp: cleared_def validator_wf_def)
qed

lemma replay_rel_in_order:
  assumes "replay_rel v (S, n)" and "n = unat c" and "counter_ok c"
  shows "replay_rel ((set_bit_at v c)\<lparr>next_counter := c + 1\<rparr>) (insert n S, n + 1)"
proof -
  have wf: "validator_wf v" using assms(1) by (simp add: replay_rel_def)
  have b: "bits ((set_bit_at v c)\<lparr>next_counter := c + 1\<rparr>) (d mod 1024)
      \<longleftrightarrow> d mod 1024 = n mod 1024 \<or> bits v (d mod 1024)" for d
    using bits_set_bit [OF wf, of "d mod 1024" c] assms(2) by (simp add: bits_def slot_def)
  have "bits ((set_bit_at v c)\<lparr>next_counter := c + 1\<rparr>) (d mod 1024) \<longleftrightarrow> d \<in> insert n S"
    if d: "d < n + 1" "n + 1 \<le> d + 1024" for d
  proof (cases "d = n")
    case False
    then have "d mod 1024 \<noteq> n mod 1024" using d mod_eq_close [of d 1024 n] by auto
    moreover have "bits v (d mod 1024) \<longleftrightarrow> d \<in> S" using assms(1) d False by (simp add: replay_rel_def)
    ultimately show ?thesis using False b by simp
  qed (simp add: b)
  moreover have "validator_wf ((set_bit_at v c)\<lparr>next_counter := c + 1\<rparr>)"
    using wf validator_frame(2) [of v c] by (simp add: validator_wf_def)
  ultimately show ?thesis using assms counter_ok_add(2) [OF assms(3)]
    by (fastforce simp: replay_rel_def)
qed

lemma set_bit_next: "(set_bit_at (v\<lparr>next_counter := m\<rparr>) c)\<lparr>next_counter := k\<rparr> = (set_bit_at v c)\<lparr>next_counter := k\<rparr>"
  by (simp add: set_bit_at_def Let_def)

lemma mark_ahead:
  assumes "validator_wf v" and "next_counter v < c" and "\<not> c + N_BITS < next_counter v"
  shows "\<exists>v1. mark_did_receive v c = Some ((set_bit_at v1 c)\<lparr>next_counter := c + 1\<rparr>, Inr ())
    \<and> cleared v v1 (unat (next_counter v)) (unat c)"
proof (cases "N_BITS \<le> c - next_counter v")
  case True
  then have "unat (next_counter v) + 1024 \<le> unat c"
    using assms(2) by (simp add: word_le_nat_alt word_less_nat_alt unat_sub)
  with cleared_all [OF assms(1)] True assms(2,3) show ?thesis
    by (auto simp: mark_did_receive_def)
next
  case False
  have "unat c + 1024 < 2 ^ 64"
  proof (rule ccontr)
    assume w: "\<not> unat c + 1024 < 2 ^ 64"
    then have "unat (c + N_BITS) = unat c + 1024 - 2 ^ 64"
      using unsigned_less [of c, where ?'a = nat] by (simp add: unat_word_ariths le_mod_geq)
    then have "unat (next_counter v) \<le> unat c + 1024 - 2 ^ 64"
      using assms(3) by (simp add: word_less_nat_alt)
    moreover have "unat (c - next_counter v) = unat c - unat (next_counter v)"
      using assms(2) by (simp add: unat_sub word_less_nat_alt word_le_nat_alt)
    ultimately have "1024 \<le> unat (c - next_counter v)" using w unsigned_less [of c, where ?'a = nat] by simp
    with False show False by (simp add: word_le_nat_alt)
  qed
  then have "unat c + 64 < 2 ^ 64" by simp
  from clear_loops [OF assms(1) less_imp_le [OF assms(2)] this] obtain v1 where
    v1: "(case clear_until_aligned (next_counter v) c v of (j, v1) \<Rightarrow>
      Option.bind (clear_whole_words j c v1) (\<lambda>(k, v2). Some (clear_remaining k c v2))) = Some v1"
    "cleared v v1 (unat (next_counter v)) (unat c)" by blast
  with False assms(2,3) show ?thesis
    by (auto simp: mark_did_receive_def case_prod_beta intro!: exI [of _ v1])
qed

lemma mark_did_receive_refines:
  assumes "replay_rel v (S, n)" and "counter_ok c"
  shows "case spec_mark (S, n) (unat c) of
      None \<Rightarrow> mark_did_receive v c = Some (v, Inl InvalidCounter)
    | Some st' \<Rightarrow> \<exists>v'. mark_did_receive v c = Some (v', Inr ()) \<and> replay_rel v' st'"
proof -
  have wf: "validator_wf v" and n: "unat (next_counter v) = n" and S: "\<forall>c\<in>S. c < n"
    using assms(1) by (auto simp: replay_rel_def)
  have back_iff: "c + N_BITS < next_counter v \<longleftrightarrow> unat c + 1024 < n"
    using counter_ok_add(1) [OF assms(2)] n by (simp add: word_less_nat_alt)
  consider (far) "unat c + 1024 < n" | (eq) "unat c = n" | (old) "unat c < n" "n \<le> unat c + 1024"
    | (ahead) "n < unat c" by linarith
  then show ?thesis
  proof cases
    case far
    then show ?thesis using back_iff
      by (simp add: mark_did_receive_def spec_mark_def)
  next
    case eq
    then have c: "c = next_counter v" using n by (simp add: word_unat_eq_iff)
    have "n \<notin> S" using S by auto
    with eq c back_iff show ?thesis
      using replay_rel_in_order [OF assms(1) eq [symmetric] assms(2)]
      by (simp add: mark_did_receive_def spec_mark_def Let_def)
  next
    case old
    then have lt: "c < next_counter v" using n by (simp add: word_less_nat_alt)
    with old back_iff show ?thesis
      using replay_rel_check_bit [OF assms(1) old] replay_rel_set_bit [OF assms(1) old]
      by (auto simp: mark_did_receive_def spec_mark_def)
  next
    case ahead
    then have lt: "next_counter v < c" using n by (simp add: word_less_nat_alt)
    have "\<not> c + N_BITS < next_counter v" using back_iff ahead by simp
    from mark_ahead [OF wf lt this] obtain v1 where
      v1: "mark_did_receive v c = Some ((set_bit_at v1 c)\<lparr>next_counter := c + 1\<rparr>, Inr ())"
        "cleared v v1 n (unat c)" using n by auto
    have "replay_rel (v1\<lparr>next_counter := of_nat (unat c)\<rparr>) (S, unat c)"
      using replay_rel_next [OF assms(1) v1(2)] ahead unsigned_less [of c, where ?'a = nat] by simp
    from replay_rel_in_order [OF this refl assms(2)]
    have "replay_rel ((set_bit_at v1 c)\<lparr>next_counter := c + 1\<rparr>) (insert (unat c) S, unat c + 1)"
      by (simp add: set_bit_next)
    moreover have "unat c \<notin> S" using S ahead by auto
    ultimately show ?thesis using v1(1) ahead by (simp add: spec_mark_def max_def)
  qed
qed

lemma will_accept_spec:
  assumes "replay_rel v (S, n)" and "counter_ok c"
  shows "will_accept v c = Inr () \<longleftrightarrow> spec_mark (S, n) (unat c) \<noteq> None"
proof -
  have n: "unat (next_counter v) = n" and S: "\<forall>c\<in>S. c < n"
    using assms(1) by (auto simp: replay_rel_def)
  have far: "c + N_BITS < next_counter v \<longleftrightarrow> unat c + 1024 < n"
    using counter_ok_add(1) [OF assms(2)] n by (simp add: word_less_nat_alt)
  have new: "next_counter v \<le> c \<longleftrightarrow> n \<le> unat c" using n by (simp add: word_le_nat_alt)
  show ?thesis
    using far new S replay_rel_check_bit [OF assms(1), of c]
    by (auto simp: will_accept_def spec_mark_def not_le not_less)
qed

lemma mark_did_receive_wf:
  assumes "validator_wf v"
  shows "\<exists>v' r. mark_did_receive v c = Some (v', r) \<and> validator_wf v' \<and> receive_cnt v' = receive_cnt v"
proof (cases "next_counter v < c \<and> \<not> c + N_BITS < next_counter v")
  case True
  then obtain v1 where "mark_did_receive v c = Some ((set_bit_at v1 c)\<lparr>next_counter := c + 1\<rparr>, Inr ())"
    "cleared v v1 (unat (next_counter v)) (unat c)" using mark_ahead [OF assms] by blast
  moreover have "validator_wf ((set_bit_at v1 c)\<lparr>next_counter := c + 1\<rparr>) = validator_wf (set_bit_at v1 c)"
    by (simp add: validator_wf_def)
  ultimately show ?thesis by (auto simp: cleared_def)
next
  case False
  then show ?thesis using assms validator_frame(2) [of v c]
    by (auto simp: mark_did_receive_def Let_def not_less validator_wf_def)
qed

section \<open>Sessions\<close>

record session =
  receiving_index :: u32
  sending_index :: u32
  receiver :: bytes
  sender :: bytes
  sending_key_counter :: u64
  receiving_key_counter :: validator

definition session_new :: "u32 \<Rightarrow> u32 \<Rightarrow> bytes \<Rightarrow> bytes \<Rightarrow> session" where
  "session_new local_index peer_index receiving_key sending_key =
    \<lparr> receiving_index = local_index, sending_index = peer_index, receiver = receiving_key,
      sender = sending_key, sending_key_counter = 0, receiving_key_counter = validator_default \<rparr>"

definition session_local_index :: "session \<Rightarrow> nat" where
  "session_local_index s = unat (receiving_index s)"

definition receiving_counter_quick_check :: "session \<Rightarrow> u64 \<Rightarrow> unit wg_result" where
  "receiving_counter_quick_check s counter = will_accept (receiving_key_counter s) counter"

definition receiving_counter_mark :: "session \<Rightarrow> u64 \<Rightarrow> (session \<times> unit wg_result) option" where
  "receiving_counter_mark s counter = do {
     (v, ret) \<leftarrow> mark_did_receive (receiving_key_counter s) counter;
     let v' = (case ret of Inr _ \<Rightarrow> v\<lparr>receive_cnt := receive_cnt v + 1\<rparr> | Inl _ \<Rightarrow> v);
     Some (s\<lparr>receiving_key_counter := v'\<rparr>, ret)
   }"

text \<open>\<open>format_packet_data\<close>: the returned bytes are the filled prefix of \<open>dst\<close>.\<close>

definition format_packet_data :: "crypto \<Rightarrow> session \<Rightarrow> bytes \<Rightarrow> bytes \<Rightarrow> (session \<times> bytes) option" where
  "format_packet_data c s src dst =
    (if length dst < length src + DATA_OVERHEAD_SZ then None
     else
       let ctr = sending_key_counter s;
           s' = s\<lparr>sending_key_counter := ctr + 1\<rparr>;
           message_type = le_bytes 4 DATA;
           receiver_idx = le_bytes 4 (sending_index s);
           counter = le_bytes 8 ctr;
           (ct, tag) = chacha_seal c (sender s) (counter_nonce ctr) [] src
       in Some (s', message_type @ receiver_idx @ counter @ ct @ tag))"

definition receive_packet_data ::
  "crypto \<Rightarrow> session \<Rightarrow> packet_data \<Rightarrow> bytes \<Rightarrow> (session \<times> bytes wg_result) option" where
  "receive_packet_data c s packet dst =
    (let ct_len = length (pd_encrypted_encapsulated_packet packet) in
     if length dst < ct_len then None
     else if pd_receiver_idx packet \<noteq> receiving_index s then Some (s, Inl WrongIndex)
     else (case receiving_counter_quick_check s (pd_counter packet) of
         Inl e \<Rightarrow> Some (s, Inl e)
       | Inr _ \<Rightarrow>
         (case chacha_open c (receiver s) (counter_nonce (pd_counter packet)) []
                (pd_encrypted_encapsulated_packet packet) of
            None \<Rightarrow> Some (s, Inl InvalidAeadTag)
          | Some ret \<Rightarrow> do {
              (s', r) \<leftarrow> receiving_counter_mark s (pd_counter packet);
              Some (s', bind_result r (\<lambda>_. Inr ret))
            })))"

definition current_packet_cnt :: "session \<Rightarrow> u64 \<times> u64" where
  "current_packet_cnt s = (next_counter (receiving_key_counter s), receive_cnt (receiving_key_counter s))"

section \<open>The interface of a replay filter\<close>

text \<open>What the users of the filter rely on: \<open>mark\<close> accepts only counters that are not in the set
  of counters accepted before, and \<open>accept\<close> is its test without the update. \<open>seen s A\<close> says that
  the filter state \<open>s\<close> has accepted exactly the counters \<open>A\<close>.\<close>

fun run_filter :: "('s \<Rightarrow> u64 \<Rightarrow> 's option) \<Rightarrow> 's \<Rightarrow> u64 list \<Rightarrow> 's \<times> u64 list" where
  "run_filter mark s [] = (s, [])"
| "run_filter mark s (c # cs) = (case mark s c of
     None \<Rightarrow> run_filter mark s cs
   | Some s' \<Rightarrow> (let (t, ds) = run_filter mark s' cs in (t, c # ds)))"

locale replay_filter =
  fixes accept :: "'s \<Rightarrow> u64 \<Rightarrow> bool"
    and mark :: "'s \<Rightarrow> u64 \<Rightarrow> 's option"
    and seen :: "'s \<Rightarrow> nat set \<Rightarrow> bool"
  assumes mark_new: "seen s A \<Longrightarrow> counter_ok c \<Longrightarrow> mark s c = Some s' \<Longrightarrow>
      unat c \<notin> A \<and> seen s' (insert (unat c) A)"
    and accept_iff: "seen s A \<Longrightarrow> counter_ok c \<Longrightarrow> accept s c \<longleftrightarrow> mark s c \<noteq> None"
begin

lemma run_distinct:
  assumes "seen s A" and "\<forall>c\<in>set cs. counter_ok c" and "run_filter mark s cs = (t, ds)"
  shows "distinct ds \<and> set ds \<subseteq> set cs \<and> unat ` set ds \<inter> A = {} \<and> seen t (A \<union> unat ` set ds)"
  using assms
proof (induction cs arbitrary: s A ds)
  case Nil
  then show ?case by simp
next
  case (Cons c cs)
  show ?case
  proof (cases "mark s c")
    case None
    with Cons show ?thesis by fastforce
  next
    case (Some s')
    then obtain es where es: "run_filter mark s' cs = (t, es)" "ds = c # es"
      using Cons.prems(3) by (auto split: prod.splits)
    have new: "unat c \<notin> A" "seen s' (insert (unat c) A)"
      using mark_new [OF Cons.prems(1) _ Some] Cons.prems(2) by auto
    from Cons.IH [OF new(2) _ es(1)] Cons.prems(2)
    have ih: "distinct es" "set es \<subseteq> set cs" "unat ` set es \<inter> insert (unat c) A = {}"
      "seen t (insert (unat c) A \<union> unat ` set es)" by auto
    then have "c \<notin> set es" by auto
    with ih new(1) es(2) show ?thesis by (auto simp: insert_commute)
  qed
qed

lemma rejected_after_accepted:
  assumes "seen s A" and "counter_ok c" and "unat c \<in> A"
  shows "\<not> accept s c \<and> mark s c = None"
  using accept_iff [OF assms(1,2)] mark_new [OF assms(1,2)] assms(3) by (cases "mark s c") auto

end

definition session_accepts :: "session \<Rightarrow> u64 \<Rightarrow> bool" where
  "session_accepts s c \<longleftrightarrow> receiving_counter_quick_check s c = Inr ()"

definition session_mark :: "session \<Rightarrow> u64 \<Rightarrow> session option" where
  "session_mark s c = (case receiving_counter_mark s c of Some (s', Inr _) \<Rightarrow> Some s' | _ \<Rightarrow> None)"

definition session_seen :: "session \<Rightarrow> nat set \<Rightarrow> bool" where
  "session_seen s A \<longleftrightarrow> (\<exists>n. replay_rel (receiving_key_counter s) (A, n))"

lemma replay_rel_receive_cnt [simp]: "replay_rel (v\<lparr>receive_cnt := k\<rparr>) st = replay_rel v st"
  by (simp add: replay_rel_def validator_wf_def bits_def split: prod.split)

lemma session_mark_cases:
  assumes "replay_rel (receiving_key_counter s) (A, n)" and "counter_ok c"
  shows "case spec_mark (A, n) (unat c) of
      None \<Rightarrow> receiving_counter_mark s c = Some (s, Inl InvalidCounter)
    | Some st' \<Rightarrow> \<exists>v'. receiving_counter_mark s c = Some (s\<lparr>receiving_key_counter := v'\<rparr>, Inr ()) \<and> replay_rel v' st'"
  using mark_did_receive_refines [OF assms]
  by (fastforce simp: receiving_counter_mark_def split: option.splits)

interpretation session_filter: replay_filter session_accepts session_mark session_seen
proof
  fix s A c s'
  assume "session_seen s A" "counter_ok c" "session_mark s c = Some s'"
  then show "unat c \<notin> A \<and> session_seen s' (insert (unat c) A)"
    using session_mark_cases [of s A _ c]
    by (fastforce simp: session_seen_def session_mark_def spec_mark_def split: option.splits if_splits)
next
  fix s A c
  assume a: "session_seen s A" "counter_ok c"
  then obtain n where n: "replay_rel (receiving_key_counter s) (A, n)" by (auto simp: session_seen_def)
  show "session_accepts s c \<longleftrightarrow> session_mark s c \<noteq> None"
    using session_mark_cases [OF n a(2)] will_accept_spec [OF n a(2)]
    by (auto simp: session_accepts_def receiving_counter_quick_check_def session_mark_def split: option.splits)
qed

lemma session_seen_new: "session_seen (session_new i j k l) {}"
  using replay_rel_init by (auto simp: session_seen_def session_new_def)

section \<open>Concurrent receivers\<close>

text \<open>
  A session is shared: \<open>receive_packet_data\<close> checks the counter under the mutex, decrypts without
  it, and marks the counter under the mutex again, so other receivers (and senders) may run
  between the check and the mark. A step of the pool is one such critical section of one thread;
  the log lists the counters of the delivered packets.
\<close>

datatype receiver_phase = Idle | Decrypted packet_data bytes

record recv_pool =
  pool_session :: session
  pool_phase :: "nat \<Rightarrow> receiver_phase"
  pool_log :: "u64 list"

inductive recv_step :: "crypto \<Rightarrow> recv_pool \<Rightarrow> recv_pool \<Rightarrow> bool" for c where
  check: "pool_phase p i = Idle \<Longrightarrow> pd_receiver_idx pkt = receiving_index (pool_session p) \<Longrightarrow>
    receiving_counter_quick_check (pool_session p) (pd_counter pkt) = Inr () \<Longrightarrow>
    chacha_open c (receiver (pool_session p)) (counter_nonce (pd_counter pkt)) []
      (pd_encrypted_encapsulated_packet pkt) = Some ret \<Longrightarrow>
    recv_step c p (p\<lparr>pool_phase := (pool_phase p)(i := Decrypted pkt ret)\<rparr>)"
| deliver: "pool_phase p i = Decrypted pkt ret \<Longrightarrow>
    receiving_counter_mark (pool_session p) (pd_counter pkt) = Some (s', Inr ()) \<Longrightarrow>
    recv_step c p (p\<lparr>pool_session := s', pool_phase := (pool_phase p)(i := Idle),
      pool_log := pool_log p @ [pd_counter pkt]\<rparr>)"
| refuse: "pool_phase p i = Decrypted pkt ret \<Longrightarrow>
    receiving_counter_mark (pool_session p) (pd_counter pkt) = Some (s', Inl e) \<Longrightarrow>
    recv_step c p (p\<lparr>pool_session := s', pool_phase := (pool_phase p)(i := Idle)\<rparr>)"
| send: "format_packet_data c (pool_session p) src dst = Some (s', out) \<Longrightarrow>
    recv_step c p (p\<lparr>pool_session := s'\<rparr>)"

definition pool_start :: "session \<Rightarrow> recv_pool" where
  "pool_start s = \<lparr> pool_session = s, pool_phase = (\<lambda>_. Idle), pool_log = [] \<rparr>"

inductive recv_reach :: "crypto \<Rightarrow> session \<Rightarrow> recv_pool \<Rightarrow> bool" for c s0 where
  start: "recv_reach c s0 (pool_start s0)"
| step: "recv_reach c s0 p \<Longrightarrow> recv_step c p q \<Longrightarrow> recv_reach c s0 q"

lemma format_packet_data_validator:
  "format_packet_data c s src dst = Some (s', out) \<Longrightarrow> receiving_key_counter s' = receiving_key_counter s"
  by (auto simp: format_packet_data_def Let_def split: if_splits prod.splits)

lemma receiving_counter_mark_err:
  assumes "receiving_counter_mark s c = Some (s', Inl e)"
  shows "s' = s"
  using assms
  by (auto simp: receiving_counter_mark_def mark_did_receive_def Let_def split: if_splits Option.bind_splits sum.splits)

lemma recv_reach_seen:
  assumes "recv_reach c (session_new i j k l) p" and "\<forall>x\<in>set (pool_log p). counter_ok x"
  shows "distinct (pool_log p) \<and> session_seen (pool_session p) (unat ` set (pool_log p))"
  using assms
proof (induction rule: recv_reach.induct)
  case start
  show ?case by (simp add: pool_start_def session_seen_new)
next
  case (step p q)
  from step.hyps(2) show ?case
  proof cases
    case (check i pkt ret)
    with step show ?thesis by simp
  next
    case (deliver i pkt ret s')
    let ?x = "pd_counter pkt"
    have ih: "distinct (pool_log p)" "session_seen (pool_session p) (unat ` set (pool_log p))"
      and ok: "counter_ok ?x" using step.IH step.prems deliver(1) by auto
    have "session_mark (pool_session p) ?x = Some s'" using deliver(3) by (simp add: session_mark_def)
    with session_filter.mark_new [OF ih(2) ok] have
      "unat ?x \<notin> unat ` set (pool_log p)" "session_seen s' (insert (unat ?x) (unat ` set (pool_log p)))" by auto
    with ih(1) deliver(1) show ?thesis by auto
  next
    case (refuse i pkt ret s' e)
    with step show ?thesis by (auto dest: receiving_counter_mark_err)
  next
    case (send src dst s' out)
    with step format_packet_data_validator [OF send(2)] show ?thesis by (auto simp: session_seen_def)
  qed
qed

section \<open>Properties\<close>

fun mark_all :: "validator \<Rightarrow> u64 list \<Rightarrow> bool list option" where
  "mark_all v [] = Some []"
| "mark_all v (c # cs) = do {
     (v', r) \<leftarrow> mark_did_receive v c;
     rs \<leftarrow> mark_all v' cs;
     Some ((r = Inr ()) # rs)
   }"

fun spec_mark_all :: "nat set \<times> nat \<Rightarrow> nat list \<Rightarrow> bool list" where
  "spec_mark_all st [] = []"
| "spec_mark_all st (c # cs) = (case spec_mark st c of
     None \<Rightarrow> False # spec_mark_all st cs
   | Some st' \<Rightarrow> True # spec_mark_all st' cs)"

lemma mark_all_refines:
  "replay_rel v st \<Longrightarrow> \<forall>c\<in>set cs. counter_ok c \<Longrightarrow> mark_all v cs = Some (spec_mark_all st (map unat cs))"
proof (induction cs arbitrary: v st)
  case Nil
  then show ?case by simp
next
  case (Cons c cs)
  obtain S n where st: "st = (S, n)" by (cases st)
  show ?case
  proof (cases "spec_mark st (unat c)")
    case None
    then have "mark_did_receive v c = Some (v, Inl InvalidCounter)"
      using mark_did_receive_refines [of v S n c] Cons.prems st by auto
    with None Cons show ?thesis by simp
  next
    case (Some st')
    then obtain v' where "mark_did_receive v c = Some (v', Inr ())" "replay_rel v' st'"
      using mark_did_receive_refines [of v S n c] Cons.prems st by auto
    with Some Cons show ?thesis by simp
  qed
qed

text \<open>C4: on every sequence of counters below \<open>2^64 - 1024\<close>, the bitmap filter \<open>mark_did_receive\<close>
  started on a fresh session returns (its loops terminate) and accepts exactly the counters that
  the specification accepts: those not received before and at most 1024 below the bound above
  the highest one received.\<close>
theorem replay_filter_refines_spec:
  assumes "\<forall>c\<in>set cs. counter_ok c"
  shows "mark_all validator_default cs = Some (spec_mark_all ({}, 0) (map unat cs))"
  using mark_all_refines [OF replay_rel_init assms] .

theorem replay_filter_refines_spec_witness:
  "mark_all validator_default [0, 5, 5, 1100, 76, 77, 77] =
    Some [True, True, False, True, False, True, False]"
proof -
  have "\<forall>c\<in>set [0, 5, 5, 1100, 76, 77, 77 :: u64]. counter_ok c" by (simp add: counter_ok_def)
  from replay_filter_refines_spec [OF this] show ?thesis by (simp add: spec_mark_def del: mark_all.simps)
qed

text \<open>A session never accepts the same counter twice, however the packets are repeated,
  reordered or dropped: the counters it accepts from any sequence are pairwise distinct.\<close>
lemma session_no_replay:
  assumes "\<forall>c\<in>set cs. counter_ok c"
    and "run_filter session_mark (session_new idx peer rkey skey) cs = (s, accepted)"
  shows "distinct accepted \<and> set accepted \<subseteq> set cs"
  using session_filter.run_distinct [OF session_seen_new assms] by blast



text \<open>The loops of \<open>mark_did_receive\<close> always terminate, for every filter state and every 64 bit
  counter, and keep the bitmap's length.\<close>
lemma mark_did_receive_returns:
  assumes "validator_wf v"
  shows "\<exists>v' r. mark_did_receive v counter = Some (v', r) \<and> validator_wf v'"
  using mark_did_receive_wf [OF assms] by blast

text \<open>C37: in every state a session can reach by accepting counters, the quick check made before
  decryption and the update made after it take the same decision.\<close>
theorem quick_check_agrees_with_mark:
  assumes "session_seen s A" and "counter_ok counter"
  shows "receiving_counter_quick_check s counter = Inr () \<longleftrightarrow>
    (\<exists>s'. receiving_counter_mark s counter = Some (s', Inr ()))"
  using session_filter.accept_iff [OF assms]
  by (auto simp: session_accepts_def session_mark_def split: option.splits prod.splits sum.splits)

theorem quick_check_agrees_with_mark_witness:
  "session_seen (session_new 1 2 [] []) {} \<and> counter_ok 7 \<and>
   (\<exists>s'. receiving_counter_mark (session_new 1 2 [] []) 7 = Some (s', Inr ()))"
proof -
  have ok: "counter_ok 7" by (simp add: counter_ok_def)
  have "receiving_counter_quick_check (session_new 1 2 [] []) 7 = Inr ()"
    by (simp add: receiving_counter_quick_check_def will_accept_def session_new_def validator_default_def)
  with quick_check_agrees_with_mark [OF session_seen_new ok, of 1 2 "[]" "[]"] ok session_seen_new
  show ?thesis by blast
qed

lemma spec_mark_all_window:
  assumes "distinct cs" and "set cs \<inter> S = {}" and "n \<le> m + 1024" and "\<forall>c\<in>set cs. m \<le> c \<and> c < m + 1024"
  shows "spec_mark_all (S, n) cs = map (\<lambda>_. True) cs"
  using assms
proof (induction cs arbitrary: S n)
  case Nil
  then show ?case by simp
next
  case (Cons c cs)
  from Cons.prems have c: "\<not> c + 1024 < n" "c \<notin> S" by auto
  have "spec_mark_all (insert c S, max n (c + 1)) cs = map (\<lambda>_. True) cs"
    by (rule Cons.IH) (use Cons.prems in auto)
  with c show ?case by (simp add: spec_mark_def)
qed

text \<open>Packets whose counters lie in a window of 1024 may arrive in any order: a fresh session
  accepts every one of them.\<close>
lemma reordering_within_window_accepted:
  assumes "distinct cs" and "\<forall>c\<in>set cs. m \<le> unat c \<and> unat c < m + 1024 \<and> counter_ok c"
  shows "mark_all validator_default cs = Some (map (\<lambda>_. True) cs)"
proof -
  have "distinct (map unat cs)" using assms(1) by (simp add: distinct_map word_unat_eq_iff inj_on_def)
  then have "spec_mark_all ({}, 0) (map unat cs) = map (\<lambda>_. True) (map unat cs)"
    by (intro spec_mark_all_window [where m = m]) (use assms(2) in auto)
  with mark_all_refines [OF replay_rel_init, of cs] assms(2) show ?thesis by (simp add: comp_def)
qed


subsection \<open>Data packets\<close>

text \<open>The packet \<open>format_packet_data\<close> writes, as the parser sees it.\<close>

definition data_packet_of :: "crypto \<Rightarrow> session \<Rightarrow> bytes \<Rightarrow> packet_data" where
  "data_packet_of c s src = \<lparr> pd_receiver_idx = sending_index s, pd_counter = sending_key_counter s,
     pd_encrypted_encapsulated_packet =
       (let (ct, tag) = chacha_seal c (sender s) (counter_nonce (sending_key_counter s)) [] src in ct @ tag) \<rparr>"

lemma format_packet_data_Some:
  assumes "length src + DATA_OVERHEAD_SZ \<le> length dst"
  shows "format_packet_data c s src dst =
    Some (s\<lparr>sending_key_counter := sending_key_counter s + 1\<rparr>, wire_body (PacketData (data_packet_of c s src)))"
  using assms by (simp add: format_packet_data_def data_packet_of_def Let_def split: prod.split)

lemma format_packet_data_None:
  "format_packet_data c s src dst = None \<longleftrightarrow> length dst < length src + DATA_OVERHEAD_SZ"
  by (simp add: format_packet_data_def Let_def split: prod.split)

lemma data_packet_of_wf:
  assumes "crypto_ok c"
  shows "packet_wf (PacketData (data_packet_of c s src))"
    and "length (pd_encrypted_encapsulated_packet (data_packet_of c s src)) = length src + 16"
  using crypto_ok_seal_len [OF assms] by (simp_all add: data_packet_of_def case_prod_beta)

lemma data_packet_of_length:
  "crypto_ok c \<Longrightarrow> length (wire_body (PacketData (data_packet_of c s src))) = length src + DATA_OVERHEAD_SZ"
  using data_packet_of_wf(2) by (simp add: DATA_OVERHEAD_SZ_def)

lemma data_packet_of_parse:
  "crypto_ok c \<Longrightarrow> parse_incoming_packet pq (wire_body (PacketData (data_packet_of c s src)))
     = Inr (PacketData (data_packet_of c s src))"
  using parse_wire_body [of "PacketData (data_packet_of c s src)" pq "[]"] data_packet_of_wf by simp

lemma receive_data_packet_of:
  assumes "crypto_ok c" and "sender sa = receiver sb" and "sending_index sa = receiving_index sb"
    and "replay_rel (receiving_key_counter sb) (A, n)" and "counter_ok (sending_key_counter sa)"
    and "length src + 16 \<le> length dst"
  shows "case spec_mark (A, n) (unat (sending_key_counter sa)) of
      None \<Rightarrow> \<exists>e. receive_packet_data c sb (data_packet_of c sa src) dst = Some (sb, Inl e)
    | Some st' \<Rightarrow> \<exists>v'. receive_packet_data c sb (data_packet_of c sa src) dst =
        Some (sb\<lparr>receiving_key_counter := v'\<rparr>, Inr src) \<and> replay_rel v' st'"
proof -
  let ?p = "data_packet_of c sa src"
  have open_ok: "chacha_open c (receiver sb) (counter_nonce (pd_counter ?p)) []
      (pd_encrypted_encapsulated_packet ?p) = Some src"
    using crypto_ok_open_seal [OF assms(1)] assms(2) by (simp add: data_packet_of_def case_prod_beta)
  have idx: "pd_receiver_idx ?p = receiving_index sb" "pd_counter ?p = sending_key_counter sa"
    using assms(3) by (simp_all add: data_packet_of_def)
  have buf: "\<not> length dst < length (pd_encrypted_encapsulated_packet ?p)"
    using data_packet_of_wf(2) [OF assms(1)] assms(6) by simp
  show ?thesis
  proof (cases "spec_mark (A, n) (unat (sending_key_counter sa))")
    case None
    then have "receiving_counter_quick_check sb (sending_key_counter sa) \<noteq> Inr ()"
      using will_accept_spec [OF assms(4,5)] by (simp add: receiving_counter_quick_check_def)
    then obtain e where "receiving_counter_quick_check sb (sending_key_counter sa) = Inl e"
      by (cases "receiving_counter_quick_check sb (sending_key_counter sa)") auto
    with None idx buf show ?thesis by (simp add: receive_packet_data_def Let_def)
  next
    case (Some st')
    then have "receiving_counter_quick_check sb (sending_key_counter sa) = Inr ()"
      using will_accept_spec [OF assms(4,5)] by (simp add: receiving_counter_quick_check_def)
    moreover obtain v' where "receiving_counter_mark sb (sending_key_counter sa) =
        Some (sb\<lparr>receiving_key_counter := v'\<rparr>, Inr ())" "replay_rel v' st'"
      using session_mark_cases [OF assms(4,5)] Some by auto
    ultimately show ?thesis using Some idx buf open_ok by (auto simp: receive_packet_data_def Let_def)
  qed
qed

text \<open>Sending a list of payloads, and receiving a list of datagrams, with buffers of the size the
  documentation asks for.\<close>

fun send_all :: "crypto \<Rightarrow> session \<Rightarrow> bytes list \<Rightarrow> (bytes list) option" where
  "send_all c s [] = Some []"
| "send_all c s (src # srcs) = do {
     (s', pkt) \<leftarrow> format_packet_data c s src (replicate (length src + DATA_OVERHEAD_SZ) 0);
     pkts \<leftarrow> send_all c s' srcs;
     Some (pkt # pkts)
   }"

fun receive_all :: "crypto \<Rightarrow> session \<Rightarrow> bytes list \<Rightarrow> (bytes option list) option" where
  "receive_all c s [] = Some []"
| "receive_all c s (d # ds) = (case parse_incoming_packet False d of
     Inr (PacketData p) \<Rightarrow> do {
       (s', r) \<leftarrow> receive_packet_data c s p (replicate (length d) 0);
       rs \<leftarrow> receive_all c s' ds;
       Some ((case r of Inr x \<Rightarrow> Some x | Inl _ \<Rightarrow> None) # rs)
     }
   | _ \<Rightarrow> map_option (Cons None) (receive_all c s ds))"

text \<open>Exactly-once delivery: payload \<open>k\<close> at the first occurrence of \<open>k\<close>, nothing at later ones.\<close>

fun first_only :: "bytes list \<Rightarrow> nat set \<Rightarrow> nat list \<Rightarrow> bytes option list" where
  "first_only srcs A [] = []"
| "first_only srcs A (k # ks) = (if k \<in> A then None else Some (srcs ! k)) # first_only srcs (insert k A) ks"

lemma send_all_eq:
  "send_all c s srcs = Some (map (\<lambda>k. wire_body (PacketData
     (data_packet_of c (s\<lparr>sending_key_counter := sending_key_counter s + of_nat k\<rparr>) (srcs ! k)))) [0..<length srcs])"
proof (induction srcs arbitrary: s)
  case Nil
  then show ?case by simp
next
  case (Cons src srcs)
  show ?case
    by (simp add: format_packet_data_Some Cons.IH map_upt_Suc add.assoc del: upt_Suc wire_body.simps)
qed

text \<open>No datagram is more than 1024 behind the newest one that arrived before it.\<close>

fun window_ok :: "nat \<Rightarrow> nat list \<Rightarrow> bool" where
  "window_ok n [] \<longleftrightarrow> True"
| "window_ok n (k # ks) \<longleftrightarrow> n \<le> k + 1024 \<and> window_ok (max n (k + 1)) ks"

lemma receive_all_spec:
  assumes "crypto_ok c" and "sender sa = receiver sb" and "sending_index sa = receiving_index sb"
    and "sending_key_counter sa = 0"
    and "replay_rel (receiving_key_counter sb) (A, n)" and "window_ok n ks"
    and "\<forall>k\<in>set ks. k < length srcs" and "length srcs + 1024 < 2 ^ 64"
  shows "receive_all c sb (map (\<lambda>k. wire_body (PacketData
      (data_packet_of c (sa\<lparr>sending_key_counter := of_nat k\<rparr>) (srcs ! k)))) ks) = Some (first_only srcs A ks)"
  using assms
proof (induction ks arbitrary: sb A n)
  case Nil
  then show ?case by simp
next
  case (Cons k ks)
  let ?sa = "sa\<lparr>sending_key_counter := of_nat k\<rparr>"
  let ?d = "wire_body (PacketData (data_packet_of c ?sa (srcs ! k)))"
  have k: "k + 1024 < 2 ^ 64" using Cons.prems(7,8) by auto
  then have u: "unat (of_nat k :: u64) = k" by (simp add: unat_of_nat)
  with k have ok: "counter_ok (sending_key_counter ?sa)" by (simp add: counter_ok_def)
  have parse: "parse_incoming_packet False ?d = Inr (PacketData (data_packet_of c ?sa (srcs ! k)))"
    using Cons.prems(1) by (rule data_packet_of_parse)
  have len: "length (srcs ! k) + 16 \<le> length (replicate (length ?d) (0 :: byte))"
    using data_packet_of_length [OF Cons.prems(1)] by (simp del: wire_body.simps add: DATA_OVERHEAD_SZ_def)
  have sa: "sender ?sa = receiver sb" "sending_index ?sa = receiving_index sb" using Cons.prems(2,3) by simp_all
  note rcv = receive_data_packet_of [OF Cons.prems(1) sa Cons.prems(5) ok len]
  show ?case
  proof (cases "k \<in> A")
    case True
    then have "k < n" using Cons.prems(5) by (auto simp: replay_rel_def)
    then have w: "window_ok n ks" using Cons.prems(6) by (simp add: max_absorb1)
    have "spec_mark (A, n) k = None" using True by (simp add: spec_mark_def)
    with rcv u obtain e where
      "receive_packet_data c sb (data_packet_of c ?sa (srcs ! k)) (replicate (length ?d) 0) = Some (sb, Inl e)" by auto
    moreover have "receive_all c sb (map (\<lambda>k. wire_body (PacketData
      (data_packet_of c (sa\<lparr>sending_key_counter := of_nat k\<rparr>) (srcs ! k)))) ks) = Some (first_only srcs A ks)"
      by (rule Cons.IH [OF Cons.prems(1-5) w]) (use Cons.prems in auto)
    ultimately show ?thesis using parse True by (simp add: insert_absorb del: wire_body.simps)
  next
    case False
    then have "spec_mark (A, n) k = Some (insert k A, max n (k + 1))"
      using Cons.prems(6) by (simp add: spec_mark_def)
    with rcv u obtain v' where
      "receive_packet_data c sb (data_packet_of c ?sa (srcs ! k)) (replicate (length ?d) 0) =
         Some (sb\<lparr>receiving_key_counter := v'\<rparr>, Inr (srcs ! k))"
      "replay_rel v' (insert k A, max n (k + 1))" by auto
    moreover from this(2) have "receive_all c (sb\<lparr>receiving_key_counter := v'\<rparr>) (map (\<lambda>k. wire_body (PacketData
      (data_packet_of c (sa\<lparr>sending_key_counter := of_nat k\<rparr>) (srcs ! k)))) ks) = Some (first_only srcs (insert k A) ks)"
      using Cons.prems by (intro Cons.IH [where n = "max n (k + 1)"]) auto
    ultimately show ?thesis using parse False by (simp del: wire_body.simps)
  qed
qed

text \<open>C7: exactly-once delivery. Let one end of a session send a list of payloads and let the
  network deliver the datagrams in any order, any number of times, losing any of them, but none
  later than 1024 behind the newest that arrived. Then the other end returns each payload that
  arrives, unchanged, at its first arrival and rejects every later copy.\<close>
theorem data_stream_exactly_once:
  assumes "crypto_ok c" and "length srcs + 1024 < 2 ^ 64"
    and "\<forall>k\<in>set ks. k < length srcs" and "window_ok 0 ks"
  shows "\<exists>pkts. send_all c (session_new i j ki kj) srcs = Some pkts \<and>
    receive_all c (session_new j i kj ki) (map (\<lambda>k. pkts ! k) ks) = Some (first_only srcs {} ks)"
proof -
  let ?sa = "session_new i j ki kj" and ?sb = "session_new j i kj ki"
  have zero: "sending_key_counter ?sa = 0" by (simp add: session_new_def)
  let ?pkts = "map (\<lambda>k. wire_body (PacketData
      (data_packet_of c (?sa\<lparr>sending_key_counter := of_nat k\<rparr>) (srcs ! k)))) [0..<length srcs]"
  have send: "send_all c ?sa srcs = Some ?pkts" by (simp only: send_all_eq zero add_0)
  have sel: "map (\<lambda>k. ?pkts ! k) ks = map (\<lambda>k. wire_body (PacketData
      (data_packet_of c (?sa\<lparr>sending_key_counter := of_nat k\<rparr>) (srcs ! k)))) ks"
    by (rule map_cong [OF refl]) (use assms(3) in \<open>simp only: nth_map_upt minus_nat.diff_0 add_0\<close>)
  have rel: "replay_rel (receiving_key_counter ?sb) ({}, 0)"
    and ends: "sender ?sa = receiver ?sb" "sending_index ?sa = receiving_index ?sb"
    using replay_rel_init by (simp_all add: session_new_def)
  have "receive_all c ?sb (map (\<lambda>k. ?pkts ! k) ks) = Some (first_only srcs {} ks)"
    unfolding sel by (rule receive_all_spec [OF assms(1) ends zero rel assms(4,3,2)])
  with send show ?thesis by blast
qed

theorem data_stream_exactly_once_witness:
  "\<exists>pkts. send_all plain_crypto (session_new 1 2 [] []) [[1], [2, 3], []] = Some pkts \<and>
    receive_all plain_crypto (session_new 2 1 [] []) (map (\<lambda>k. pkts ! k) [2, 0, 2, 1, 0]) =
      Some [Some [], Some [1], None, Some [2, 3], None]"
  using data_stream_exactly_once [OF plain_crypto_ok, of "[[1], [2, 3], []]" "[2, 0, 2, 1, 0]" 1 2 "[]" "[]"]
  by (simp del: send_all.simps receive_all.simps)

lemma mark_did_receive_error:
  "mark_did_receive v x = Some (v', Inl e) \<Longrightarrow> e \<in> {InvalidCounter, DuplicateCounter}"
  by (auto simp: mark_did_receive_def Let_def split: if_splits Option.bind_splits)

lemma will_accept_error: "will_accept v x = Inl e \<Longrightarrow> e \<in> {InvalidCounter, DuplicateCounter}"
  by (auto simp: will_accept_def split: if_splits)

lemma receiving_counter_mark_Some:
  assumes "receiving_counter_mark s x = Some (s', r)" and "validator_wf (receiving_key_counter s)"
  shows "case r of Inl e \<Rightarrow> s' = s \<and> e \<in> {InvalidCounter, DuplicateCounter}
    | Inr _ \<Rightarrow> s' = s\<lparr>receiving_key_counter := receiving_key_counter s'\<rparr> \<and>
        receive_cnt (receiving_key_counter s') = receive_cnt (receiving_key_counter s) + 1"
proof (cases r)
  case (Inl e)
  then show ?thesis using assms(1) receiving_counter_mark_err [of s x s' e]
    by (auto simp: receiving_counter_mark_def Let_def dest!: mark_did_receive_error
        split: Option.bind_splits sum.splits)
next
  case (Inr u)
  from mark_did_receive_wf [OF assms(2), of x] obtain v r0 where
    "mark_did_receive (receiving_key_counter s) x = Some (v, r0)" "receive_cnt v = receive_cnt (receiving_key_counter s)"
    by blast
  with Inr assms(1) show ?thesis by (auto simp: receiving_counter_mark_def Let_def split: sum.splits)
qed

text \<open>C34: a received data packet that is rejected, for whatever reason, leaves the session as it
  was: a forged or damaged packet cannot move the replay window. A packet that is accepted has
  the session's index and a ciphertext that is authentic under the receiving key and the packet's
  counter, and changes nothing but the replay filter, whose count of packets goes up by one.\<close>
theorem receive_packet_data_effect:
  assumes "receive_packet_data c s packet dst = Some (s', r)" and "validator_wf (receiving_key_counter s)"
  shows "case r of Inl e \<Rightarrow> s' = s \<and> e \<in> {WrongIndex, InvalidCounter, DuplicateCounter, InvalidAeadTag}
    | Inr ret \<Rightarrow> pd_receiver_idx packet = receiving_index s \<and>
        chacha_open c (receiver s) (counter_nonce (pd_counter packet)) []
          (pd_encrypted_encapsulated_packet packet) = Some ret \<and>
        s' = s\<lparr>receiving_key_counter := receiving_key_counter s'\<rparr> \<and>
        receive_cnt (receiving_key_counter s') = receive_cnt (receiving_key_counter s) + 1"
proof (cases "receiving_counter_quick_check s (pd_counter packet)")
  case (Inl e)
  then show ?thesis using assms(1) will_accept_error [of "receiving_key_counter s" "pd_counter packet" e]
    by (auto simp: receive_packet_data_def Let_def receiving_counter_quick_check_def split: if_splits)
next
  case (Inr u)
  show ?thesis
  proof (cases "pd_receiver_idx packet = receiving_index s \<and>
      chacha_open c (receiver s) (counter_nonce (pd_counter packet)) [] (pd_encrypted_encapsulated_packet packet) \<noteq> None")
    case True
    with Inr assms(1) obtain r0 ret where
      "receiving_counter_mark s (pd_counter packet) = Some (s', r0)" "r = bind_result r0 (\<lambda>_. Inr ret)"
      "chacha_open c (receiver s) (counter_nonce (pd_counter packet)) [] (pd_encrypted_encapsulated_packet packet) = Some ret"
      by (auto simp: receive_packet_data_def Let_def split: if_splits Option.bind_splits)
    with receiving_counter_mark_Some [OF this(1) assms(2)] True show ?thesis by (cases r0) auto
  next
    case False
    with Inr assms(1) show ?thesis by (auto simp: receive_packet_data_def Let_def split: if_splits option.splits)
  qed
qed

theorem receive_packet_data_effect_witness:
  "\<exists>s'. receive_packet_data plain_crypto (session_new 1 2 [] [])
      \<lparr> pd_receiver_idx = 1, pd_counter = 3, pd_encrypted_encapsulated_packet = [1, 2, 3] \<rparr> [0, 0, 0, 0] =
      Some (s', Inl InvalidAeadTag) \<and> s' = session_new 1 2 [] []"
proof -
  let ?p = "\<lparr> pd_receiver_idx = 1, pd_counter = 3, pd_encrypted_encapsulated_packet = [1, 2, 3] \<rparr>"
  have r: "receive_packet_data plain_crypto (session_new 1 2 [] []) ?p [0, 0, 0, 0] =
      Some (session_new 1 2 [] [], Inl InvalidAeadTag)"
    by (simp add: receive_packet_data_def session_new_def receiving_counter_quick_check_def will_accept_def
        validator_default_def plain_crypto_def plain_open_def)
  have "validator_wf (receiving_key_counter (session_new 1 2 [] []))"
    by (simp add: session_new_def validator_wf_def validator_default_def)
  from receive_packet_data_effect [OF r this] r show ?thesis by simp
qed

text \<open>C36: a session uses each nonce once. The first \<open>2^64\<close> datagrams a session writes parse as data
  packets whose nonces are pairwise different, and each is the sealing of its payload under the
  sending key and its own nonce. No hypothesis is made on the payloads.\<close>
theorem nonces_distinct:
  assumes "crypto_ok c" and "send_all c (session_new i j ki kj) srcs = Some pkts" and "length srcs \<le> 2 ^ 64"
  shows "\<exists>ps. map (parse_incoming_packet pq) pkts = map (\<lambda>p. Inr (PacketData p)) ps \<and>
    distinct (map (\<lambda>p. counter_nonce (pd_counter p)) ps) \<and>
    list_all2 (\<lambda>p src. pd_encrypted_encapsulated_packet p =
      (let (ct, tag) = chacha_seal c kj (counter_nonce (pd_counter p)) [] src in ct @ tag)) ps srcs"
proof -
  let ?sa = "session_new i j ki kj"
  let ?p = "\<lambda>k. data_packet_of c (?sa\<lparr>sending_key_counter := of_nat k\<rparr>) (srcs ! k)"
  let ?ps = "map ?p [0..<length srcs]"
  have zero: "sending_key_counter ?sa = 0" by (simp add: session_new_def)
  have pkts: "pkts = map (\<lambda>k. wire_body (PacketData (?p k))) [0..<length srcs]"
    using assms(2) by (simp only: send_all_eq zero add_0 option.inject)
  have "map (parse_incoming_packet pq) pkts = map (\<lambda>p. Inr (PacketData p)) ?ps"
    by (simp only: pkts map_map comp_def data_packet_of_parse [OF assms(1)])
  moreover have "distinct (map (\<lambda>p. counter_nonce (pd_counter p)) ?ps)"
  proof -
    have "inj_on (\<lambda>k. of_nat k :: u64) {0..<length srcs}"
      using assms(3) by (intro inj_onI) (simp add: of_nat_inverse word_unat_eq_iff unat_of_nat)
    moreover have "le_bytes 8 v = le_bytes 8 w \<longleftrightarrow> v = w" for v w :: u64
      using le_bytes_inject [of 8 v w] by auto
    ultimately show ?thesis
      by (simp add: distinct_map data_packet_of_def counter_nonce_def comp_def inj_on_def)
  qed
  moreover have "list_all2 (\<lambda>p src. pd_encrypted_encapsulated_packet p =
      (let (ct, tag) = chacha_seal c kj (counter_nonce (pd_counter p)) [] src in ct @ tag)) ?ps srcs"
    by (simp add: list_all2_conv_all_nth data_packet_of_def session_new_def)
  ultimately show ?thesis by blast
qed

theorem nonces_distinct_witness:
  "\<exists>pkts ps. send_all plain_crypto (session_new 1 2 [] []) [[7], [7]] = Some pkts \<and>
    map (parse_incoming_packet True) pkts = map (\<lambda>p. Inr (PacketData p)) ps \<and>
    distinct (map (\<lambda>p. counter_nonce (pd_counter p)) ps)"
proof -
  let ?srcs = "[[7], [7]] :: bytes list"
  obtain pkts where s: "send_all plain_crypto (session_new 1 2 [] []) ?srcs = Some pkts" using send_all_eq by blast
  from nonces_distinct [OF plain_crypto_ok s, of True] s show ?thesis by auto
qed

end
