(* ===== verification/Clock.thy ===== *)
theory Clock
  imports Prelude
begin

text \<open>
  \<^verbatim>\<open>sleepyinstant/mod.rs\<close> and \<^verbatim>\<open>sleepyinstant/unix.rs\<close>: instants of a clock that also runs while
  the machine sleeps, and their differences. An instant is the \<open>timespec\<close> the operating
  system returned; a \<open>Duration\<close> is its number of nanoseconds. Every reading of the clock
  (\<open>Instant::now()\<close>) is an argument of the function that makes it, so that the theorems hold
  for every sequence of readings; where a theorem needs the clock to be monotonic, that is a
  hypothesis.

  The lemmas show that the field-wise subtraction with borrow computes the difference of the
  two readings in nanoseconds, cut off at zero.
\<close>

record instant =
  tv_sec :: int
  tv_nsec :: int

type_synonym duration = nat

definition NANOSECOND :: int where "NANOSECOND = 1000000000"

definition duration_new :: "int \<Rightarrow> int \<Rightarrow> duration" where
  "duration_new secs nanos = nat secs * 1000000000 + nat (nanos mod 2 ^ 32)"

definition from_secs :: "nat \<Rightarrow> duration" where
  "from_secs s = s * 1000000000"

definition as_secs :: "duration \<Rightarrow> nat" where
  "as_secs d = d div 1000000000"

definition subsec_nanos :: "duration \<Rightarrow> nat" where
  "subsec_nanos d = d mod 1000000000"

definition as_millis :: "duration \<Rightarrow> nat" where
  "as_millis d = d div 1000000"

text \<open>Subtraction of durations panics when the result would be negative.\<close>

definition duration_sub :: "duration \<Rightarrow> duration \<Rightarrow> duration option" where
  "duration_sub a b = (if b \<le> a then Some (a - b) else None)"

text \<open>Addition of durations panics when the seconds exceed 64 bits.\<close>

definition duration_add :: "duration \<Rightarrow> duration \<Rightarrow> duration option" where
  "duration_add a b = (if (a + b) div 1000000000 < 2 ^ 64 then Some (a + b) else None)"

definition checked_duration_since :: "instant \<Rightarrow> instant \<Rightarrow> duration option" where
  "checked_duration_since self earlier =
    (let (sec, nsec) =
       (if tv_nsec self < tv_nsec earlier then
          (tv_sec self - tv_sec earlier - 1, tv_nsec self - tv_nsec earlier + NANOSECOND)
        else (tv_sec self - tv_sec earlier, tv_nsec self - tv_nsec earlier))
     in if sec < 0 then None else Some (duration_new sec nsec))"

definition duration_since :: "instant \<Rightarrow> instant \<Rightarrow> duration" where
  "duration_since self earlier =
    (case checked_duration_since self earlier of None \<Rightarrow> 0 | Some d \<Rightarrow> d)"

section \<open>Instants as nanosecond counts\<close>

definition instant_wf :: "instant \<Rightarrow> bool" where
  "instant_wf t \<longleftrightarrow> 0 \<le> tv_nsec t \<and> tv_nsec t < NANOSECOND"

definition to_ns :: "instant \<Rightarrow> int" where
  "to_ns t = tv_sec t * NANOSECOND + tv_nsec t"

lemma duration_since_to_ns:
  assumes "instant_wf a" and "instant_wf b"
  shows "duration_since a b = nat (to_ns a - to_ns b)"
proof (cases "tv_nsec a < tv_nsec b")
  case True
  then have r: "0 \<le> tv_nsec a - tv_nsec b + NANOSECOND" "tv_nsec a - tv_nsec b + NANOSECOND < NANOSECOND"
    using assms by (auto simp: instant_wf_def)
  show ?thesis
  proof (cases "tv_sec a - tv_sec b - 1 < 0")
    case neg: True
    then have "to_ns a - to_ns b \<le> 0" using True by (auto simp: to_ns_def NANOSECOND_def)
    with neg True show ?thesis
      by (auto simp: duration_since_def checked_duration_since_def)
  next
    case False
    with r True show ?thesis
      by (auto simp: duration_since_def checked_duration_since_def duration_new_def to_ns_def
          NANOSECOND_def nat_add_distrib [symmetric] nat_mult_distrib [symmetric])
  qed
next
  case False
  then have r: "0 \<le> tv_nsec a - tv_nsec b" "tv_nsec a - tv_nsec b < NANOSECOND"
    using assms by (auto simp: instant_wf_def)
  show ?thesis
  proof (cases "tv_sec a - tv_sec b < 0")
    case neg: True
    then have "to_ns a - to_ns b \<le> 0" using r by (auto simp: to_ns_def NANOSECOND_def)
    with neg False show ?thesis
      by (auto simp: duration_since_def checked_duration_since_def)
  next
    case nonneg: False
    with r False show ?thesis
      by (auto simp: duration_since_def checked_duration_since_def duration_new_def to_ns_def
          NANOSECOND_def nat_add_distrib [symmetric] nat_mult_distrib [symmetric])
  qed
qed

lemma duration_since_mono:
  assumes "instant_wf a" "instant_wf b" "instant_wf s" and "to_ns a \<le> to_ns b"
  shows "duration_since a s \<le> duration_since b s"
  using assms by (simp add: duration_since_to_ns)

end
