(* ===== verification/Handshake.thy ===== *)
theory Handshake
  imports Session Clock
begin

text \<open>
  \<^verbatim>\<open>noise/handshake.rs\<close>: the Noise IKpsk2 handshake of WireGuard and its hybrid variant with
  ML-KEM-768. One definition per function, in the order of the file; the assignments to
  \<open>chaining_key\<close>, \<open>hash\<close>, \<open>temp\<close> and \<open>key\<close> are the \<open>let\<close>s of the definitions.

  A method on \<open>&mut self\<close> returns the new \<open>handshake\<close> also when it returns an error; a panic is
  \<open>None\<close>. The random numbers a call draws and the clock readings it makes are the fields of the
  record \<open>env\<close>. A destination buffer is the list of its bytes, with whatever it held before.
\<close>

definition LABEL_MAC1 :: bytes where "LABEL_MAC1 = [109, 97, 99, 49, 45, 45, 45, 45]"
definition LABEL_COOKIE :: bytes where "LABEL_COOKIE = [99, 111, 111, 107, 105, 101, 45, 45]"
definition KEY_LEN :: nat where "KEY_LEN = 32"
definition TIMESTAMP_LEN :: nat where "TIMESTAMP_LEN = 12"

definition INITIAL_CHAIN_KEY :: bytes where
  "INITIAL_CHAIN_KEY =
    [96, 226, 109, 174, 243, 39, 239, 192, 46, 195, 53, 226, 160, 37, 210, 208, 22, 235, 66, 6, 248,
     114, 119, 245, 45, 56, 209, 152, 139, 120, 205, 54]"

definition INITIAL_CHAIN_HASH :: bytes where
  "INITIAL_CHAIN_HASH =
    [34, 17, 179, 97, 8, 26, 197, 102, 105, 18, 67, 219, 69, 138, 213, 50, 45, 156, 108, 102, 34,
     147, 232, 183, 14, 225, 156, 101, 186, 7, 158, 243]"

definition INITIAL_CHAIN_KEY_PQ :: bytes where
  "INITIAL_CHAIN_KEY_PQ =
    [92, 212, 118, 82, 10, 10, 246, 131, 71, 61, 77, 160, 151, 184, 203, 249, 86, 84, 163, 106, 11,
     2, 99, 179, 63, 208, 66, 103, 187, 164, 135, 172]"

definition INITIAL_CHAIN_HASH_PQ :: bytes where
  "INITIAL_CHAIN_HASH_PQ =
    [230, 124, 28, 213, 149, 146, 162, 100, 240, 251, 122, 175, 64, 160, 57, 141, 94, 165, 206, 197,
     218, 229, 9, 122, 57, 38, 118, 2, 81, 247, 29, 235]"

text \<open>What one call reads: the fresh x25519 secret, the randomness of the ML-KEM operation, the
  clock when the timestamp is taken, and the clock when \<open>time_sent\<close> or the round trip is taken.\<close>

record env =
  env_ephemeral :: bytes
  env_kem :: bytes
  env_stamp_now :: instant
  env_now :: instant

section \<open>Timestamps\<close>

record tai64n =
  ts_secs :: u64
  ts_nano :: u32

record time_stamper =
  duration_at_start :: duration
  instant_at_start :: instant

text \<open>\<open>TimeStamper::new\<close>: the system time as a duration since the epoch, \<open>None\<close> if it is before
  the epoch (the \<open>unwrap\<close> panics), and the instant.\<close>

definition time_stamper_new :: "duration option \<Rightarrow> instant \<Rightarrow> time_stamper option" where
  "time_stamper_new system_time now =
    map_option (\<lambda>d. \<lparr> duration_at_start = d, instant_at_start = now \<rparr>) system_time"

definition TAI64_BASE :: u64 where "TAI64_BASE = 2 ^ 62 + 37"

definition stamp :: "time_stamper \<Rightarrow> instant \<Rightarrow> bytes option" where
  "stamp self now = do {
     stamp \<leftarrow> duration_add (duration_since now (instant_at_start self)) (duration_at_start self);
     Some (be_bytes 8 (of_nat (as_secs stamp) + TAI64_BASE) @ be_bytes 4 (of_nat (subsec_nanos stamp) :: u32))
   }"

definition tai64n_zero :: tai64n where
  "tai64n_zero = \<lparr> ts_secs = 0, ts_nano = 0 \<rparr>"

definition tai64n_parse :: "bytes \<Rightarrow> tai64n wg_result" where
  "tai64n_parse buf =
    (if length buf < 12 then Inl InvalidTai64nTimestamp
     else Inr \<lparr> ts_secs = of_be_bytes (take 8 buf), ts_nano = of_be_bytes (drop 8 buf) \<rparr>)"

definition after :: "tai64n \<Rightarrow> tai64n \<Rightarrow> bool" where
  "after self other \<longleftrightarrow> ts_secs self > ts_secs other \<or>
     (ts_secs self = ts_secs other \<and> ts_nano self > ts_nano other)"

section \<open>The state of a handshake\<close>

record noise_params =
  np_static_public :: bytes
  np_static_private :: bytes
  np_peer_static_public :: bytes
  np_static_shared :: bytes
  np_sending_mac1_key :: bytes
  np_preshared_key :: "bytes option"

record handshake_init_sent_state =
  sent_local_index :: u32
  sent_hash :: bytes
  sent_chaining_key :: bytes
  sent_ephemeral_private :: bytes
  sent_time_sent :: instant
  sent_mlkem_decapsulation_key :: "bytes option"

datatype handshake_state =
    HsNone
  | InitSent handshake_init_sent_state
  | InitReceived (ir_hash: bytes) (ir_chaining_key: bytes) (ir_peer_ephemeral_public: bytes)
      (ir_peer_index: u32) (ir_mlkem_encapsulation_key: "bytes option")
  | HsExpired

record cookies =
  ck_last_mac1 :: "bytes option"
  ck_index :: u32
  ck_write_cookie :: "bytes option"

record handshake =
  hs_params :: noise_params
  hs_next_index :: u32
  hs_previous :: handshake_state
  hs_state :: handshake_state
  hs_cookies :: cookies
  hs_last_handshake_timestamp :: tai64n
  hs_stamper :: time_stamper
  hs_last_rtt :: "u32 option"

record half_handshake =
  hh_peer_index :: u32
  hh_peer_static_public :: bytes

definition parse_handshake_anon ::
  "crypto \<Rightarrow> bytes \<Rightarrow> bytes \<Rightarrow> handshake_init \<Rightarrow> (half_handshake wg_result) option" where
  "parse_handshake_anon c static_private static_public packet = do {
     let peer_index = hi_sender_idx packet;
     let chaining_key = INITIAL_CHAIN_KEY;
     let hash = INITIAL_CHAIN_HASH;
     let hash = b2s_hash c hash static_public;
     let peer_ephemeral_public = hi_unencrypted_ephemeral packet;
     let hash = b2s_hash c hash peer_ephemeral_public;
     let chaining_key = b2s_hmac c (b2s_hmac c chaining_key peer_ephemeral_public) [1];
     let ephemeral_shared = x25519_dh c static_private peer_ephemeral_public;
     let temp = b2s_hmac c chaining_key ephemeral_shared;
     let chaining_key = b2s_hmac c temp [1];
     let key = b2s_hmac2 c temp chaining_key [2];
     r \<leftarrow> aead_chacha20_open c KEY_LEN key 0 (hi_encrypted_static packet) hash;
     Some (bind_result r (\<lambda>peer_static_public.
       Inr \<lparr> hh_peer_index = peer_index, hh_peer_static_public = peer_static_public \<rparr>))
   }"

definition noise_params_new :: "crypto \<Rightarrow> bytes \<Rightarrow> bytes \<Rightarrow> bytes \<Rightarrow> bytes option \<Rightarrow> noise_params" where
  "noise_params_new c static_private static_public peer_static_public preshared_key =
    (let static_shared = x25519_dh c static_private peer_static_public;
         initial_sending_mac_key = b2s_hash c LABEL_MAC1 peer_static_public
     in \<lparr> np_static_public = static_public, np_static_private = static_private,
          np_peer_static_public = peer_static_public, np_static_shared = static_shared,
          np_sending_mac1_key = initial_sending_mac_key, np_preshared_key = preshared_key \<rparr>)"

definition noise_params_set_static_private ::
  "crypto \<Rightarrow> noise_params \<Rightarrow> bytes \<Rightarrow> bytes \<Rightarrow> noise_params option" where
  "noise_params_set_static_private c self static_private static_public =
    (let check_key = x25519_public c static_private in
     if check_key \<noteq> static_public then None
     else Some (self\<lparr> np_static_private := static_private, np_static_public := static_public,
       np_static_shared := x25519_dh c static_private (np_peer_static_public self) \<rparr>))"

definition handshake_new ::
  "crypto \<Rightarrow> duration option \<Rightarrow> instant \<Rightarrow> bytes \<Rightarrow> bytes \<Rightarrow> bytes \<Rightarrow> u32 \<Rightarrow> bytes option \<Rightarrow> handshake option" where
  "handshake_new c system_time now static_private static_public peer_static_public global_idx preshared_key = do {
     let params = noise_params_new c static_private static_public peer_static_public preshared_key;
     stamper \<leftarrow> time_stamper_new system_time now;
     Some \<lparr> hs_params = params, hs_next_index = global_idx, hs_previous = HsNone, hs_state = HsNone,
       hs_cookies = \<lparr> ck_last_mac1 = None, ck_index = 0, ck_write_cookie = None \<rparr>,
       hs_last_handshake_timestamp = tai64n_zero, hs_stamper = stamper, hs_last_rtt = None \<rparr>
   }"

definition is_in_progress :: "handshake \<Rightarrow> bool" where
  "is_in_progress self \<longleftrightarrow> \<not> (hs_state self = HsNone \<or> hs_state self = HsExpired)"

definition handshake_timer :: "handshake \<Rightarrow> instant option" where
  "handshake_timer self = (case hs_state self of InitSent s \<Rightarrow> Some (sent_time_sent s) | _ \<Rightarrow> None)"

definition set_expired :: "handshake \<Rightarrow> handshake" where
  "set_expired self = self\<lparr> hs_previous := HsExpired, hs_state := HsExpired \<rparr>"

definition is_expired :: "handshake \<Rightarrow> bool" where
  "is_expired self \<longleftrightarrow> hs_state self = HsExpired"

definition has_cookie :: "handshake \<Rightarrow> bool" where
  "has_cookie self \<longleftrightarrow> ck_write_cookie (hs_cookies self) \<noteq> None"

definition clear_cookie :: "handshake \<Rightarrow> handshake" where
  "clear_cookie self = self\<lparr> hs_cookies := (hs_cookies self)\<lparr> ck_write_cookie := None \<rparr> \<rparr>"

definition inc_index :: "handshake \<Rightarrow> handshake \<times> u32" where
  "inc_index self =
    (let index = hs_next_index self;
         idx8 = (ucast index :: byte);
         next_idx = (index AND NOT 0xff) OR (ucast (idx8 + 1) :: u32)
     in (self\<lparr> hs_next_index := next_idx \<rparr>, next_idx))"

definition handshake_set_static_private :: "crypto \<Rightarrow> handshake \<Rightarrow> bytes \<Rightarrow> bytes \<Rightarrow> handshake option" where
  "handshake_set_static_private c self private_key public_key =
    map_option (\<lambda>p. self\<lparr> hs_params := p \<rparr>)
      (noise_params_set_static_private c (hs_params self) private_key public_key)"

section \<open>Messages\<close>

text \<open>\<open>append_mac1_and_mac2\<close> gets the whole message, whose last 32 bytes are still those of the
  buffer.\<close>

definition append_mac1_and_mac2 :: "crypto \<Rightarrow> handshake \<Rightarrow> u32 \<Rightarrow> bytes \<Rightarrow> handshake \<times> bytes wg_result" where
  "append_mac1_and_mac2 c self local_index dst =
    (let mac1_off = length dst - 32;
         mac2_off = length dst - 16;
         msg_mac1 = b2s_keyed_mac_16 c (np_sending_mac1_key (hs_params self)) (take mac1_off dst);
         dst = take mac1_off dst @ msg_mac1 @ drop mac2_off dst;
         msg_mac2 = (case ck_write_cookie (hs_cookies self) of
             Some cookie \<Rightarrow> b2s_keyed_mac_16 c cookie (take mac2_off dst)
           | None \<Rightarrow> replicate 16 0);
         dst = take mac2_off dst @ msg_mac2;
         self = self\<lparr> hs_cookies := (hs_cookies self)\<lparr> ck_index := local_index, ck_last_mac1 := Some msg_mac1 \<rparr> \<rparr>
     in (self, Inr dst))"

text \<open>\<open>format_handshake_response\<close>; the last two components are the message and the session.\<close>

definition format_handshake_response ::
  "crypto \<Rightarrow> env \<Rightarrow> handshake \<Rightarrow> bytes \<Rightarrow> (handshake \<times> (bytes \<times> session) wg_result) option" where
  "format_handshake_response c env self dst =
    (if length dst < HANDSHAKE_RESP_SZ then Some (self, Inl DestinationBufferTooSmall)
     else case hs_state self of
       InitReceived hash chaining_key peer_ephemeral_public peer_index _ \<Rightarrow> do {
         let self = self\<lparr> hs_state := HsNone \<rparr>;
         let ephemeral_private = env_ephemeral env;
         let (self, local_index) = inc_index self;
         let message_type = le_bytes 4 HANDSHAKE_RESP;
         let sender_index = le_bytes 4 local_index;
         let receiver_index = le_bytes 4 peer_index;
         let unencrypted_ephemeral = x25519_public c ephemeral_private;
         let hash = b2s_hash c hash unencrypted_ephemeral;
         let temp = b2s_hmac c chaining_key unencrypted_ephemeral;
         let chaining_key = b2s_hmac c temp [1];
         let ephemeral_shared = x25519_dh c ephemeral_private peer_ephemeral_public;
         let temp = b2s_hmac c chaining_key ephemeral_shared;
         let chaining_key = b2s_hmac c temp [1];
         let temp = b2s_hmac c chaining_key
           (x25519_dh c ephemeral_private (np_peer_static_public (hs_params self)));
         let chaining_key = b2s_hmac c temp [1];
         let temp = b2s_hmac c chaining_key
           (case np_preshared_key (hs_params self) of Some k \<Rightarrow> k | None \<Rightarrow> replicate 32 0);
         let chaining_key = b2s_hmac c temp [1];
         let temp2 = b2s_hmac2 c temp chaining_key [2];
         let key = b2s_hmac2 c temp temp2 [3];
         let hash = b2s_hash c hash temp2;
         encrypted_nothing \<leftarrow> aead_chacha20_seal c 16 key 0 [] hash;
         let temp1 = b2s_hmac c chaining_key [];
         let temp2 = b2s_hmac c temp1 [1];
         let temp3 = b2s_hmac2 c temp1 temp2 [2];
         let dst = fill_prefix dst (message_type @ sender_index @ receiver_index @
           unencrypted_ephemeral @ encrypted_nothing);
         let (self, r) = append_mac1_and_mac2 c self local_index (take HANDSHAKE_RESP_SZ dst);
         try_with self r (\<lambda>dst. Some (self, Inr (dst, session_new local_index peer_index temp2 temp3)))
       }
     | _ \<Rightarrow> None)"

definition receive_handshake_initialization ::
  "crypto \<Rightarrow> env \<Rightarrow> handshake \<Rightarrow> handshake_init \<Rightarrow> bytes \<Rightarrow> (handshake \<times> (bytes \<times> session) wg_result) option" where
  "receive_handshake_initialization c env self packet dst = do {
     let chaining_key = INITIAL_CHAIN_KEY;
     let hash = INITIAL_CHAIN_HASH;
     let hash = b2s_hash c hash (np_static_public (hs_params self));
     let peer_index = hi_sender_idx packet;
     let peer_ephemeral_public = hi_unencrypted_ephemeral packet;
     let hash = b2s_hash c hash peer_ephemeral_public;
     let chaining_key = b2s_hmac c (b2s_hmac c chaining_key peer_ephemeral_public) [1];
     let ephemeral_shared = x25519_dh c (np_static_private (hs_params self)) peer_ephemeral_public;
     let temp = b2s_hmac c chaining_key ephemeral_shared;
     let chaining_key = b2s_hmac c temp [1];
     let key = b2s_hmac2 c temp chaining_key [2];
     r \<leftarrow> aead_chacha20_open c KEY_LEN key 0 (hi_encrypted_static packet) hash;
     try_with self r (\<lambda>peer_static_public_decrypted.
       if np_peer_static_public (hs_params self) \<noteq> peer_static_public_decrypted then Some (self, Inl WrongKey)
       else do {
         let hash = b2s_hash c hash (hi_encrypted_static packet);
         let temp = b2s_hmac c chaining_key (np_static_shared (hs_params self));
         let chaining_key = b2s_hmac c temp [1];
         let key = b2s_hmac2 c temp chaining_key [2];
         r \<leftarrow> aead_chacha20_open c TIMESTAMP_LEN key 0 (hi_encrypted_timestamp packet) hash;
         try_with self r (\<lambda>timestamp.
           try_with self (tai64n_parse timestamp) (\<lambda>timestamp.
             if \<not> after timestamp (hs_last_handshake_timestamp self) then Some (self, Inl WrongTai64nTimestamp)
             else
               let self = self\<lparr> hs_last_handshake_timestamp := timestamp \<rparr>;
                   hash = b2s_hash c hash (hi_encrypted_timestamp packet);
                   self = self\<lparr> hs_previous := hs_state self,
                     hs_state := InitReceived hash chaining_key peer_ephemeral_public peer_index None \<rparr>
               in format_handshake_response c env self dst))
       })
   }"

text \<open>The \<open>match\<close> on \<open>(&self.state, &self.previous)\<close> at the start of both response handlers: the
  initiation the response answers and whether it is the previous one.\<close>

definition awaiting :: "handshake \<Rightarrow> u32 \<Rightarrow> (handshake_init_sent_state \<times> bool) option" where
  "awaiting self receiver_idx =
    (let prev = (case hs_previous self of
         InitSent s \<Rightarrow> if sent_local_index s = receiver_idx then Some (s, True) else None
       | _ \<Rightarrow> None)
     in case hs_state self of
         InitSent s \<Rightarrow> if sent_local_index s = receiver_idx then Some (s, False) else prev
       | _ \<Rightarrow> prev)"

definition receive_handshake_response ::
  "crypto \<Rightarrow> env \<Rightarrow> handshake \<Rightarrow> handshake_response \<Rightarrow> (handshake \<times> session wg_result) option" where
  "receive_handshake_response c env self packet =
    (case awaiting self (hr_receiver_idx packet) of
       None \<Rightarrow> Some (self, Inl UnexpectedPacket)
     | Some (state, is_previous) \<Rightarrow>
       if sent_mlkem_decapsulation_key state \<noteq> None then Some (self, Inl WrongPacketType)
       else do {
         let peer_index = hr_sender_idx packet;
         let local_index = sent_local_index state;
         let unencrypted_ephemeral = hr_unencrypted_ephemeral packet;
         let hash = b2s_hash c (sent_hash state) unencrypted_ephemeral;
         let temp = b2s_hmac c (sent_chaining_key state) unencrypted_ephemeral;
         let chaining_key = b2s_hmac c temp [1];
         let ephemeral_shared = x25519_dh c (sent_ephemeral_private state) unencrypted_ephemeral;
         let temp = b2s_hmac c chaining_key ephemeral_shared;
         let chaining_key = b2s_hmac c temp [1];
         let temp = b2s_hmac c chaining_key
           (x25519_dh c (np_static_private (hs_params self)) unencrypted_ephemeral);
         let chaining_key = b2s_hmac c temp [1];
         let temp = b2s_hmac c chaining_key
           (case np_preshared_key (hs_params self) of Some k \<Rightarrow> k | None \<Rightarrow> replicate 32 0);
         let chaining_key = b2s_hmac c temp [1];
         let temp2 = b2s_hmac2 c temp chaining_key [2];
         let key = b2s_hmac2 c temp temp2 [3];
         let hash = b2s_hash c hash temp2;
         r \<leftarrow> aead_chacha20_open c 0 key 0 (hr_encrypted_nothing packet) hash;
         try_with self r (\<lambda>_.
           let temp1 = b2s_hmac c chaining_key [];
               temp2 = b2s_hmac c temp1 [1];
               temp3 = b2s_hmac2 c temp1 temp2 [2];
               rtt_time = duration_since (env_now env) (sent_time_sent state);
               self = self\<lparr> hs_last_rtt := Some (of_nat (as_millis rtt_time)) \<rparr>;
               self = (if is_previous then self\<lparr> hs_previous := HsNone \<rparr> else self\<lparr> hs_state := HsNone \<rparr>)
           in Some (self, Inr (session_new local_index peer_index temp3 temp2)))
       })"

definition receive_cookie_reply :: "crypto \<Rightarrow> handshake \<Rightarrow> packet_cookie_reply \<Rightarrow> handshake \<times> unit wg_result" where
  "receive_cookie_reply c self packet =
    (case ck_last_mac1 (hs_cookies self) of
       None \<Rightarrow> (self, Inl UnexpectedPacket)
     | Some mac1 \<Rightarrow>
       let local_index = ck_index (hs_cookies self) in
       if cr_receiver_idx packet \<noteq> local_index then (self, Inl WrongIndex)
       else
         let key = b2s_hash c LABEL_COOKIE (np_peer_static_public (hs_params self)) in
         case xchacha_open c key (cr_nonce packet) mac1 (cr_encrypted_cookie packet) of
           None \<Rightarrow> (self, Inl InvalidAeadTag)
         | Some plaintext \<Rightarrow>
           if length plaintext \<noteq> 16 then (self, Inl InvalidPacket)
           else (self\<lparr> hs_cookies := (hs_cookies self)\<lparr> ck_write_cookie := Some plaintext \<rparr> \<rparr>, Inr ()))"

definition format_handshake_initiation ::
  "crypto \<Rightarrow> env \<Rightarrow> handshake \<Rightarrow> bytes \<Rightarrow> (handshake \<times> bytes wg_result) option" where
  "format_handshake_initiation c env self dst =
    (if length dst < HANDSHAKE_INIT_SZ then Some (self, Inl DestinationBufferTooSmall)
     else do {
       let (self, local_index) = inc_index self;
       let chaining_key = INITIAL_CHAIN_KEY;
       let hash = INITIAL_CHAIN_HASH;
       let hash = b2s_hash c hash (np_peer_static_public (hs_params self));
       let ephemeral_private = env_ephemeral env;
       let message_type = le_bytes 4 HANDSHAKE_INIT;
       let sender_index = le_bytes 4 local_index;
       let unencrypted_ephemeral = x25519_public c ephemeral_private;
       let hash = b2s_hash c hash unencrypted_ephemeral;
       let chaining_key = b2s_hmac c (b2s_hmac c chaining_key unencrypted_ephemeral) [1];
       let ephemeral_shared = x25519_dh c ephemeral_private (np_peer_static_public (hs_params self));
       let temp = b2s_hmac c chaining_key ephemeral_shared;
       let chaining_key = b2s_hmac c temp [1];
       let key = b2s_hmac2 c temp chaining_key [2];
       encrypted_static \<leftarrow> aead_chacha20_seal c (32 + 16) key 0 (np_static_public (hs_params self)) hash;
       let hash = b2s_hash c hash encrypted_static;
       let temp = b2s_hmac c chaining_key (np_static_shared (hs_params self));
       let chaining_key = b2s_hmac c temp [1];
       let key = b2s_hmac2 c temp chaining_key [2];
       timestamp \<leftarrow> stamp (hs_stamper self) (env_stamp_now env);
       encrypted_timestamp \<leftarrow> aead_chacha20_seal c (12 + 16) key 0 timestamp hash;
       let hash = b2s_hash c hash encrypted_timestamp;
       let time_now = env_now env;
       let self = self\<lparr> hs_previous := hs_state self,
         hs_state := InitSent \<lparr> sent_local_index = local_index, sent_hash = hash,
           sent_chaining_key = chaining_key, sent_ephemeral_private = ephemeral_private,
           sent_time_sent = time_now, sent_mlkem_decapsulation_key = None \<rparr> \<rparr>;
       let dst = fill_prefix dst (message_type @ sender_index @ unencrypted_ephemeral @
         encrypted_static @ encrypted_timestamp);
       Some (append_mac1_and_mac2 c self local_index (take HANDSHAKE_INIT_SZ dst))
     })"

section \<open>The hybrid handshake\<close>

definition format_pq_handshake_initiation ::
  "crypto \<Rightarrow> env \<Rightarrow> handshake \<Rightarrow> bytes \<Rightarrow> (handshake \<times> bytes wg_result) option" where
  "format_pq_handshake_initiation c env self dst =
    (if length dst < PQ_HANDSHAKE_INIT_SZ then Some (self, Inl DestinationBufferTooSmall)
     else do {
       let (self, local_index) = inc_index self;
       let chaining_key = INITIAL_CHAIN_KEY_PQ;
       let hash = INITIAL_CHAIN_HASH_PQ;
       let hash = b2s_hash c hash (np_peer_static_public (hs_params self));
       let ephemeral_private = env_ephemeral env;
       let message_type = le_bytes 4 PQ_HANDSHAKE_INIT;
       let sender_index = le_bytes 4 local_index;
       let unencrypted_ephemeral = x25519_public c ephemeral_private;
       let hash = b2s_hash c hash unencrypted_ephemeral;
       let chaining_key = b2s_hmac c (b2s_hmac c chaining_key unencrypted_ephemeral) [1];
       let ephemeral_shared = x25519_dh c ephemeral_private (np_peer_static_public (hs_params self));
       let temp = b2s_hmac c chaining_key ephemeral_shared;
       let chaining_key = b2s_hmac c temp [1];
       let key = b2s_hmac2 c temp chaining_key [2];
       encrypted_static \<leftarrow> aead_chacha20_seal c (32 + 16) key 0 (np_static_public (hs_params self)) hash;
       let hash = b2s_hash c hash encrypted_static;
       let temp = b2s_hmac c chaining_key (np_static_shared (hs_params self));
       let chaining_key = b2s_hmac c temp [1];
       let key = b2s_hmac2 c temp chaining_key [2];
       timestamp \<leftarrow> stamp (hs_stamper self) (env_stamp_now env);
       encrypted_timestamp \<leftarrow> aead_chacha20_seal c (12 + 16) key 0 timestamp hash;
       let hash = b2s_hash c hash encrypted_timestamp;
       let (dk, ek) = mlkem_keygen c (env_kem env);
       let mlkem_ek_field = ek;
       let hash = b2s_hash c hash mlkem_ek_field;
       let time_now = env_now env;
       let self = self\<lparr> hs_previous := hs_state self,
         hs_state := InitSent \<lparr> sent_local_index = local_index, sent_hash = hash,
           sent_chaining_key = chaining_key, sent_ephemeral_private = ephemeral_private,
           sent_time_sent = time_now, sent_mlkem_decapsulation_key = Some dk \<rparr> \<rparr>;
       let dst = fill_prefix dst (message_type @ sender_index @ unencrypted_ephemeral @
         encrypted_static @ encrypted_timestamp @ mlkem_ek_field);
       Some (append_mac1_and_mac2 c self local_index (take PQ_HANDSHAKE_INIT_SZ dst))
     })"

text \<open>\<open>format_pq_handshake_response\<close> takes the encapsulation key from the state; one that is
  missing or has another size is a panic, one that does not decode an error.\<close>

definition format_pq_handshake_response ::
  "crypto \<Rightarrow> env \<Rightarrow> handshake \<Rightarrow> bytes \<Rightarrow> (handshake \<times> (bytes \<times> session) wg_result) option" where
  "format_pq_handshake_response c env self dst =
    (if length dst < PQ_HANDSHAKE_RESP_SZ then Some (self, Inl DestinationBufferTooSmall)
     else case hs_state self of
       InitReceived hash chaining_key peer_ephemeral_public peer_index mlkem_encapsulation_key \<Rightarrow> do {
         let self = self\<lparr> hs_state := HsNone \<rparr>;
         mlkem_ek_bytes \<leftarrow> mlkem_encapsulation_key;
         let ephemeral_private = env_ephemeral env;
         let (self, local_index) = inc_index self;
         let message_type = le_bytes 4 PQ_HANDSHAKE_RESP;
         let sender_index = le_bytes 4 local_index;
         let receiver_index = le_bytes 4 peer_index;
         let unencrypted_ephemeral = x25519_public c ephemeral_private;
         let hash = b2s_hash c hash unencrypted_ephemeral;
         let temp = b2s_hmac c chaining_key unencrypted_ephemeral;
         let chaining_key = b2s_hmac c temp [1];
         let ephemeral_shared = x25519_dh c ephemeral_private peer_ephemeral_public;
         let temp = b2s_hmac c chaining_key ephemeral_shared;
         let chaining_key = b2s_hmac c temp [1];
         let temp = b2s_hmac c chaining_key
           (x25519_dh c ephemeral_private (np_peer_static_public (hs_params self)));
         let chaining_key = b2s_hmac c temp [1];
         if length mlkem_ek_bytes \<noteq> MLKEM768_PK_SIZE then None
         else if \<not> mlkem_ek_ok c mlkem_ek_bytes then Some (self, Inl InvalidPacket)
         else do {
           let (ct, ss) = mlkem_encaps c mlkem_ek_bytes (env_kem env);
           let mlkem_ct_field = ct;
           let temp = b2s_hmac c chaining_key ss;
           let chaining_key = b2s_hmac c temp [1];
           let hash = b2s_hash c hash mlkem_ct_field;
           let temp = b2s_hmac c chaining_key
             (case np_preshared_key (hs_params self) of Some k \<Rightarrow> k | None \<Rightarrow> replicate 32 0);
           let chaining_key = b2s_hmac c temp [1];
           let temp2 = b2s_hmac2 c temp chaining_key [2];
           let key = b2s_hmac2 c temp temp2 [3];
           let hash = b2s_hash c hash temp2;
           encrypted_nothing \<leftarrow> aead_chacha20_seal c 16 key 0 [] hash;
           let temp1 = b2s_hmac c chaining_key [];
           let temp2 = b2s_hmac c temp1 [1];
           let temp3 = b2s_hmac2 c temp1 temp2 [2];
           let dst = fill_prefix dst (message_type @ sender_index @ receiver_index @
             unencrypted_ephemeral @ encrypted_nothing @ mlkem_ct_field);
           let (self, r) = append_mac1_and_mac2 c self local_index (take PQ_HANDSHAKE_RESP_SZ dst);
           try_with self r (\<lambda>dst. Some (self, Inr (dst, session_new local_index peer_index temp2 temp3)))
         }
       }
     | _ \<Rightarrow> None)"

definition receive_pq_handshake_initialization ::
  "crypto \<Rightarrow> env \<Rightarrow> handshake \<Rightarrow> pq_handshake_init \<Rightarrow> bytes \<Rightarrow> (handshake \<times> (bytes \<times> session) wg_result) option" where
  "receive_pq_handshake_initialization c env self packet dst = do {
     let chaining_key = INITIAL_CHAIN_KEY_PQ;
     let hash = INITIAL_CHAIN_HASH_PQ;
     let hash = b2s_hash c hash (np_static_public (hs_params self));
     let peer_index = pqi_sender_idx packet;
     let peer_ephemeral_public = pqi_unencrypted_ephemeral packet;
     let hash = b2s_hash c hash peer_ephemeral_public;
     let chaining_key = b2s_hmac c (b2s_hmac c chaining_key peer_ephemeral_public) [1];
     let ephemeral_shared = x25519_dh c (np_static_private (hs_params self)) peer_ephemeral_public;
     let temp = b2s_hmac c chaining_key ephemeral_shared;
     let chaining_key = b2s_hmac c temp [1];
     let key = b2s_hmac2 c temp chaining_key [2];
     r \<leftarrow> aead_chacha20_open c KEY_LEN key 0 (pqi_encrypted_static packet) hash;
     try_with self r (\<lambda>peer_static_public_decrypted.
       if np_peer_static_public (hs_params self) \<noteq> peer_static_public_decrypted then Some (self, Inl WrongKey)
       else do {
         let hash = b2s_hash c hash (pqi_encrypted_static packet);
         let temp = b2s_hmac c chaining_key (np_static_shared (hs_params self));
         let chaining_key = b2s_hmac c temp [1];
         let key = b2s_hmac2 c temp chaining_key [2];
         r \<leftarrow> aead_chacha20_open c TIMESTAMP_LEN key 0 (pqi_encrypted_timestamp packet) hash;
         try_with self r (\<lambda>timestamp.
           try_with self (tai64n_parse timestamp) (\<lambda>timestamp.
             if \<not> after timestamp (hs_last_handshake_timestamp self) then Some (self, Inl WrongTai64nTimestamp)
             else
               let self = self\<lparr> hs_last_handshake_timestamp := timestamp \<rparr>;
                   hash = b2s_hash c hash (pqi_encrypted_timestamp packet);
                   hash = b2s_hash c hash (pqi_mlkem_ephemeral_public packet);
                   self = self\<lparr> hs_previous := hs_state self,
                     hs_state := InitReceived hash chaining_key peer_ephemeral_public peer_index
                       (Some (pqi_mlkem_ephemeral_public packet)) \<rparr>
               in format_pq_handshake_response c env self dst))
       })
   }"

definition receive_pq_handshake_response ::
  "crypto \<Rightarrow> env \<Rightarrow> handshake \<Rightarrow> pq_handshake_response \<Rightarrow> (handshake \<times> session wg_result) option" where
  "receive_pq_handshake_response c env self packet =
    (case awaiting self (pqr_receiver_idx packet) of
       None \<Rightarrow> Some (self, Inl UnexpectedPacket)
     | Some (state, is_previous) \<Rightarrow> do {
         let peer_index = pqr_sender_idx packet;
         let local_index = sent_local_index state;
         let unencrypted_ephemeral = pqr_unencrypted_ephemeral packet;
         let hash = b2s_hash c (sent_hash state) unencrypted_ephemeral;
         let temp = b2s_hmac c (sent_chaining_key state) unencrypted_ephemeral;
         let chaining_key = b2s_hmac c temp [1];
         let ephemeral_shared = x25519_dh c (sent_ephemeral_private state) unencrypted_ephemeral;
         let temp = b2s_hmac c chaining_key ephemeral_shared;
         let chaining_key = b2s_hmac c temp [1];
         let temp = b2s_hmac c chaining_key
           (x25519_dh c (np_static_private (hs_params self)) unencrypted_ephemeral);
         let chaining_key = b2s_hmac c temp [1];
         case sent_mlkem_decapsulation_key state of
           None \<Rightarrow> Some (self, Inl InvalidPacket)
         | Some dk \<Rightarrow>
           if length (pqr_mlkem_ciphertext packet) \<noteq> MLKEM768_CT_SIZE then Some (self, Inl InvalidPacket)
           else case mlkem_decaps c dk (pqr_mlkem_ciphertext packet) of
             None \<Rightarrow> Some (self, Inl MlKemDecapsulationFailed)
           | Some ss \<Rightarrow> do {
               let temp = b2s_hmac c chaining_key ss;
               let chaining_key = b2s_hmac c temp [1];
               let hash = b2s_hash c hash (pqr_mlkem_ciphertext packet);
               let temp = b2s_hmac c chaining_key
                 (case np_preshared_key (hs_params self) of Some k \<Rightarrow> k | None \<Rightarrow> replicate 32 0);
               let chaining_key = b2s_hmac c temp [1];
               let temp2 = b2s_hmac2 c temp chaining_key [2];
               let key = b2s_hmac2 c temp temp2 [3];
               let hash = b2s_hash c hash temp2;
               r \<leftarrow> aead_chacha20_open c 0 key 0 (pqr_encrypted_nothing packet) hash;
               try_with self r (\<lambda>_.
                 let temp1 = b2s_hmac c chaining_key [];
                     temp2 = b2s_hmac c temp1 [1];
                     temp3 = b2s_hmac2 c temp1 temp2 [2];
                     rtt_time = duration_since (env_now env) (sent_time_sent state);
                     self = self\<lparr> hs_last_rtt := Some (of_nat (as_millis rtt_time)) \<rparr>;
                     self = (if is_previous then self\<lparr> hs_previous := HsNone \<rparr> else self\<lparr> hs_state := HsNone \<rparr>)
                 in Some (self, Inr (session_new local_index peer_index temp3 temp2)))
             }
       })"

definition parse_pq_handshake_anon ::
  "crypto \<Rightarrow> bytes \<Rightarrow> bytes \<Rightarrow> pq_handshake_init \<Rightarrow> (half_handshake wg_result) option" where
  "parse_pq_handshake_anon c static_private static_public packet = do {
     let peer_index = pqi_sender_idx packet;
     let chaining_key = INITIAL_CHAIN_KEY_PQ;
     let hash = INITIAL_CHAIN_HASH_PQ;
     let hash = b2s_hash c hash static_public;
     let peer_ephemeral_public = pqi_unencrypted_ephemeral packet;
     let hash = b2s_hash c hash peer_ephemeral_public;
     let chaining_key = b2s_hmac c (b2s_hmac c chaining_key peer_ephemeral_public) [1];
     let ephemeral_shared = x25519_dh c static_private peer_ephemeral_public;
     let temp = b2s_hmac c chaining_key ephemeral_shared;
     let chaining_key = b2s_hmac c temp [1];
     let key = b2s_hmac2 c temp chaining_key [2];
     r \<leftarrow> aead_chacha20_open c KEY_LEN key 0 (pqi_encrypted_static packet) hash;
     Some (bind_result r (\<lambda>peer_static_public.
       Inr \<lparr> hh_peer_index = peer_index, hh_peer_static_public = peer_static_public \<rparr>))
   }"

end
