(* ===== verification/Key_Agreement.thy ===== *)
theory Key_Agreement
  imports Handshake
begin

text \<open>
  The two parties of a handshake derive the same keys. The messages and keys are first written
  down once, as a specification of the Noise pattern in terms of its key derivation function
  (\<open>kdf1\<close>, \<open>kdf2\<close>, \<open>kdf3\<close>) and transcript hashes, for the classical and the hybrid variant; each
  function of \<^verbatim>\<open>noise/handshake.rs\<close> is shown to compute its part of it, and the agreement theorems
  compose these facts over the bytes that go over the wire.
\<close>

section \<open>The Noise pattern as a specification\<close>

definition kdf1 :: "crypto \<Rightarrow> bytes \<Rightarrow> bytes \<Rightarrow> bytes" where
  "kdf1 c ck x = b2s_hmac c (b2s_hmac c ck x) [1]"

definition kdf2 :: "crypto \<Rightarrow> bytes \<Rightarrow> bytes \<Rightarrow> bytes" where
  "kdf2 c ck x = b2s_hmac2 c (b2s_hmac c ck x) (kdf1 c ck x) [2]"

definition kdf3 :: "crypto \<Rightarrow> bytes \<Rightarrow> bytes \<Rightarrow> bytes" where
  "kdf3 c ck x = b2s_hmac2 c (b2s_hmac c ck x) (kdf2 c ck x) [3]"

lemmas kdf_defs = kdf1_def kdf2_def kdf3_def

definition sealed :: "crypto \<Rightarrow> bytes \<Rightarrow> bytes \<Rightarrow> bytes \<Rightarrow> bytes" where
  "sealed c key data aad =
    fst (chacha_seal c key (counter_nonce 0) aad data) @ snd (chacha_seal c key (counter_nonce 0) aad data)"

definition psk_bytes :: "bytes option \<Rightarrow> bytes" where
  "psk_bytes psk = (case psk of Some k \<Rightarrow> k | None \<Rightarrow> replicate 32 0)"

text \<open>The initiation by an initiator with the static key pair of \<open>sa\<close> and the ephemeral secret
  \<open>e\<close> to the responder with the public key \<open>pb\<close>: transcript hash and chaining key after each step.\<close>

definition init_h1 :: "crypto \<Rightarrow> bytes \<Rightarrow> bytes \<Rightarrow> bytes \<Rightarrow> bytes" where
  "init_h1 c h0 pb e = b2s_hash c (b2s_hash c h0 pb) (x25519_public c e)"

definition init_ck2 :: "crypto \<Rightarrow> bytes \<Rightarrow> bytes \<Rightarrow> bytes \<Rightarrow> bytes" where
  "init_ck2 c ck0 pb e = kdf1 c (kdf1 c ck0 (x25519_public c e)) (x25519_dh c e pb)"

definition init_static :: "crypto \<Rightarrow> bytes \<Rightarrow> bytes \<Rightarrow> bytes \<Rightarrow> bytes \<Rightarrow> bytes \<Rightarrow> bytes" where
  "init_static c ck0 h0 sa pb e =
    sealed c (kdf2 c (kdf1 c ck0 (x25519_public c e)) (x25519_dh c e pb)) (x25519_public c sa) (init_h1 c h0 pb e)"

definition init_h2 :: "crypto \<Rightarrow> bytes \<Rightarrow> bytes \<Rightarrow> bytes \<Rightarrow> bytes \<Rightarrow> bytes \<Rightarrow> bytes" where
  "init_h2 c ck0 h0 sa pb e = b2s_hash c (init_h1 c h0 pb e) (init_static c ck0 h0 sa pb e)"

definition init_timestamp :: "crypto \<Rightarrow> bytes \<Rightarrow> bytes \<Rightarrow> bytes \<Rightarrow> bytes \<Rightarrow> bytes \<Rightarrow> bytes \<Rightarrow> bytes" where
  "init_timestamp c ck0 h0 sa pb e ts =
    sealed c (kdf2 c (init_ck2 c ck0 pb e) (x25519_dh c sa pb)) ts (init_h2 c ck0 h0 sa pb e)"

definition init_h3 :: "crypto \<Rightarrow> bytes \<Rightarrow> bytes \<Rightarrow> bytes \<Rightarrow> bytes \<Rightarrow> bytes \<Rightarrow> bytes \<Rightarrow> bytes" where
  "init_h3 c ck0 h0 sa pb e ts = b2s_hash c (init_h2 c ck0 h0 sa pb e) (init_timestamp c ck0 h0 sa pb e ts)"

definition init_ck3 :: "crypto \<Rightarrow> bytes \<Rightarrow> bytes \<Rightarrow> bytes \<Rightarrow> bytes \<Rightarrow> bytes" where
  "init_ck3 c ck0 sa pb e = kdf1 c (init_ck2 c ck0 pb e) (x25519_dh c sa pb)"

text \<open>The response with the ephemeral public key \<open>f\<close>, the two Diffie-Hellman results and, in the
  hybrid variant, the ciphertext and the ML-KEM secret.\<close>

fun resp_ck :: "crypto \<Rightarrow> bytes \<Rightarrow> bytes \<Rightarrow> bytes \<Rightarrow> bytes \<Rightarrow> (bytes \<times> bytes) option \<Rightarrow> bytes" where
  "resp_ck c ck f ee se None = kdf1 c (kdf1 c (kdf1 c ck f) ee) se"
| "resp_ck c ck f ee se (Some (ct, ss)) = kdf1 c (kdf1 c (kdf1 c (kdf1 c ck f) ee) se) ss"

fun resp_h :: "crypto \<Rightarrow> bytes \<Rightarrow> bytes \<Rightarrow> (bytes \<times> bytes) option \<Rightarrow> bytes" where
  "resp_h c h f None = b2s_hash c h f"
| "resp_h c h f (Some (ct, ss)) = b2s_hash c (b2s_hash c h f) ct"

definition resp_nothing :: "crypto \<Rightarrow> bytes \<Rightarrow> bytes \<Rightarrow> bytes \<Rightarrow> bytes" where
  "resp_nothing c ck h psk = sealed c (kdf3 c ck psk) [] (b2s_hash c h (kdf2 c ck psk))"

definition key_to_responder :: "crypto \<Rightarrow> bytes \<Rightarrow> bytes" where
  "key_to_responder c ck = kdf1 c ck []"

definition key_to_initiator :: "crypto \<Rightarrow> bytes \<Rightarrow> bytes" where
  "key_to_initiator c ck = kdf2 c ck []"

lemma aead_seal_sealed:
  assumes "crypto_ok c" and "n = length d + 16"
  shows "aead_chacha20_seal c n key 0 d aad = Some (sealed c key d aad)"
  using assms crypto_ok_seal_len [OF assms(1)]
  by (simp add: aead_chacha20_seal_def sealed_def case_prod_beta)

lemma aead_open_sealed:
  assumes "crypto_ok c" and "n = length d"
  shows "aead_chacha20_open c n key 0 (sealed c key d aad) aad = Some (Inr d)"
  using assms crypto_ok_open_seal [OF assms(1)] by (simp add: aead_chacha20_open_def sealed_def)

lemma length_sealed: "crypto_ok c \<Longrightarrow> length (sealed c key d aad) = length d + 16"
  by (simp add: sealed_def crypto_ok_seal_len)

section \<open>MACs\<close>

definition with_macs :: "crypto \<Rightarrow> noise_params \<Rightarrow> cookies \<Rightarrow> bytes \<Rightarrow> bytes" where
  "with_macs c p k msg =
    (let m1 = b2s_keyed_mac_16 c (np_sending_mac1_key p) msg
     in msg @ m1 @ (case ck_write_cookie k of
        Some cookie \<Rightarrow> b2s_keyed_mac_16 c cookie (msg @ m1) | None \<Rightarrow> replicate 16 0))"

definition macs_sent :: "crypto \<Rightarrow> noise_params \<Rightarrow> u32 \<Rightarrow> bytes \<Rightarrow> cookies \<Rightarrow> cookies" where
  "macs_sent c p idx msg k =
    k\<lparr> ck_index := idx, ck_last_mac1 := Some (b2s_keyed_mac_16 c (np_sending_mac1_key p) msg) \<rparr>"

lemma append_macs_eq:
  assumes "crypto_ok c" and "length stale = 32"
  shows "append_mac1_and_mac2 c self idx (msg @ stale) =
    (self\<lparr> hs_cookies := macs_sent c (hs_params self) idx msg (hs_cookies self) \<rparr>,
     Inr (with_macs c (hs_params self) (hs_cookies self) msg))"
proof -
  have l: "length (b2s_keyed_mac_16 c (np_sending_mac1_key (hs_params self)) msg) = 16"
    using crypto_ok_lengths(4) [OF assms(1)] .
  show ?thesis using assms(2)
    by (simp add: append_mac1_and_mac2_def Let_def with_macs_def macs_sent_def l split: option.split)
qed

lemma with_macs_prefix: "\<exists>macs. with_macs c p k msg = msg @ macs \<and> (crypto_ok c \<longrightarrow> length macs = 32)"
  by (auto simp: with_macs_def Let_def crypto_ok_lengths split: option.split)

section \<open>Each function computes its part of the pattern\<close>

definition next_idx :: "handshake \<Rightarrow> u32" where
  "next_idx h = snd (inc_index h)"

lemma inc_index_eq: "inc_index h = (h\<lparr> hs_next_index := next_idx h \<rparr>, next_idx h)"
  by (simp add: inc_index_def next_idx_def Let_def)

lemma low_mask: "(0xff :: u32) = mask 8"
  by (simp add: mask_eq_exp_minus_1)

lemma next_idx_low: "(ucast (next_idx h) :: byte) = ucast (hs_next_index h) + 1"
  unfolding next_idx_def inc_index_def Let_def low_mask snd_conv
  by (rule bit_word_eqI) (simp add: bit_simps)

lemma next_idx_high: "drop_bit 8 (next_idx h) = drop_bit 8 (hs_next_index h)"
  unfolding next_idx_def inc_index_def Let_def low_mask snd_conv
  by (rule bit_word_eqI) (auto simp: bit_simps dest: bit_imp_le_length)

lemma next_idx_differs: "next_idx h \<noteq> hs_next_index h"
proof
  assume "next_idx h = hs_next_index h"
  with next_idx_low [of h] show False by simp
qed

lemma length_stamp: "stamp st now = Some ts \<Longrightarrow> length ts = 12"
  by (auto simp: stamp_def split: Option.bind_splits)

definition init_packet :: "crypto \<Rightarrow> bytes \<Rightarrow> bytes \<Rightarrow> bytes \<Rightarrow> bytes \<Rightarrow> u32 \<Rightarrow> handshake_init" where
  "init_packet c sa pb e ts idx = \<lparr> hi_sender_idx = idx, hi_unencrypted_ephemeral = x25519_public c e,
     hi_encrypted_static = init_static c INITIAL_CHAIN_KEY INITIAL_CHAIN_HASH sa pb e,
     hi_encrypted_timestamp = init_timestamp c INITIAL_CHAIN_KEY INITIAL_CHAIN_HASH sa pb e ts \<rparr>"

definition pq_init_packet :: "crypto \<Rightarrow> bytes \<Rightarrow> bytes \<Rightarrow> bytes \<Rightarrow> bytes \<Rightarrow> bytes \<Rightarrow> u32 \<Rightarrow> pq_handshake_init" where
  "pq_init_packet c sa pb e ts ek idx = \<lparr> pqi_sender_idx = idx, pqi_unencrypted_ephemeral = x25519_public c e,
     pqi_encrypted_static = init_static c INITIAL_CHAIN_KEY_PQ INITIAL_CHAIN_HASH_PQ sa pb e,
     pqi_encrypted_timestamp = init_timestamp c INITIAL_CHAIN_KEY_PQ INITIAL_CHAIN_HASH_PQ sa pb e ts,
     pqi_mlkem_ephemeral_public = ek \<rparr>"

lemma init_lengths:
  assumes "crypto_ok c"
  shows "length (init_static c ck0 h0 sa pb e) = 48"
    and "length ts = 12 \<Longrightarrow> length (init_timestamp c ck0 h0 sa pb e ts) = 28"
  using assms by (simp_all add: init_static_def init_timestamp_def length_sealed crypto_ok_lengths)

lemma init_packet_wf:
  assumes "crypto_ok c" and "length ts = 12"
  shows "packet_wf (HandshakeInit (init_packet c sa pb e ts idx))"
    and "length ek = MLKEM768_PK_SIZE \<Longrightarrow> packet_wf (PqHandshakeInit (pq_init_packet c sa pb e ts ek idx))"
  using assms by (simp_all add: init_packet_def pq_init_packet_def init_lengths crypto_ok_lengths)

lemmas fold_pattern = kdf1_def [symmetric] kdf2_def [symmetric] kdf3_def [symmetric] init_h1_def [symmetric]
  init_ck2_def [symmetric] init_h2_def [symmetric]

lemma seal_init_static:
  "crypto_ok c \<Longrightarrow> aead_chacha20_seal c 48 (kdf2 c (kdf1 c ck0 (x25519_public c e)) (x25519_dh c e pb)) 0
      (x25519_public c sa) (init_h1 c h0 pb e) = Some (init_static c ck0 h0 sa pb e)"
  by (simp add: init_static_def aead_seal_sealed crypto_ok_lengths)

lemma seal_init_timestamp:
  "crypto_ok c \<Longrightarrow> length ts = 12 \<Longrightarrow> aead_chacha20_seal c 28 (kdf2 c (init_ck2 c ck0 pb e) (x25519_dh c sa pb)) 0
      ts (init_h2 c ck0 h0 sa pb e) = Some (init_timestamp c ck0 h0 sa pb e ts)"
  by (simp add: init_timestamp_def aead_seal_sealed)

lemma format_init_eq:
  assumes "crypto_ok c" and "hs_params h = noise_params_new c sa (x25519_public c sa) pb psk"
    and "stamp (hs_stamper h) (env_stamp_now env) = Some ts" and "HANDSHAKE_INIT_SZ \<le> length dst"
  defines "body \<equiv> wire_body (HandshakeInit (init_packet c sa pb (env_ephemeral env) ts (next_idx h)))"
  shows "format_handshake_initiation c env h dst = Some (
    h\<lparr> hs_next_index := next_idx h, hs_previous := hs_state h,
       hs_state := InitSent \<lparr> sent_local_index = next_idx h,
         sent_hash = init_h3 c INITIAL_CHAIN_KEY INITIAL_CHAIN_HASH sa pb (env_ephemeral env) ts,
         sent_chaining_key = init_ck3 c INITIAL_CHAIN_KEY sa pb (env_ephemeral env),
         sent_ephemeral_private = env_ephemeral env, sent_time_sent = env_now env,
         sent_mlkem_decapsulation_key = None \<rparr>,
       hs_cookies := macs_sent c (hs_params h) (next_idx h) body (hs_cookies h) \<rparr>,
    Inr (with_macs c (hs_params h) (hs_cookies h) body))"
proof -
  have ts: "length ts = 12" using assms(3) by (rule length_stamp)
  let ?e = "env_ephemeral env"
  have len: "length body = 116"
    using init_packet_wf(1) [OF assms(1) ts] by (simp add: body_def)
  then have take: "take HANDSHAKE_INIT_SZ (fill_prefix dst body) = body @ take 32 (drop 116 dst)"
    "length (take 32 (drop 116 dst)) = 32"
    using assms(4) by (simp_all add: fill_prefix_def size_consts)
  have body: "le_bytes 4 HANDSHAKE_INIT @ le_bytes 4 (next_idx h) @ x25519_public c ?e @
      init_static c INITIAL_CHAIN_KEY INITIAL_CHAIN_HASH sa pb ?e @
      init_timestamp c INITIAL_CHAIN_KEY INITIAL_CHAIN_HASH sa pb ?e ts = body"
    by (simp add: body_def init_packet_def)
  show ?thesis
    using assms(4)
    by (simp add: format_handshake_initiation_def inc_index_eq assms(2,3) noise_params_new_def Let_def
        fold_pattern init_h3_def init_ck3_def seal_init_static [OF assms(1)] seal_init_timestamp [OF assms(1) ts]
        body take append_macs_eq [OF assms(1) take(2)])
qed

lemma format_pq_init_eq:
  assumes "crypto_ok c" and "hs_params h = noise_params_new c sa (x25519_public c sa) pb psk"
    and "stamp (hs_stamper h) (env_stamp_now env) = Some ts" and "PQ_HANDSHAKE_INIT_SZ \<le> length dst"
    and "mlkem_keygen c (env_kem env) = (dk, ek)"
  defines "body \<equiv> wire_body (PqHandshakeInit (pq_init_packet c sa pb (env_ephemeral env) ts ek (next_idx h)))"
  shows "format_pq_handshake_initiation c env h dst = Some (
    h\<lparr> hs_next_index := next_idx h, hs_previous := hs_state h,
       hs_state := InitSent \<lparr> sent_local_index = next_idx h,
         sent_hash = b2s_hash c (init_h3 c INITIAL_CHAIN_KEY_PQ INITIAL_CHAIN_HASH_PQ sa pb (env_ephemeral env) ts) ek,
         sent_chaining_key = init_ck3 c INITIAL_CHAIN_KEY_PQ sa pb (env_ephemeral env),
         sent_ephemeral_private = env_ephemeral env, sent_time_sent = env_now env,
         sent_mlkem_decapsulation_key = Some dk \<rparr>,
       hs_cookies := macs_sent c (hs_params h) (next_idx h) body (hs_cookies h) \<rparr>,
    Inr (with_macs c (hs_params h) (hs_cookies h) body))"
proof -
  have ts: "length ts = 12" using assms(3) by (rule length_stamp)
  let ?e = "env_ephemeral env"
  have ek: "length ek = MLKEM768_PK_SIZE" using crypto_ok_lengths(9) [OF assms(1), of "env_kem env"] assms(5) by simp
  then have len: "length body = 1300"
    using init_packet_wf(2) [OF assms(1) ts] by (simp add: body_def size_consts)
  then have take: "take PQ_HANDSHAKE_INIT_SZ (fill_prefix dst body) = body @ take 32 (drop 1300 dst)"
    "length (take 32 (drop 1300 dst)) = 32"
    using assms(4) by (simp_all add: fill_prefix_def size_consts)
  have body: "le_bytes 4 PQ_HANDSHAKE_INIT @ le_bytes 4 (next_idx h) @ x25519_public c ?e @
      init_static c INITIAL_CHAIN_KEY_PQ INITIAL_CHAIN_HASH_PQ sa pb ?e @
      init_timestamp c INITIAL_CHAIN_KEY_PQ INITIAL_CHAIN_HASH_PQ sa pb ?e ts @ ek = body"
    by (simp add: body_def pq_init_packet_def)
  show ?thesis
    using assms(4)
    by (simp add: format_pq_handshake_initiation_def inc_index_eq assms(2,3,5) noise_params_new_def Let_def
        fold_pattern init_h3_def init_ck3_def seal_init_static [OF assms(1)] seal_init_timestamp [OF assms(1) ts]
        body take append_macs_eq [OF assms(1) take(2)])
qed

text \<open>The responder side, for a packet of an initiator whose static secret is \<open>sa\<close>.\<close>

lemma dh_responder:
  assumes "crypto_ok c"
  shows "x25519_dh c sb (x25519_public c e) = x25519_dh c e (x25519_public c sb)"
  using assms by (rule crypto_ok_dh)

lemma open_init_static:
  assumes "crypto_ok c"
  shows "aead_chacha20_open c KEY_LEN (kdf2 c (kdf1 c ck0 (x25519_public c e)) (x25519_dh c e pb)) 0
      (init_static c ck0 h0 sa pb e) (init_h1 c h0 pb e) = Some (Inr (x25519_public c sa))"
  using assms by (simp add: init_static_def aead_open_sealed crypto_ok_lengths KEY_LEN_def)

lemma open_init_timestamp:
  assumes "crypto_ok c" and "length ts = 12"
  shows "aead_chacha20_open c TIMESTAMP_LEN (kdf2 c (init_ck2 c ck0 pb e) (x25519_dh c sa pb)) 0
      (init_timestamp c ck0 h0 sa pb e ts) (init_h2 c ck0 h0 sa pb e) = Some (Inr ts)"
  using assms by (simp add: init_timestamp_def aead_open_sealed TIMESTAMP_LEN_def)

lemma parse_anon_eq:
  assumes "crypto_ok c"
  shows "parse_handshake_anon c sb (x25519_public c sb) (init_packet c sa (x25519_public c sb) e ts idx) =
      Some (Inr \<lparr> hh_peer_index = idx, hh_peer_static_public = x25519_public c sa \<rparr>)"
    and "parse_pq_handshake_anon c sb (x25519_public c sb) (pq_init_packet c sa (x25519_public c sb) e ts ek idx) =
      Some (Inr \<lparr> hh_peer_index = idx, hh_peer_static_public = x25519_public c sa \<rparr>)"
  by (simp_all add: parse_handshake_anon_def parse_pq_handshake_anon_def init_packet_def pq_init_packet_def
      Let_def dh_responder [OF assms, of sb e] fold_pattern open_init_static [OF assms])

lemma receive_init_eq:
  assumes "crypto_ok c" and "hs_params h = noise_params_new c sb (x25519_public c sb) (x25519_public c sa) psk"
    and "length ts = 12" and "tai64n_parse ts = Inr t" and "after t (hs_last_handshake_timestamp h)"
  shows "receive_handshake_initialization c env h (init_packet c sa (x25519_public c sb) e ts idx) dst =
    format_handshake_response c env (h\<lparr> hs_last_handshake_timestamp := t, hs_previous := hs_state h,
      hs_state := InitReceived (init_h3 c INITIAL_CHAIN_KEY INITIAL_CHAIN_HASH sa (x25519_public c sb) e ts)
        (init_ck3 c INITIAL_CHAIN_KEY sa (x25519_public c sb) e) (x25519_public c e) idx None \<rparr>) dst"
  by (simp add: receive_handshake_initialization_def init_packet_def assms(2,4,5) noise_params_new_def Let_def
      dh_responder [OF assms(1), of sb e] dh_responder [OF assms(1), of sb sa] fold_pattern init_h3_def init_ck3_def
      open_init_static [OF assms(1)] open_init_timestamp [OF assms(1,3)])

lemma receive_pq_init_eq:
  assumes "crypto_ok c" and "hs_params h = noise_params_new c sb (x25519_public c sb) (x25519_public c sa) psk"
    and "length ts = 12" and "tai64n_parse ts = Inr t" and "after t (hs_last_handshake_timestamp h)"
  shows "receive_pq_handshake_initialization c env h (pq_init_packet c sa (x25519_public c sb) e ts ek idx) dst =
    format_pq_handshake_response c env (h\<lparr> hs_last_handshake_timestamp := t, hs_previous := hs_state h,
      hs_state := InitReceived (b2s_hash c (init_h3 c INITIAL_CHAIN_KEY_PQ INITIAL_CHAIN_HASH_PQ sa (x25519_public c sb) e ts) ek)
        (init_ck3 c INITIAL_CHAIN_KEY_PQ sa (x25519_public c sb) e) (x25519_public c e) idx (Some ek) \<rparr>) dst"
  by (simp add: receive_pq_handshake_initialization_def pq_init_packet_def assms(2,4,5) noise_params_new_def Let_def
      dh_responder [OF assms(1), of sb e] dh_responder [OF assms(1), of sb sa] fold_pattern init_h3_def init_ck3_def
      open_init_static [OF assms(1)] open_init_timestamp [OF assms(1,3)])

text \<open>The responses. \<open>K\<close> is the chaining key before the preshared key is mixed in.\<close>

definition resp_packet :: "crypto \<Rightarrow> u32 \<Rightarrow> u32 \<Rightarrow> bytes \<Rightarrow> bytes \<Rightarrow> bytes \<Rightarrow> bytes \<Rightarrow> handshake_response" where
  "resp_packet c j i f K H psk = \<lparr> hr_sender_idx = j, hr_receiver_idx = i, hr_unencrypted_ephemeral = x25519_public c f,
     hr_encrypted_nothing = resp_nothing c K H psk \<rparr>"

definition pq_resp_packet ::
  "crypto \<Rightarrow> u32 \<Rightarrow> u32 \<Rightarrow> bytes \<Rightarrow> bytes \<Rightarrow> bytes \<Rightarrow> bytes \<Rightarrow> bytes \<Rightarrow> pq_handshake_response" where
  "pq_resp_packet c j i f K H psk ct = \<lparr> pqr_sender_idx = j, pqr_receiver_idx = i,
     pqr_unencrypted_ephemeral = x25519_public c f, pqr_encrypted_nothing = resp_nothing c K H psk,
     pqr_mlkem_ciphertext = ct \<rparr>"

lemma resp_packet_wf:
  assumes "crypto_ok c"
  shows "packet_wf (HandshakeResponse (resp_packet c j i f K H psk))"
    and "length ct = MLKEM768_CT_SIZE \<Longrightarrow> packet_wf (PqHandshakeResponse (pq_resp_packet c j i f K H psk ct))"
  using assms
  by (simp_all add: resp_packet_def pq_resp_packet_def resp_nothing_def length_sealed crypto_ok_lengths)

definition responder_session :: "crypto \<Rightarrow> u32 \<Rightarrow> u32 \<Rightarrow> bytes \<Rightarrow> bytes \<Rightarrow> session" where
  "responder_session c j i K psk =
    session_new j i (key_to_responder c (kdf1 c K psk)) (key_to_initiator c (kdf1 c K psk))"

definition initiator_session :: "crypto \<Rightarrow> u32 \<Rightarrow> u32 \<Rightarrow> bytes \<Rightarrow> bytes \<Rightarrow> session" where
  "initiator_session c i j K psk =
    session_new i j (key_to_initiator c (kdf1 c K psk)) (key_to_responder c (kdf1 c K psk))"

lemma seal_resp_nothing:
  "crypto_ok c \<Longrightarrow> aead_chacha20_seal c 16 (kdf3 c K psk) 0 [] (b2s_hash c H (kdf2 c K psk)) = Some (resp_nothing c K H psk)"
  by (simp add: resp_nothing_def aead_seal_sealed)

lemma open_resp_nothing:
  "crypto_ok c \<Longrightarrow> aead_chacha20_open c 0 (kdf3 c K psk) 0 (resp_nothing c K H psk) (b2s_hash c H (kdf2 c K psk)) = Some (Inr [])"
  by (simp add: resp_nothing_def aead_open_sealed)

lemmas session_keys = responder_session_def initiator_session_def key_to_responder_def key_to_initiator_def
  psk_bytes_def [symmetric]

lemma format_resp_eq:
  fixes env :: env
  assumes "crypto_ok c" and "hs_state h = InitReceived hash ck pe i ek" and "HANDSHAKE_RESP_SZ \<le> length dst"
  defines "f \<equiv> env_ephemeral env" and "psk \<equiv> psk_bytes (np_preshared_key (hs_params h))"
  defines "K \<equiv> resp_ck c ck (x25519_public c f) (x25519_dh c f pe) (x25519_dh c f (np_peer_static_public (hs_params h))) None"
    and "H \<equiv> resp_h c hash (x25519_public c f) None"
  defines "body \<equiv> wire_body (HandshakeResponse (resp_packet c (next_idx h) i f K H psk))"
  shows "format_handshake_response c env h dst = Some (
    h\<lparr> hs_next_index := next_idx h, hs_state := HsNone,
       hs_cookies := macs_sent c (hs_params h) (next_idx h) body (hs_cookies h) \<rparr>,
    Inr (with_macs c (hs_params h) (hs_cookies h) body, responder_session c (next_idx h) i K psk))"
proof -
  have len: "length body = 60"
    using resp_packet_wf(1) [OF assms(1)] by (simp add: body_def resp_packet_def)
  then have take: "take HANDSHAKE_RESP_SZ (fill_prefix dst body) = body @ take 32 (drop 60 dst)"
    "length (take 32 (drop 60 dst)) = 32"
    using assms(3) by (simp_all add: fill_prefix_def size_consts)
  have nx: "next_idx (h\<lparr>hs_state := HsNone\<rparr>) = next_idx h" by (simp add: next_idx_def inc_index_def Let_def)
  have body: "le_bytes 4 HANDSHAKE_RESP @ le_bytes 4 (next_idx h) @ le_bytes 4 i @ x25519_public c f @
      resp_nothing c K H psk = body"
    by (simp add: body_def resp_packet_def)
  have K: "kdf1 c (kdf1 c (kdf1 c ck (x25519_public c f)) (x25519_dh c f pe)) (x25519_dh c f (np_peer_static_public (hs_params h))) = K"
    and H: "b2s_hash c hash (x25519_public c f) = H"
    by (simp_all add: K_def H_def)
  show ?thesis
    using assms(3)
    by (simp add: format_handshake_response_def assms(2) inc_index_eq nx Let_def f_def [symmetric]
        kdf1_def [symmetric] kdf2_def [symmetric] kdf3_def [symmetric] psk_bytes_def [symmetric] psk_def [symmetric]
        K H seal_resp_nothing [OF assms(1)] body take append_macs_eq [OF assms(1) take(2)] session_keys)
qed

lemma format_pq_resp_eq:
  fixes env :: env
  assumes "crypto_ok c" and "hs_state h = InitReceived hash ck pe i (Some ek)" and "PQ_HANDSHAKE_RESP_SZ \<le> length dst"
    and "length ek = MLKEM768_PK_SIZE" and "mlkem_ek_ok c ek" and "mlkem_encaps c ek (env_kem env) = (ct, ss)"
  defines "f \<equiv> env_ephemeral env" and "psk \<equiv> psk_bytes (np_preshared_key (hs_params h))"
  defines "K \<equiv> resp_ck c ck (x25519_public c f) (x25519_dh c f pe) (x25519_dh c f (np_peer_static_public (hs_params h))) (Some (ct, ss))"
    and "H \<equiv> resp_h c hash (x25519_public c f) (Some (ct, ss))"
  defines "body \<equiv> wire_body (PqHandshakeResponse (pq_resp_packet c (next_idx h) i f K H psk ct))"
  shows "format_pq_handshake_response c env h dst = Some (
    h\<lparr> hs_next_index := next_idx h, hs_state := HsNone,
       hs_cookies := macs_sent c (hs_params h) (next_idx h) body (hs_cookies h) \<rparr>,
    Inr (with_macs c (hs_params h) (hs_cookies h) body, responder_session c (next_idx h) i K psk))"
proof -
  have ct: "length ct = MLKEM768_CT_SIZE" using crypto_ok_lengths(10) [OF assms(1), of ek "env_kem env"] assms(6) by simp
  then have len: "length body = 1148"
    using resp_packet_wf(2) [OF assms(1) ct] by (simp add: body_def pq_resp_packet_def size_consts)
  then have take: "take PQ_HANDSHAKE_RESP_SZ (fill_prefix dst body) = body @ take 32 (drop 1148 dst)"
    "length (take 32 (drop 1148 dst)) = 32"
    using assms(3) by (simp_all add: fill_prefix_def size_consts)
  have nx: "next_idx (h\<lparr>hs_state := HsNone\<rparr>) = next_idx h" by (simp add: next_idx_def inc_index_def Let_def)
  have body: "le_bytes 4 PQ_HANDSHAKE_RESP @ le_bytes 4 (next_idx h) @ le_bytes 4 i @ x25519_public c f @
      resp_nothing c K H psk @ ct = body"
    by (simp add: body_def pq_resp_packet_def)
  have K: "kdf1 c (kdf1 c (kdf1 c (kdf1 c ck (x25519_public c f)) (x25519_dh c f pe))
      (x25519_dh c f (np_peer_static_public (hs_params h)))) ss = K"
    and H: "b2s_hash c (b2s_hash c hash (x25519_public c f)) ct = H"
    by (simp_all add: K_def H_def)
  show ?thesis
    using assms(3)
    by (simp add: format_pq_handshake_response_def assms(2,4,5,6) inc_index_eq nx Let_def f_def [symmetric]
        kdf1_def [symmetric] kdf2_def [symmetric] kdf3_def [symmetric] psk_bytes_def [symmetric] psk_def [symmetric]
        K H seal_resp_nothing [OF assms(1)] body take append_macs_eq [OF assms(1) take(2)] session_keys)
qed

definition response_taken :: "env \<Rightarrow> handshake_init_sent_state \<Rightarrow> bool \<Rightarrow> handshake \<Rightarrow> handshake" where
  "response_taken env s is_previous h =
    (let h = h\<lparr> hs_last_rtt := Some (of_nat (as_millis (duration_since (env_now env) (sent_time_sent s)))) \<rparr>
     in if is_previous then h\<lparr> hs_previous := HsNone \<rparr> else h\<lparr> hs_state := HsNone \<rparr>)"

lemma receive_resp_eq:
  fixes f :: bytes
  assumes "crypto_ok c" and "awaiting h i = Some (s, b)" and "sent_mlkem_decapsulation_key s = None"
  defines "psk \<equiv> psk_bytes (np_preshared_key (hs_params h))"
  defines "K \<equiv> resp_ck c (sent_chaining_key s) (x25519_public c f) (x25519_dh c (sent_ephemeral_private s) (x25519_public c f))
      (x25519_dh c (np_static_private (hs_params h)) (x25519_public c f)) None"
    and "H \<equiv> resp_h c (sent_hash s) (x25519_public c f) None"
  shows "receive_handshake_response c env h (resp_packet c j i f K H psk) =
    Some (response_taken env s b h, Inr (initiator_session c (sent_local_index s) j K psk))"
proof -
  have K: "kdf1 c (kdf1 c (kdf1 c (sent_chaining_key s) (x25519_public c f)) (x25519_dh c (sent_ephemeral_private s) (x25519_public c f)))
      (x25519_dh c (np_static_private (hs_params h)) (x25519_public c f)) = K"
    and H: "b2s_hash c (sent_hash s) (x25519_public c f) = H"
    by (simp_all add: K_def H_def)
  show ?thesis
    by (simp add: receive_handshake_response_def resp_packet_def assms(2,3) Let_def
        kdf1_def [symmetric] kdf2_def [symmetric] kdf3_def [symmetric] psk_bytes_def [symmetric] psk_def [symmetric]
        K H open_resp_nothing [OF assms(1)] session_keys response_taken_def)
qed

lemma receive_pq_resp_eq:
  fixes f :: bytes
  assumes "crypto_ok c" and "awaiting h i = Some (s, b)" and "sent_mlkem_decapsulation_key s = Some dk"
    and "length ct = MLKEM768_CT_SIZE" and "mlkem_decaps c dk ct = Some ss"
  defines "psk \<equiv> psk_bytes (np_preshared_key (hs_params h))"
  defines "K \<equiv> resp_ck c (sent_chaining_key s) (x25519_public c f) (x25519_dh c (sent_ephemeral_private s) (x25519_public c f))
      (x25519_dh c (np_static_private (hs_params h)) (x25519_public c f)) (Some (ct, ss))"
    and "H \<equiv> resp_h c (sent_hash s) (x25519_public c f) (Some (ct, ss))"
  shows "receive_pq_handshake_response c env h (pq_resp_packet c j i f K H psk ct) =
    Some (response_taken env s b h, Inr (initiator_session c (sent_local_index s) j K psk))"
proof -
  have K: "kdf1 c (kdf1 c (kdf1 c (kdf1 c (sent_chaining_key s) (x25519_public c f)) (x25519_dh c (sent_ephemeral_private s) (x25519_public c f)))
      (x25519_dh c (np_static_private (hs_params h)) (x25519_public c f))) ss = K"
    and H: "b2s_hash c (b2s_hash c (sent_hash s) (x25519_public c f)) ct = H"
    by (simp_all add: K_def H_def)
  show ?thesis
    by (simp add: receive_pq_handshake_response_def pq_resp_packet_def assms(2,3,4,5) Let_def
        kdf1_def [symmetric] kdf2_def [symmetric] kdf3_def [symmetric] psk_bytes_def [symmetric] psk_def [symmetric]
        K H open_resp_nothing [OF assms(1)] session_keys response_taken_def)
qed

section \<open>Agreement\<close>

lemma parse_with_macs:
  assumes "crypto_ok c" and "packet_wf p" and "is_pq_packet p \<longrightarrow> pq" and "macs_len p = 32"
  shows "parse_incoming_packet pq (with_macs c np k (wire_body p)) = Inr p"
  using with_macs_prefix [of c np k "wire_body p"] parse_wire_body [OF assms(2,3)] assms(1,4) by auto

lemma tai64n_parse_12: "length ts = 12 \<Longrightarrow> \<exists>t. tai64n_parse ts = Inr t"
  by (simp add: tai64n_parse_def)

lemma noise_params_new_sel [simp]:
  "np_static_public (noise_params_new c sk pk pp psk) = pk"
  "np_static_private (noise_params_new c sk pk pp psk) = sk"
  "np_peer_static_public (noise_params_new c sk pk pp psk) = pp"
  "np_static_shared (noise_params_new c sk pk pp psk) = x25519_dh c sk pp"
  "np_sending_mac1_key (noise_params_new c sk pk pp psk) = b2s_hash c LABEL_MAC1 pp"
  "np_preshared_key (noise_params_new c sk pk pp psk) = psk"
  by (simp_all add: noise_params_new_def Let_def)

text \<open>The responder's session, and any state of the initiator that still awaits the response.\<close>

lemma classical_agreement:
  assumes ok: "crypto_ok c"
    and pa: "hs_params ha = noise_params_new c sa (x25519_public c sa) (x25519_public c sb) psk"
    and pb: "hs_params hb = noise_params_new c sb (x25519_public c sb) (x25519_public c sa) psk"
    and ts: "stamp (hs_stamper ha) (env_stamp_now ea) = Some ts" "tai64n_parse ts = Inr t"
    and fresh: "after t (hs_last_handshake_timestamp hb)"
    and bufs: "HANDSHAKE_INIT_SZ \<le> length d1" "HANDSHAKE_RESP_SZ \<le> length d2"
  shows "\<exists>ha1 m1 p hb1 m2 q i j k1 k2 s.
    format_handshake_initiation c ea ha d1 = Some (ha1, Inr m1) \<and>
    parse_incoming_packet pq m1 = Inr (HandshakeInit p) \<and>
    parse_handshake_anon c sb (x25519_public c sb) p =
      Some (Inr \<lparr> hh_peer_index = i, hh_peer_static_public = x25519_public c sa \<rparr>) \<and>
    receive_handshake_initialization c eb hb p d2 = Some (hb1, Inr (m2, session_new j i k1 k2)) \<and>
    parse_incoming_packet pq m2 = Inr (HandshakeResponse q) \<and>
    hs_params ha1 = hs_params ha \<and> hs_state ha1 = InitSent s \<and> awaiting ha1 i = Some (s, False) \<and>
    hr_receiver_idx q = i \<and>
    (\<forall>ha' b. hs_params ha' = hs_params ha \<longrightarrow> awaiting ha' i = Some (s, b) \<longrightarrow>
      receive_handshake_response c ea' ha' q = Some (response_taken ea' s b ha', Inr (session_new i j k2 k1)))"
proof -
  let ?pb = "x25519_public c sb" and ?e = "env_ephemeral ea" and ?f = "env_ephemeral eb" and ?i = "next_idx ha"
  let ?h3 = "init_h3 c INITIAL_CHAIN_KEY INITIAL_CHAIN_HASH sa ?pb ?e ts"
  let ?ck = "init_ck3 c INITIAL_CHAIN_KEY sa ?pb ?e"
  let ?p = "init_packet c sa ?pb ?e ts ?i"
  let ?hb = "hb\<lparr> hs_last_handshake_timestamp := t, hs_previous := hs_state hb,
      hs_state := InitReceived ?h3 ?ck (x25519_public c ?e) ?i None \<rparr>"
  let ?K = "resp_ck c ?ck (x25519_public c ?f) (x25519_dh c ?f (x25519_public c ?e)) (x25519_dh c ?f (x25519_public c sa)) None"
  let ?H = "resp_h c ?h3 (x25519_public c ?f) None"
  let ?q = "resp_packet c (next_idx ?hb) ?i ?f ?K ?H (psk_bytes psk)"
  have len: "length ts = 12" using ts(1) by (rule length_stamp)
  note f = format_init_eq [OF ok pa ts(1) bufs(1)]
  note r = receive_init_eq [OF ok pb len ts(2) fresh]
  have g: "format_handshake_response c eb ?hb d2 = Some (?hb\<lparr> hs_next_index := next_idx ?hb, hs_state := HsNone,
       hs_cookies := macs_sent c (hs_params ?hb) (next_idx ?hb) (wire_body (HandshakeResponse ?q)) (hs_cookies ?hb) \<rparr>,
      Inr (with_macs c (hs_params ?hb) (hs_cookies ?hb) (wire_body (HandshakeResponse ?q)),
        responder_session c (next_idx ?hb) ?i ?K (psk_bytes psk)))"
    using format_resp_eq [OF ok _ bufs(2), of ?hb] pb by (simp del: wire_body.simps resp_ck.simps resp_h.simps)
  have q: "receive_handshake_response c ea' ha' ?q =
      Some (response_taken ea' s b ha', Inr (initiator_session c ?i (next_idx ?hb) ?K (psk_bytes psk)))"
    if "hs_params ha' = hs_params ha" "awaiting ha' ?i = Some (s, b)"
      "sent_local_index s = ?i" "sent_hash s = ?h3" "sent_chaining_key s = ?ck" "sent_ephemeral_private s = ?e"
      "sent_mlkem_decapsulation_key s = None" for ha' s b
    using receive_resp_eq [OF ok that(2,7), where j = "next_idx ?hb" and f = ?f and env = ea'] that pa
      crypto_ok_dh [OF ok, of ?e ?f] crypto_ok_dh [OF ok, of sa ?f]
    by simp
  show ?thesis
    apply (intro exI conjI)
             apply (rule f)
            apply (rule parse_with_macs [OF ok init_packet_wf(1) [OF ok len]]; simp)
           apply (rule parse_anon_eq(1) [OF ok])
          apply (simp only: r g responder_session_def)
         apply (rule parse_with_macs [OF ok resp_packet_wf(1) [OF ok]]; simp)
        apply simp
       apply simp
      apply (simp add: awaiting_def)
     apply (simp add: resp_packet_def)
    apply (intro allI impI)
    apply (simp only: initiator_session_def [symmetric])
    apply (rule q; simp)
    done
qed

lemma pq_agreement:
  assumes ok: "crypto_ok c"
    and pa: "hs_params ha = noise_params_new c sa (x25519_public c sa) (x25519_public c sb) psk"
    and pb: "hs_params hb = noise_params_new c sb (x25519_public c sb) (x25519_public c sa) psk"
    and ts: "stamp (hs_stamper ha) (env_stamp_now ea) = Some ts" "tai64n_parse ts = Inr t"
    and fresh: "after t (hs_last_handshake_timestamp hb)"
    and kem: "mlkem_keygen c (env_kem ea) = (dk, ek)" "mlkem_encaps c ek (env_kem eb) = (ct, ss)"
      "mlkem_decaps c dk ct = Some ss"
    and bufs: "PQ_HANDSHAKE_INIT_SZ \<le> length d1" "PQ_HANDSHAKE_RESP_SZ \<le> length d2"
  shows "\<exists>ha1 m1 p hb1 m2 q i j k1 k2 s.
    format_pq_handshake_initiation c ea ha d1 = Some (ha1, Inr m1) \<and>
    parse_incoming_packet True m1 = Inr (PqHandshakeInit p) \<and>
    parse_pq_handshake_anon c sb (x25519_public c sb) p =
      Some (Inr \<lparr> hh_peer_index = i, hh_peer_static_public = x25519_public c sa \<rparr>) \<and>
    receive_pq_handshake_initialization c eb hb p d2 = Some (hb1, Inr (m2, session_new j i k1 k2)) \<and>
    parse_incoming_packet True m2 = Inr (PqHandshakeResponse q) \<and>
    hs_params ha1 = hs_params ha \<and> hs_state ha1 = InitSent s \<and> awaiting ha1 i = Some (s, False) \<and>
    pqr_receiver_idx q = i \<and>
    (\<forall>ha' b. hs_params ha' = hs_params ha \<longrightarrow> awaiting ha' i = Some (s, b) \<longrightarrow>
      receive_pq_handshake_response c ea' ha' q = Some (response_taken ea' s b ha', Inr (session_new i j k2 k1)))"
proof -
  let ?pb = "x25519_public c sb" and ?e = "env_ephemeral ea" and ?f = "env_ephemeral eb" and ?i = "next_idx ha"
  let ?h3 = "b2s_hash c (init_h3 c INITIAL_CHAIN_KEY_PQ INITIAL_CHAIN_HASH_PQ sa ?pb ?e ts) ek"
  let ?ck = "init_ck3 c INITIAL_CHAIN_KEY_PQ sa ?pb ?e"
  let ?p = "pq_init_packet c sa ?pb ?e ts ek ?i"
  let ?hb = "hb\<lparr> hs_last_handshake_timestamp := t, hs_previous := hs_state hb,
      hs_state := InitReceived ?h3 ?ck (x25519_public c ?e) ?i (Some ek) \<rparr>"
  let ?K = "resp_ck c ?ck (x25519_public c ?f) (x25519_dh c ?f (x25519_public c ?e)) (x25519_dh c ?f (x25519_public c sa)) (Some (ct, ss))"
  let ?H = "resp_h c ?h3 (x25519_public c ?f) (Some (ct, ss))"
  let ?q = "pq_resp_packet c (next_idx ?hb) ?i ?f ?K ?H (psk_bytes psk) ct"
  have len: "length ts = 12" using ts(1) by (rule length_stamp)
  have ek: "length ek = MLKEM768_PK_SIZE" "mlkem_ek_ok c ek" and ct: "length ct = MLKEM768_CT_SIZE"
    using crypto_ok_lengths(9) [OF ok, of "env_kem ea"] crypto_ok_lengths(10) [OF ok, of ek "env_kem eb"]
      crypto_ok_keygen [OF ok, of "env_kem ea"] kem by simp_all
  note f = format_pq_init_eq [OF ok pa ts(1) bufs(1) kem(1)]
  note r = receive_pq_init_eq [OF ok pb len ts(2) fresh]
  have g: "format_pq_handshake_response c eb ?hb d2 = Some (?hb\<lparr> hs_next_index := next_idx ?hb, hs_state := HsNone,
       hs_cookies := macs_sent c (hs_params ?hb) (next_idx ?hb) (wire_body (PqHandshakeResponse ?q)) (hs_cookies ?hb) \<rparr>,
      Inr (with_macs c (hs_params ?hb) (hs_cookies ?hb) (wire_body (PqHandshakeResponse ?q)),
        responder_session c (next_idx ?hb) ?i ?K (psk_bytes psk)))"
    using format_pq_resp_eq [OF ok _ bufs(2) ek kem(2), of ?hb] pb by (simp del: wire_body.simps resp_ck.simps resp_h.simps)
  have q: "receive_pq_handshake_response c ea' ha' ?q =
      Some (response_taken ea' s b ha', Inr (initiator_session c ?i (next_idx ?hb) ?K (psk_bytes psk)))"
    if "hs_params ha' = hs_params ha" "awaiting ha' ?i = Some (s, b)"
      "sent_local_index s = ?i" "sent_hash s = ?h3" "sent_chaining_key s = ?ck" "sent_ephemeral_private s = ?e"
      "sent_mlkem_decapsulation_key s = Some dk" for ha' s b
    using receive_pq_resp_eq [OF ok that(2,7) ct kem(3), where j = "next_idx ?hb" and f = ?f and env = ea'] that pa
      crypto_ok_dh [OF ok, of ?e ?f] crypto_ok_dh [OF ok, of sa ?f]
    by simp
  show ?thesis
    apply (intro exI conjI)
             apply (rule f)
            apply (rule parse_with_macs [OF ok init_packet_wf(2) [OF ok len ek(1)]]; simp)
           apply (rule parse_anon_eq(2) [OF ok])
          apply (simp only: r g responder_session_def)
         apply (rule parse_with_macs [OF ok resp_packet_wf(2) [OF ok ct]]; simp)
        apply simp
       apply simp
      apply (simp add: awaiting_def)
     apply (simp add: pq_resp_packet_def)
    apply (intro allI impI)
    apply (simp only: initiator_session_def [symmetric])
    apply (rule q; simp)
    done
qed

definition appended_cookies :: "crypto \<Rightarrow> handshake \<Rightarrow> u32 \<Rightarrow> bytes \<Rightarrow> cookies" where
  "appended_cookies c h i d = hs_cookies (fst (append_mac1_and_mac2 c h i d))"

definition appended_bytes :: "crypto \<Rightarrow> handshake \<Rightarrow> u32 \<Rightarrow> bytes \<Rightarrow> bytes" where
  "appended_bytes c h i d = projr (snd (append_mac1_and_mac2 c h i d))"

lemma append_macs_frame:
  "append_mac1_and_mac2 c h i d = (h\<lparr> hs_cookies := appended_cookies c h i d \<rparr>, Inr (appended_bytes c h i d))"
  "ck_write_cookie (appended_cookies c h i d) = ck_write_cookie (hs_cookies h)" "ck_index (appended_cookies c h i d) = i"
  by (simp_all add: append_mac1_and_mac2_def appended_cookies_def appended_bytes_def Let_def)

definition init_frame :: "env \<Rightarrow> bool \<Rightarrow> handshake \<Rightarrow> handshake \<Rightarrow> bytes wg_result \<Rightarrow> bool" where
  "init_frame e pq h h' r \<longleftrightarrow> h' = h \<and> r = Inl DestinationBufferTooSmall \<or>
    (\<exists>s m k. r = Inr m \<and> h' = h\<lparr> hs_next_index := next_idx h, hs_previous := hs_state h, hs_state := InitSent s, hs_cookies := k \<rparr>
      \<and> sent_local_index s = next_idx h \<and> (sent_mlkem_decapsulation_key s \<noteq> None \<longleftrightarrow> pq) \<and> sent_time_sent s = env_now e
      \<and> sent_ephemeral_private s = env_ephemeral e \<and> ck_write_cookie k = ck_write_cookie (hs_cookies h) \<and> ck_index k = next_idx h)"

lemma init_frameI:
  "sent_local_index s = next_idx h \<Longrightarrow> (sent_mlkem_decapsulation_key s \<noteq> None \<longleftrightarrow> pq) \<Longrightarrow> sent_time_sent s = env_now e \<Longrightarrow>
   sent_ephemeral_private s = env_ephemeral e \<Longrightarrow> ck_write_cookie k = ck_write_cookie (hs_cookies h) \<Longrightarrow> ck_index k = next_idx h \<Longrightarrow>
   init_frame e pq h (h\<lparr> hs_next_index := next_idx h, hs_previous := hs_state h, hs_state := InitSent s, hs_cookies := k \<rparr>) (Inr m)"
  by (auto simp: init_frame_def)

lemma format_init_frame:
  assumes "format_handshake_initiation c e h d = Some (h', r)"
  shows "init_frame e False h h' r"
  using assms
  by (auto simp: format_handshake_initiation_def inc_index_eq append_macs_frame Let_def bind_eq_Some_conv
      split: if_split_asm intro: init_frameI) (simp add: init_frame_def)

lemma format_pq_init_frame:
  assumes "format_pq_handshake_initiation c e h d = Some (h', r)"
  shows "init_frame e True h h' r"
  using assms
  by (auto simp: format_pq_handshake_initiation_def inc_index_eq append_macs_frame Let_def bind_eq_Some_conv
      case_prod_beta split: if_split_asm intro: init_frameI) (simp add: init_frame_def)

lemma awaiting_after_initiation:
  assumes "format_handshake_initiation c e h d = Some (h', Inr m) \<or> format_pq_handshake_initiation c e h d = Some (h', Inr m)"
    and "hs_state h = InitSent s" and "sent_local_index s = hs_next_index h"
  shows "awaiting h' (sent_local_index s) = Some (s, True) \<and> hs_params h' = hs_params h"
proof -
  have "\<exists>s'. sent_local_index s' = next_idx h \<and> hs_state h' = InitSent s' \<and> hs_previous h' = hs_state h \<and> hs_params h' = hs_params h"
    using assms(1) by (auto simp: init_frame_def dest!: format_init_frame format_pq_init_frame)
  then show ?thesis using next_idx_differs [of h] assms(2,3) by (auto simp: awaiting_def)
qed

lemma hs_next_index_initiation:
  assumes "format_handshake_initiation c e h d = Some (h', Inr m) \<or> format_pq_handshake_initiation c e h d = Some (h', Inr m)"
    and "hs_state h' = InitSent s"
  shows "sent_local_index s = hs_next_index h'"
  using assms by (auto simp: init_frame_def dest!: format_init_frame format_pq_init_frame)

text \<open>Concrete parties for the witnesses.\<close>

definition demo_instant :: instant where
  "demo_instant = \<lparr> tv_sec = 0, tv_nsec = 0 \<rparr>"

definition demo_env :: "byte \<Rightarrow> env" where
  "demo_env x = \<lparr> env_ephemeral = [x], env_kem = [x], env_stamp_now = demo_instant, env_now = demo_instant \<rparr>"

definition demo_handshake :: "bytes \<Rightarrow> bytes \<Rightarrow> u32 \<Rightarrow> handshake" where
  "demo_handshake sk peer idx = the (handshake_new plain_crypto (Some 0) demo_instant sk
     (x25519_public plain_crypto sk) (x25519_public plain_crypto peer) idx (Some (replicate 32 9)))"

definition demo_stamp :: bytes where
  "demo_stamp = be_bytes 8 TAI64_BASE @ be_bytes 4 (0 :: u32)"

definition demo_tai :: tai64n where
  "demo_tai = \<lparr> ts_secs = TAI64_BASE, ts_nano = 0 \<rparr>"

lemma demo_handshake_facts:
  "hs_params (demo_handshake sk peer idx) = noise_params_new plain_crypto sk (x25519_public plain_crypto sk)
     (x25519_public plain_crypto peer) (Some (replicate 32 9))"
  "stamp (hs_stamper (demo_handshake sk peer idx)) (env_stamp_now (demo_env x)) = Some demo_stamp"
  "tai64n_parse demo_stamp = Inr demo_tai"
  "after demo_tai (hs_last_handshake_timestamp (demo_handshake sk peer idx))"
  "hs_state (demo_handshake sk peer idx) = HsNone" "hs_previous (demo_handshake sk peer idx) = HsNone"
  by (simp_all add: demo_handshake_def handshake_new_def time_stamper_new_def stamp_def demo_env_def demo_instant_def
      duration_since_def checked_duration_since_def duration_new_def duration_add_def as_secs_def subsec_nanos_def
      demo_stamp_def demo_tai_def tai64n_parse_def after_def tai64n_zero_def TAI64_BASE_def)

text \<open>C5: key agreement of the classical handshake. Let the two parties know each other's public
  key and share the preshared key, and let the initiator's timestamp be newer than the last one
  the responder has seen. Then the initiation, sent over the wire and parsed, tells the responder
  the initiator's key, its response, sent back and parsed, completes the handshake, and the two
  sessions belong together: the receiving key and index of each is the sending key and index of
  the other.\<close>
theorem classical_handshake_agreement:
  assumes "crypto_ok c"
    and "hs_params ha = noise_params_new c sa (x25519_public c sa) (x25519_public c sb) psk"
    and "hs_params hb = noise_params_new c sb (x25519_public c sb) (x25519_public c sa) psk"
    and "stamp (hs_stamper ha) (env_stamp_now ea) = Some ts" and "tai64n_parse ts = Inr t"
    and "after t (hs_last_handshake_timestamp hb)"
    and "HANDSHAKE_INIT_SZ \<le> length d1" and "HANDSHAKE_RESP_SZ \<le> length d2"
  shows "\<exists>ha1 m1 p hb1 m2 q ha2 i j k1 k2.
    format_handshake_initiation c ea ha d1 = Some (ha1, Inr m1) \<and>
    parse_incoming_packet pq m1 = Inr (HandshakeInit p) \<and>
    parse_handshake_anon c sb (x25519_public c sb) p =
      Some (Inr \<lparr> hh_peer_index = i, hh_peer_static_public = x25519_public c sa \<rparr>) \<and>
    receive_handshake_initialization c eb hb p d2 = Some (hb1, Inr (m2, session_new j i k1 k2)) \<and>
    parse_incoming_packet pq m2 = Inr (HandshakeResponse q) \<and>
    receive_handshake_response c ea' ha1 q = Some (ha2, Inr (session_new i j k2 k1))"
  using classical_agreement [OF assms, where pq = pq] by metis

theorem classical_handshake_agreement_witness:
  "\<exists>ha1 m1 p hb1 m2 q ha2 i j k1 k2.
    format_handshake_initiation plain_crypto (demo_env 1) (demo_handshake [2] [3] 256) (replicate 148 0) = Some (ha1, Inr m1) \<and>
    parse_incoming_packet True m1 = Inr (HandshakeInit p) \<and>
    receive_handshake_initialization plain_crypto (demo_env 4) (demo_handshake [3] [2] 512) p (replicate 92 0) =
      Some (hb1, Inr (m2, session_new j i k1 k2)) \<and>
    parse_incoming_packet True m2 = Inr (HandshakeResponse q) \<and>
    receive_handshake_response plain_crypto (demo_env 5) ha1 q = Some (ha2, Inr (session_new i j k2 k1))"
proof -
  have "HANDSHAKE_INIT_SZ \<le> length (replicate 148 (0 :: byte))" "HANDSHAKE_RESP_SZ \<le> length (replicate 92 (0 :: byte))"
    by (simp_all add: size_consts)
  from classical_handshake_agreement [OF plain_crypto_ok demo_handshake_facts(1) [of "[2]" "[3]" 256]
      demo_handshake_facts(1) [of "[3]" "[2]" 512] demo_handshake_facts(2) [of "[2]" "[3]" 256 1]
      demo_handshake_facts(3) demo_handshake_facts(4) [of "[3]" "[2]" 512] this,
      where pq = True and ea' = "demo_env 5" and eb = "demo_env 4"]
  show ?thesis by blast
qed

text \<open>C6: key agreement of the hybrid handshake: the same for the messages of types 5 and 6, in
  every run in which the decapsulation gives back the encapsulated secret.\<close>
theorem pq_handshake_agreement:
  assumes "crypto_ok c"
    and "hs_params ha = noise_params_new c sa (x25519_public c sa) (x25519_public c sb) psk"
    and "hs_params hb = noise_params_new c sb (x25519_public c sb) (x25519_public c sa) psk"
    and "stamp (hs_stamper ha) (env_stamp_now ea) = Some ts" and "tai64n_parse ts = Inr t"
    and "after t (hs_last_handshake_timestamp hb)"
    and "mlkem_keygen c (env_kem ea) = (dk, ek)" and "mlkem_encaps c ek (env_kem eb) = (ct, ss)"
    and "mlkem_decaps c dk ct = Some ss"
    and "PQ_HANDSHAKE_INIT_SZ \<le> length d1" and "PQ_HANDSHAKE_RESP_SZ \<le> length d2"
  shows "\<exists>ha1 m1 p hb1 m2 q ha2 i j k1 k2.
    format_pq_handshake_initiation c ea ha d1 = Some (ha1, Inr m1) \<and>
    parse_incoming_packet True m1 = Inr (PqHandshakeInit p) \<and>
    parse_pq_handshake_anon c sb (x25519_public c sb) p =
      Some (Inr \<lparr> hh_peer_index = i, hh_peer_static_public = x25519_public c sa \<rparr>) \<and>
    receive_pq_handshake_initialization c eb hb p d2 = Some (hb1, Inr (m2, session_new j i k1 k2)) \<and>
    parse_incoming_packet True m2 = Inr (PqHandshakeResponse q) \<and>
    receive_pq_handshake_response c ea' ha1 q = Some (ha2, Inr (session_new i j k2 k1))"
  using pq_agreement [OF assms] by metis

theorem pq_handshake_agreement_witness:
  "\<exists>ha1 m1 p hb1 m2 q ha2 i j k1 k2.
    format_pq_handshake_initiation plain_crypto (demo_env 1) (demo_handshake [2] [3] 256) (replicate 1332 0) = Some (ha1, Inr m1) \<and>
    parse_incoming_packet True m1 = Inr (PqHandshakeInit p) \<and>
    receive_pq_handshake_initialization plain_crypto (demo_env 4) (demo_handshake [3] [2] 512) p (replicate 1180 0) =
      Some (hb1, Inr (m2, session_new j i k1 k2)) \<and>
    parse_incoming_packet True m2 = Inr (PqHandshakeResponse q) \<and>
    receive_pq_handshake_response plain_crypto (demo_env 5) ha1 q = Some (ha2, Inr (session_new i j k2 k1))"
proof -
  have b: "PQ_HANDSHAKE_INIT_SZ \<le> length (replicate 1332 (0 :: byte))" "PQ_HANDSHAKE_RESP_SZ \<le> length (replicate 1180 (0 :: byte))"
    by (simp_all add: size_consts)
  have k: "mlkem_keygen plain_crypto (env_kem (demo_env 1)) = ([1], replicate MLKEM768_PK_SIZE 1)"
    "mlkem_encaps plain_crypto (replicate MLKEM768_PK_SIZE 1) (env_kem (demo_env 4)) =
      (pad32 [4] @ replicate (MLKEM768_CT_SIZE - 32) 0, pad32 [4])"
    "mlkem_decaps plain_crypto [1] (pad32 [4] @ replicate (MLKEM768_CT_SIZE - 32) 0) = Some (pad32 [4])"
    by (simp_all add: plain_crypto_def demo_env_def)
  from pq_handshake_agreement [OF plain_crypto_ok demo_handshake_facts(1) [of "[2]" "[3]" 256]
      demo_handshake_facts(1) [of "[3]" "[2]" 512] demo_handshake_facts(2) [of "[2]" "[3]" 256 1]
      demo_handshake_facts(3) demo_handshake_facts(4) [of "[3]" "[2]" 512] k b,
      where ea' = "demo_env 5"]
  show ?thesis by blast
qed

text \<open>C35: a response that arrives late still completes its handshake. When the initiator has sent
  a second initiation (classical or hybrid) before the response to the first one arrives, the
  response is accepted all the same and gives the session that belongs to the responder's, and
  the second initiation stays pending.\<close>
theorem delayed_response_accepted:
  assumes "crypto_ok c"
    and "hs_params ha = noise_params_new c sa (x25519_public c sa) (x25519_public c sb) psk"
    and "hs_params hb = noise_params_new c sb (x25519_public c sb) (x25519_public c sa) psk"
    and "stamp (hs_stamper ha) (env_stamp_now ea) = Some ts" and "tai64n_parse ts = Inr t"
    and "after t (hs_last_handshake_timestamp hb)"
    and "HANDSHAKE_INIT_SZ \<le> length d1" and "HANDSHAKE_RESP_SZ \<le> length d2"
  shows "\<exists>ha1 m1 p hb1 m2 q i j k1 k2.
    format_handshake_initiation c ea ha d1 = Some (ha1, Inr m1) \<and>
    parse_incoming_packet pq m1 = Inr (HandshakeInit p) \<and>
    receive_handshake_initialization c eb hb p d2 = Some (hb1, Inr (m2, session_new j i k1 k2)) \<and>
    parse_incoming_packet pq m2 = Inr (HandshakeResponse q) \<and>
    (\<forall>e2 d3 ha2 m3. format_handshake_initiation c e2 ha1 d3 = Some (ha2, Inr m3) \<or>
        format_pq_handshake_initiation c e2 ha1 d3 = Some (ha2, Inr m3) \<longrightarrow>
      (\<exists>ha3. receive_handshake_response c ea' ha2 q = Some (ha3, Inr (session_new i j k2 k1)) \<and>
        hs_state ha3 = hs_state ha2))"
proof -
  from classical_agreement [OF assms, where pq = pq and eb = eb and ea' = ea'] obtain ha1 m1 p hb1 m2 q i j k1 k2 s where
    *: "format_handshake_initiation c ea ha d1 = Some (ha1, Inr m1)"
      "parse_incoming_packet pq m1 = Inr (HandshakeInit p)"
      "receive_handshake_initialization c eb hb p d2 = Some (hb1, Inr (m2, session_new j i k1 k2))"
      "parse_incoming_packet pq m2 = Inr (HandshakeResponse q)"
    and s: "hs_params ha1 = hs_params ha" "hs_state ha1 = InitSent s" "awaiting ha1 i = Some (s, False)"
    and resp: "\<And>ha' b. hs_params ha' = hs_params ha \<Longrightarrow> awaiting ha' i = Some (s, b) \<Longrightarrow>
      receive_handshake_response c ea' ha' q = Some (response_taken ea' s b ha', Inr (session_new i j k2 k1))"
    by blast
  have i: "sent_local_index s = i" using s(2,3) by (auto simp: awaiting_def split: if_splits handshake_state.splits)
  have n: "sent_local_index s = hs_next_index ha1" using hs_next_index_initiation [OF disjI1, OF *(1) s(2)] .
  have "receive_handshake_response c ea' ha2 q = Some (response_taken ea' s True ha2, Inr (session_new i j k2 k1))
      \<and> hs_state (response_taken ea' s True ha2) = hs_state ha2"
    if "format_handshake_initiation c e2 ha1 d3 = Some (ha2, Inr m3) \<or>
        format_pq_handshake_initiation c e2 ha1 d3 = Some (ha2, Inr m3)" for e2 d3 ha2 m3
    using awaiting_after_initiation [OF that s(2) n] i s(1) resp [of ha2 True] by (simp add: response_taken_def Let_def)
  with * show ?thesis by blast
qed

theorem delayed_response_accepted_witness:
  "\<exists>ha1 m1 p hb1 m2 q i j k1 k2 ha2 m3 ha3.
    format_handshake_initiation plain_crypto (demo_env 1) (demo_handshake [2] [3] 256) (replicate 148 0) = Some (ha1, Inr m1) \<and>
    parse_incoming_packet True m1 = Inr (HandshakeInit p) \<and>
    receive_handshake_initialization plain_crypto (demo_env 4) (demo_handshake [3] [2] 512) p (replicate 92 0) =
      Some (hb1, Inr (m2, session_new j i k1 k2)) \<and>
    parse_incoming_packet True m2 = Inr (HandshakeResponse q) \<and>
    format_handshake_initiation plain_crypto (demo_env 6) ha1 (replicate 148 0) = Some (ha2, Inr m3) \<and>
    receive_handshake_response plain_crypto (demo_env 5) ha2 q = Some (ha3, Inr (session_new i j k2 k1))"
proof -
  have b: "HANDSHAKE_INIT_SZ \<le> length (replicate 148 (0 :: byte))" "HANDSHAKE_RESP_SZ \<le> length (replicate 92 (0 :: byte))"
    by (simp_all add: size_consts)
  from delayed_response_accepted [OF plain_crypto_ok demo_handshake_facts(1) [of "[2]" "[3]" 256]
      demo_handshake_facts(1) [of "[3]" "[2]" 512] demo_handshake_facts(2) [of "[2]" "[3]" 256 1]
      demo_handshake_facts(3) demo_handshake_facts(4) [of "[3]" "[2]" 512] b,
      where pq = True and ea' = "demo_env 5" and eb = "demo_env 4"]
  obtain ha1 m1 p hb1 m2 q i j k1 k2 where
    *: "format_handshake_initiation plain_crypto (demo_env 1) (demo_handshake [2] [3] 256) (replicate 148 0) = Some (ha1, Inr m1)"
      "parse_incoming_packet True m1 = Inr (HandshakeInit p)"
      "receive_handshake_initialization plain_crypto (demo_env 4) (demo_handshake [3] [2] 512) p (replicate 92 0) =
        Some (hb1, Inr (m2, session_new j i k1 k2))"
      "parse_incoming_packet True m2 = Inr (HandshakeResponse q)"
    and late: "\<And>e2 d3 ha2 m3. format_handshake_initiation plain_crypto e2 ha1 d3 = Some (ha2, Inr m3) \<Longrightarrow>
      \<exists>ha3. receive_handshake_response plain_crypto (demo_env 5) ha2 q = Some (ha3, Inr (session_new i j k2 k1))"
    by (elim exE conjE) metis
  have "hs_params ha1 = hs_params (demo_handshake [2] [3] 256)" "hs_stamper ha1 = hs_stamper (demo_handshake [2] [3] 256)"
    using format_init_frame [OF *(1)] by (auto simp: init_frame_def)
  then have "hs_params ha1 = noise_params_new plain_crypto [2] (x25519_public plain_crypto [2]) (x25519_public plain_crypto [3]) (Some (replicate 32 9))"
    "stamp (hs_stamper ha1) (env_stamp_now (demo_env 6)) = Some demo_stamp"
    by (simp_all only: demo_handshake_facts)
  from format_init_eq [OF plain_crypto_ok this b(1)] obtain ha2 m3 where
    f: "format_handshake_initiation plain_crypto (demo_env 6) ha1 (replicate 148 0) = Some (ha2, Inr m3)" by blast
  from late [OF f] * f show ?thesis by blast
qed

end
