(* ===== verification/Handshake_Safety.thy ===== *)
theory Handshake_Safety
  imports Key_Agreement
begin

text \<open>
  Safety of the handshake state machine under every sequence of operations: which operation may
  change what (frame lemmas), a step relation that has one rule per operation of
  \<^verbatim>\<open>noise/handshake.rs\<close>, and what holds in every reachable state: timestamps only move forward, so
  no initiation is accepted twice; the two pending initiations have different indices, so no
  response is; rejected messages change nothing; no message makes the code panic; and a
  classical message never completes a hybrid handshake.
\<close>

section \<open>Frame lemmas\<close>

text \<open>The part of both initiation handlers that reads only the parameters and the packet: the
  timestamp, transcript hash and chaining key of an authentic initiation.\<close>

definition open_init ::
  "crypto \<Rightarrow> bytes \<Rightarrow> bytes \<Rightarrow> noise_params \<Rightarrow> bytes \<Rightarrow> bytes \<Rightarrow> bytes \<Rightarrow> ((tai64n \<times> bytes \<times> bytes) wg_result) option" where
  "open_init c ck0 h0 np eph enc_static enc_ts = do {
     let h = b2s_hash c (b2s_hash c h0 (np_static_public np)) eph;
     let ck = kdf1 c ck0 eph;
     let es = x25519_dh c (np_static_private np) eph;
     r \<leftarrow> aead_chacha20_open c KEY_LEN (kdf2 c ck es) 0 enc_static h;
     (case r of Inl e \<Rightarrow> Some (Inl e) | Inr pk \<Rightarrow>
       if np_peer_static_public np \<noteq> pk then Some (Inl WrongKey)
       else do {
         let h' = b2s_hash c h enc_static;
         r' \<leftarrow> aead_chacha20_open c TIMESTAMP_LEN (kdf2 c (kdf1 c ck es) (np_static_shared np)) 0 enc_ts h';
         (case r' of Inl e \<Rightarrow> Some (Inl e) | Inr ts \<Rightarrow>
           (case tai64n_parse ts of Inl e \<Rightarrow> Some (Inl e)
            | Inr t \<Rightarrow> Some (Inr (t, b2s_hash c h' enc_ts, kdf1 c (kdf1 c ck es) (np_static_shared np)))))
       })
   }"

definition take_init :: "handshake \<Rightarrow> tai64n \<Rightarrow> handshake_state \<Rightarrow> handshake" where
  "take_init h t st = h\<lparr> hs_last_handshake_timestamp := t, hs_previous := hs_state h, hs_state := st \<rparr>"

abbreviation open_classical :: "crypto \<Rightarrow> noise_params \<Rightarrow> handshake_init \<Rightarrow> ((tai64n \<times> bytes \<times> bytes) wg_result) option" where
  "open_classical c np p \<equiv> open_init c INITIAL_CHAIN_KEY INITIAL_CHAIN_HASH np (hi_unencrypted_ephemeral p)
     (hi_encrypted_static p) (hi_encrypted_timestamp p)"

abbreviation open_pq :: "crypto \<Rightarrow> noise_params \<Rightarrow> pq_handshake_init \<Rightarrow> ((tai64n \<times> bytes \<times> bytes) wg_result) option" where
  "open_pq c np p \<equiv> open_init c INITIAL_CHAIN_KEY_PQ INITIAL_CHAIN_HASH_PQ np (pqi_unencrypted_ephemeral p)
     (pqi_encrypted_static p) (pqi_encrypted_timestamp p)"

lemma try_with_Some:
  "try_with s r k = Some (s', x) \<longleftrightarrow> (\<exists>e. r = Inl e \<and> s' = s \<and> x = Inl e) \<or> (\<exists>y. r = Inr y \<and> k y = Some (s', x))"
  by (cases r) auto

lemma receive_init_open:
  "receive_handshake_initialization c e h p d = do {
     r \<leftarrow> open_classical c (hs_params h) p;
     (case r of Inl er \<Rightarrow> Some (h, Inl er)
      | Inr (t, hash, ck) \<Rightarrow>
          if after t (hs_last_handshake_timestamp h) then
            format_handshake_response c e
              (take_init h t (InitReceived hash ck (hi_unencrypted_ephemeral p) (hi_sender_idx p) None)) d
          else Some (h, Inl WrongTai64nTimestamp))
   }"
  unfolding receive_handshake_initialization_def open_init_def Let_def
    kdf1_def [symmetric] kdf2_def [symmetric] take_init_def
  by (auto simp: try_with_def split: Option.bind_splits sum.splits)

lemma receive_pq_init_open:
  "receive_pq_handshake_initialization c e h p d = do {
     r \<leftarrow> open_pq c (hs_params h) p;
     (case r of Inl er \<Rightarrow> Some (h, Inl er)
      | Inr (t, hash, ck) \<Rightarrow>
          if after t (hs_last_handshake_timestamp h) then
            format_pq_handshake_response c e
              (take_init h t (InitReceived (b2s_hash c hash (pqi_mlkem_ephemeral_public p)) ck
                (pqi_unencrypted_ephemeral p) (pqi_sender_idx p) (Some (pqi_mlkem_ephemeral_public p)))) d
          else Some (h, Inl WrongTai64nTimestamp))
   }"
  unfolding receive_pq_handshake_initialization_def open_init_def Let_def
    kdf1_def [symmetric] kdf2_def [symmetric] take_init_def
  by (auto simp: try_with_def split: Option.bind_splits sum.splits)

lemma aead_open_result:
  "aead_chacha20_open c n k i d a = Some (Inl e) \<Longrightarrow> e = InvalidAeadTag"
  "aead_chacha20_open c n k i d a = Some (Inr x) \<Longrightarrow> length x = n"
  by (auto simp: aead_chacha20_open_def split: option.splits if_splits)

lemma open_init_error:
  assumes "open_init c ck0 h0 np eph es et = Some (Inl e)"
  shows "e \<in> {InvalidAeadTag, WrongKey}"
  using assms
  by (auto simp: open_init_def Let_def tai64n_parse_def TIMESTAMP_LEN_def
      dest!: aead_open_result split: if_splits sum.splits Option.bind_splits)

lemma open_init_returns:
  assumes "crypto_ok c" and "length es = 48" and "length et = 28"
  shows "open_init c ck0 h0 np eph es et \<noteq> None"
  using assms crypto_ok_open_len [OF assms(1)]
  by (auto simp: open_init_def Let_def aead_chacha20_open_def KEY_LEN_def TIMESTAMP_LEN_def
      split: Option.bind_splits sum.splits option.splits)

text \<open>A session a handshake has just created for the local index \<open>i\<close>.\<close>

definition fresh_session :: "u32 \<Rightarrow> session \<Rightarrow> bool" where
  "fresh_session i s \<longleftrightarrow> (\<exists>j k1 k2. s = session_new i j k1 k2)"

lemma fresh_session_new [simp, intro]: "fresh_session i (session_new i j k1 k2)"
  by (auto simp: fresh_session_def)

text \<open>What \<open>format_handshake_response\<close> and its hybrid counterpart may do to the state after an
  initiation has been taken.\<close>

definition resp_frame :: "handshake \<Rightarrow> handshake \<Rightarrow> (bytes \<times> session) wg_result \<Rightarrow> bool" where
  "resp_frame h h' r \<longleftrightarrow>
     (h' = h \<and> r = Inl DestinationBufferTooSmall) \<or>
     (h' = h\<lparr> hs_state := HsNone, hs_next_index := next_idx h \<rparr> \<and> r = Inl InvalidPacket) \<or>
     (\<exists>k m s. h' = h\<lparr> hs_state := HsNone, hs_next_index := next_idx h, hs_cookies := k \<rparr> \<and> r = Inr (m, s) \<and>
        ck_write_cookie k = ck_write_cookie (hs_cookies h) \<and> ck_index k = next_idx h \<and> fresh_session (next_idx h) s)"

lemma resp_frameI [intro]:
  "resp_frame h h (Inl DestinationBufferTooSmall)"
  "resp_frame h (h\<lparr> hs_state := HsNone, hs_next_index := next_idx h \<rparr>) (Inl InvalidPacket)"
  "ck_write_cookie k = ck_write_cookie (hs_cookies h) \<Longrightarrow> ck_index k = next_idx h \<Longrightarrow> fresh_session (next_idx h) s \<Longrightarrow>
    resp_frame h (h\<lparr> hs_state := HsNone, hs_next_index := next_idx h, hs_cookies := k \<rparr>) (Inr (m, s))"
  by (auto simp: resp_frame_def)

lemma next_idx_state [simp]:
  "next_idx (h\<lparr> hs_state := st \<rparr>) = next_idx h" "next_idx (h\<lparr> hs_cookies := k \<rparr>) = next_idx h"
  "next_idx (take_init h t st) = next_idx h"
  by (simp_all add: next_idx_def inc_index_def Let_def take_init_def)

lemma format_resp_frame:
  assumes "format_handshake_response c e h d = Some (h', r)"
  shows "resp_frame h h' r"
proof (cases "length d < HANDSHAKE_RESP_SZ")
  case True
  with assms show ?thesis by (auto simp: format_handshake_response_def)
next
  case False
  with assms obtain hash ck pe i ek where st: "hs_state h = InitReceived hash ck pe i ek"
    by (auto simp: format_handshake_response_def split: handshake_state.splits)
  from assms False show ?thesis
    unfolding format_handshake_response_def st
    by (auto simp: inc_index_eq append_macs_frame Let_def bind_eq_Some_conv)
qed

lemma format_pq_resp_frame:
  assumes "format_pq_handshake_response c e h d = Some (h', r)"
  shows "resp_frame h h' r"
proof (cases "length d < PQ_HANDSHAKE_RESP_SZ")
  case True
  with assms show ?thesis by (auto simp: format_pq_handshake_response_def)
next
  case False
  with assms obtain hash ck pe i ek where st: "hs_state h = InitReceived hash ck pe i (Some ek)"
    by (auto simp: format_pq_handshake_response_def split: handshake_state.splits Option.bind_splits)
  have len: "length ek = MLKEM768_PK_SIZE"
    using assms False by (auto simp: format_pq_handshake_response_def st inc_index_eq Let_def split: if_splits)
  show ?thesis
  proof (cases "mlkem_ek_ok c ek")
    case True
    from assms False True len show ?thesis
      unfolding format_pq_handshake_response_def st
      by (auto simp: inc_index_eq append_macs_frame Let_def bind_eq_Some_conv case_prod_beta)
  next
    case bad: False
    from assms False bad len show ?thesis
      unfolding format_pq_handshake_response_def st
      by (auto simp: inc_index_eq Let_def)
  qed
qed

lemma receive_init_cases:
  assumes "receive_handshake_initialization c e h p d = Some (h', r)"
  shows "(h' = h \<and> r \<in> Inl ` {InvalidAeadTag, WrongKey, WrongTai64nTimestamp}) \<or>
    (\<exists>t hash ck. open_classical c (hs_params h) p = Some (Inr (t, hash, ck)) \<and> after t (hs_last_handshake_timestamp h) \<and>
      resp_frame (take_init h t (InitReceived hash ck (hi_unencrypted_ephemeral p) (hi_sender_idx p) None)) h' r)"
  using assms
  by (auto simp: receive_init_open dest: open_init_error format_resp_frame
      split: Option.bind_splits sum.splits if_splits)

lemma receive_pq_init_cases:
  assumes "receive_pq_handshake_initialization c e h p d = Some (h', r)"
  shows "(h' = h \<and> r \<in> Inl ` {InvalidAeadTag, WrongKey, WrongTai64nTimestamp}) \<or>
    (\<exists>t hash ck. open_pq c (hs_params h) p = Some (Inr (t, hash, ck)) \<and> after t (hs_last_handshake_timestamp h) \<and>
      resp_frame (take_init h t (InitReceived (b2s_hash c hash (pqi_mlkem_ephemeral_public p)) ck
        (pqi_unencrypted_ephemeral p) (pqi_sender_idx p) (Some (pqi_mlkem_ephemeral_public p)))) h' r)"
  using assms
  by (auto simp: receive_pq_init_open dest: open_init_error format_pq_resp_frame
      split: Option.bind_splits sum.splits if_splits)

lemma receive_resp_cases:
  assumes "receive_handshake_response c e h p = Some (h', r)"
  shows "(h' = h \<and> r \<in> Inl ` {UnexpectedPacket, WrongPacketType, InvalidAeadTag}) \<or>
    (\<exists>s b sess. awaiting h (hr_receiver_idx p) = Some (s, b) \<and> sent_mlkem_decapsulation_key s = None \<and>
      h' = response_taken e s b h \<and> r = Inr sess \<and> fresh_session (sent_local_index s) sess)"
proof (cases "awaiting h (hr_receiver_idx p)")
  case None
  with assms show ?thesis by (auto simp: receive_handshake_response_def)
next
  case (Some sb)
  obtain s b where sb: "sb = (s, b)" by (cases sb)
  show ?thesis
  proof (cases "sent_mlkem_decapsulation_key s")
    case None
    with Some sb assms show ?thesis
      unfolding receive_handshake_response_def
      by (auto simp: Let_def bind_eq_Some_conv try_with_Some response_taken_def
          dest: aead_open_result)
  next
    case (Some dk)
    with \<open>awaiting h (hr_receiver_idx p) = Some sb\<close> sb assms show ?thesis by (auto simp: receive_handshake_response_def)
  qed
qed

lemma receive_pq_resp_cases:
  assumes "receive_pq_handshake_response c e h p = Some (h', r)"
  shows "(h' = h \<and> r \<in> Inl ` {UnexpectedPacket, InvalidPacket, MlKemDecapsulationFailed, InvalidAeadTag}) \<or>
    (\<exists>s b sess. awaiting h (pqr_receiver_idx p) = Some (s, b) \<and> sent_mlkem_decapsulation_key s \<noteq> None \<and>
      h' = response_taken e s b h \<and> r = Inr sess \<and> fresh_session (sent_local_index s) sess)"
proof (cases "awaiting h (pqr_receiver_idx p)")
  case None
  with assms show ?thesis by (auto simp: receive_pq_handshake_response_def)
next
  case (Some sb)
  obtain s b where sb: "sb = (s, b)" by (cases sb)
  show ?thesis
  proof (cases "\<exists>dk ss. sent_mlkem_decapsulation_key s = Some dk \<and> length (pqr_mlkem_ciphertext p) = MLKEM768_CT_SIZE \<and>
      mlkem_decaps c dk (pqr_mlkem_ciphertext p) = Some ss")
    case True
    with Some sb assms show ?thesis
      unfolding receive_pq_handshake_response_def
      by (auto simp: Let_def bind_eq_Some_conv try_with_Some response_taken_def
          dest: aead_open_result)
  next
    case False
    with Some sb assms show ?thesis
      by (auto simp: receive_pq_handshake_response_def Let_def split: option.splits if_splits)
  qed
qed

lemma receive_cookie_cases:
  assumes "receive_cookie_reply c h p = (h', r)"
  shows "(h' = h \<and> r \<in> Inl ` {UnexpectedPacket, WrongIndex, InvalidAeadTag, InvalidPacket}) \<or>
    (\<exists>k. r = Inr () \<and> length k = 16 \<and> h' = h\<lparr> hs_cookies := (hs_cookies h)\<lparr> ck_write_cookie := Some k \<rparr> \<rparr>)"
  using assms by (auto simp: receive_cookie_reply_def Let_def split: option.splits if_splits)

section \<open>The state machine\<close>

text \<open>The four kinds of initiation and response messages, by the type of the packet.\<close>

definition receive_any_init ::
  "crypto \<Rightarrow> env \<Rightarrow> handshake \<Rightarrow> packet \<Rightarrow> bytes \<Rightarrow> (handshake \<times> (bytes \<times> session) wg_result) option" where
  "receive_any_init c e h pkt d = (case pkt of
     HandshakeInit p \<Rightarrow> receive_handshake_initialization c e h p d
   | PqHandshakeInit p \<Rightarrow> receive_pq_handshake_initialization c e h p d
   | _ \<Rightarrow> None)"

definition receive_any_response ::
  "crypto \<Rightarrow> env \<Rightarrow> handshake \<Rightarrow> packet \<Rightarrow> (handshake \<times> session wg_result) option" where
  "receive_any_response c e h pkt = (case pkt of
     HandshakeResponse p \<Rightarrow> receive_handshake_response c e h p
   | PqHandshakeResponse p \<Rightarrow> receive_pq_handshake_response c e h p
   | _ \<Rightarrow> None)"

definition format_any_init :: "crypto \<Rightarrow> env \<Rightarrow> handshake \<Rightarrow> bool \<Rightarrow> bytes \<Rightarrow> (handshake \<times> bytes wg_result) option" where
  "format_any_init c e h pq d =
    (if pq then format_pq_handshake_initiation c e h d else format_handshake_initiation c e h d)"

inductive hs_step :: "crypto \<Rightarrow> handshake \<Rightarrow> handshake \<Rightarrow> bool" for c where
  send_init: "format_any_init c e h pq d = Some (h', r) \<Longrightarrow> hs_step c h h'"
| recv_init: "receive_any_init c e h pkt d = Some (h', r) \<Longrightarrow> hs_step c h h'"
| recv_resp: "receive_any_response c e h pkt = Some (h', r) \<Longrightarrow> hs_step c h h'"
| recv_cookie: "receive_cookie_reply c h p = (h', r) \<Longrightarrow> hs_step c h h'"
| expire: "hs_step c h (set_expired h)"
| drop_cookie: "hs_step c h (clear_cookie h)"
| rekey: "handshake_set_static_private c h sk pk = Some h' \<Longrightarrow> length pk = 32 \<Longrightarrow> hs_step c h h'"

text \<open>The timestamp an initiation carries, if it is authentic for these parameters.\<close>

definition init_time :: "crypto \<Rightarrow> noise_params \<Rightarrow> packet \<Rightarrow> tai64n option" where
  "init_time c np pkt = (case (case pkt of HandshakeInit p \<Rightarrow> open_classical c np p
     | PqHandshakeInit p \<Rightarrow> open_pq c np p | _ \<Rightarrow> None) of Some (Inr (t, _)) \<Rightarrow> Some t | _ \<Rightarrow> None)"

lemma resp_frame_facts:
  assumes "resp_frame (take_init h t (InitReceived x1 x2 x3 x4 x5)) h' r"
  shows "hs_last_handshake_timestamp h' = t" "hs_previous h' = hs_state h" "\<And>s. hs_state h' \<noteq> InitSent s"
    "hs_params h' = hs_params h" "hs_stamper h' = hs_stamper h"
  using assms by (auto simp: resp_frame_def take_init_def)

lemma receive_any_init_cases:
  assumes "receive_any_init c e h pkt d = Some (h', r)"
  shows "(h' = h \<and> r \<in> Inl ` {InvalidAeadTag, WrongKey, WrongTai64nTimestamp}) \<or>
    (\<exists>t x1 x2 x3 x4 x5. init_time c (hs_params h) pkt = Some t \<and> after t (hs_last_handshake_timestamp h) \<and>
      resp_frame (take_init h t (InitReceived x1 x2 x3 x4 x5)) h' r)"
  using assms
  by (cases pkt) (auto simp: receive_any_init_def init_time_def dest!: receive_init_cases receive_pq_init_cases)

lemma receive_any_init_stale:
  assumes "init_time c (hs_params h) pkt = Some t" and "\<not> after t (hs_last_handshake_timestamp h)"
  shows "receive_any_init c e h pkt d = Some (h, Inl WrongTai64nTimestamp)"
  using assms
  by (cases pkt) (auto simp: receive_any_init_def init_time_def receive_init_open receive_pq_init_open
      split: option.splits sum.splits)

lemma receive_resp_unexpected:
  "awaiting h (hr_receiver_idx p) = None \<Longrightarrow> receive_handshake_response c e h p = Some (h, Inl UnexpectedPacket)"
  "awaiting h (pqr_receiver_idx q) = None \<Longrightarrow> receive_pq_handshake_response c e h q = Some (h, Inl UnexpectedPacket)"
  by (simp_all add: receive_handshake_response_def receive_pq_handshake_response_def)

fun resp_idx :: "packet \<Rightarrow> u32" where
  "resp_idx (HandshakeResponse p) = hr_receiver_idx p"
| "resp_idx (PqHandshakeResponse p) = pqr_receiver_idx p"
| "resp_idx _ = 0"

lemma receive_any_response_cases:
  assumes "receive_any_response c e h pkt = Some (h', r)"
  shows "(h' = h \<and> r \<in> Inl ` {UnexpectedPacket, WrongPacketType, InvalidPacket, MlKemDecapsulationFailed, InvalidAeadTag}) \<or>
    (\<exists>s b sess. awaiting h (resp_idx pkt) = Some (s, b) \<and> h' = response_taken e s b h \<and> r = Inr sess)"
  using assms
  by (cases pkt) (auto simp: receive_any_response_def dest!: receive_resp_cases receive_pq_resp_cases)

lemma receive_any_response_unexpected:
  assumes "receive_any_response c e h pkt = Some x" and "awaiting h' (resp_idx pkt) = None"
  shows "receive_any_response c e' h' pkt = Some (h', Inl UnexpectedPacket)"
  using assms by (cases pkt) (auto simp: receive_any_response_def receive_resp_unexpected)

lemma after_trans: "after a b \<Longrightarrow> after b d \<Longrightarrow> after a d"
  by (auto simp: after_def)

lemma after_irrefl: "\<not> after a a"
  by (simp add: after_def)

lemma hs_step_timestamp:
  assumes "hs_step c h h'"
  shows "hs_last_handshake_timestamp h' = hs_last_handshake_timestamp h \<or>
    after (hs_last_handshake_timestamp h') (hs_last_handshake_timestamp h)"
  using assms
proof cases
  case (send_init e pq d r)
  then have "init_frame e pq h h' r"
    by (auto simp: format_any_init_def dest: format_init_frame format_pq_init_frame split: if_splits)
  then show ?thesis by (auto simp: init_frame_def)
next
  case (recv_init e pkt d r)
  then show ?thesis using receive_any_init_cases resp_frame_facts(1) by blast
next
  case (recv_resp e pkt r)
  from receive_any_response_cases [OF this] show ?thesis by (auto simp: response_taken_def Let_def)
next
  case (recv_cookie p r)
  from receive_cookie_cases [OF this] show ?thesis by auto
qed (auto simp: set_expired_def clear_cookie_def handshake_set_static_private_def)

lemma hs_steps_timestamp:
  assumes "(hs_step c)\<^sup>*\<^sup>* h h'"
  shows "hs_last_handshake_timestamp h' = hs_last_handshake_timestamp h \<or>
    after (hs_last_handshake_timestamp h') (hs_last_handshake_timestamp h)"
  using assms
  by induction (use hs_step_timestamp after_trans in \<open>metis+\<close>)

definition idx_inv :: "handshake \<Rightarrow> bool" where
  "idx_inv h \<longleftrightarrow> (\<forall>s. hs_state h = InitSent s \<longrightarrow> sent_local_index s = hs_next_index h) \<and>
     (\<forall>s t. hs_state h = InitSent s \<longrightarrow> hs_previous h = InitSent t \<longrightarrow> sent_local_index s \<noteq> sent_local_index t)"

lemma idx_inv_frame [simp]:
  "idx_inv (h\<lparr> hs_cookies := k \<rparr>) = idx_inv h" "idx_inv (h\<lparr> hs_params := np \<rparr>) = idx_inv h"
  by (simp_all add: idx_inv_def)

lemma idx_inv_response_taken: "idx_inv h \<Longrightarrow> idx_inv (response_taken e s b h)"
  by (cases b) (simp_all add: idx_inv_def response_taken_def)

lemma idx_inv_step:
  assumes "hs_step c h h'" and "idx_inv h"
  shows "idx_inv h'"
  using assms(1)
proof cases
  case (send_init e pq d r)
  then have "init_frame e pq h h' r"
    by (auto simp: format_any_init_def dest: format_init_frame format_pq_init_frame split: if_splits)
  then consider "h' = h" | (sent) s where "hs_next_index h' = next_idx h" "hs_previous h' = hs_state h"
      "hs_state h' = InitSent s" "sent_local_index s = next_idx h" by (auto simp: init_frame_def)
  then show ?thesis
  proof cases
    case sent
    then show ?thesis using assms(2) next_idx_differs [of h] by (simp add: idx_inv_def)
  qed (use assms(2) in simp)
next
  case (recv_init e pkt d r)
  from receive_any_init_cases [OF this] consider "h' = h" | "\<forall>s. hs_state h' \<noteq> InitSent s"
    using resp_frame_facts(3) by metis
  then show ?thesis using assms(2) by cases (simp, simp add: idx_inv_def)
next
  case (recv_resp e pkt r)
  from receive_any_response_cases [OF this] show ?thesis
    using assms(2) idx_inv_response_taken by blast
next
  case (recv_cookie p r)
  from receive_cookie_cases [OF this] obtain k where "h' = h \<or> h' = h\<lparr> hs_cookies := k \<rparr>" by blast
  then show ?thesis using assms(2) by (elim disjE) simp_all
next
  case expire
  then show ?thesis by (simp add: set_expired_def idx_inv_def)
qed (use assms(2) in \<open>auto simp: clear_cookie_def handshake_set_static_private_def\<close>)

lemma idx_inv_reach:
  assumes "handshake_new c st now sk pk pp idx psk = Some h0" and "(hs_step c)\<^sup>*\<^sup>* h0 h"
  shows "idx_inv h"
  using assms(2)
proof induction
  case base
  from assms(1) show ?case by (auto simp: handshake_new_def idx_inv_def bind_eq_Some_conv)
next
  case (step h h')
  then show ?case using idx_inv_step by blast
qed

lemma awaiting_unique:
  assumes "idx_inv h" and "awaiting h idx = Some (s, b)"
  shows "awaiting (response_taken e s b h) idx = None"
  using assms
  by (auto simp: awaiting_def response_taken_def idx_inv_def Let_def split: handshake_state.splits if_splits)

section \<open>A concrete exchange\<close>

abbreviation demo_init :: packet where
  "demo_init \<equiv> HandshakeInit (init_packet plain_crypto [2] (x25519_public plain_crypto [3]) [1] demo_stamp 257)"

lemma demo_init_accepted:
  "\<exists>h1 out. receive_any_init plain_crypto (demo_env 4) (demo_handshake [3] [2] 512) demo_init (replicate 92 0) =
     Some (h1, Inr out) \<and> hs_params h1 = hs_params (demo_handshake [3] [2] 512)"
proof -
  have len: "length demo_stamp = 12" by (simp add: demo_stamp_def)
  note r = receive_init_eq [OF plain_crypto_ok demo_handshake_facts(1) [of "[3]" "[2]" 512] len demo_handshake_facts(3)
      demo_handshake_facts(4) [of "[3]" "[2]" 512], where env = "demo_env 4" and e = "[1]" and idx = 257 and dst = "replicate 92 0"]
  have "HANDSHAKE_RESP_SZ \<le> length (replicate 92 (0 :: byte))" by (simp add: size_consts)
  from format_resp_eq [OF plain_crypto_ok _ this] r show ?thesis
    by (simp add: receive_any_init_def)
qed

lemma demo_response_accepted:
  "\<exists>h1 m q h2 sess. format_any_init plain_crypto (demo_env 1) (demo_handshake [2] [3] 256) False (replicate 148 0) = Some (h1, Inr m) \<and>
     receive_any_response plain_crypto (demo_env 5) h1 (HandshakeResponse q) = Some (h2, Inr sess)"
proof -
  have b: "HANDSHAKE_INIT_SZ \<le> length (replicate 148 (0 :: byte))" "HANDSHAKE_RESP_SZ \<le> length (replicate 92 (0 :: byte))"
    by (simp_all add: size_consts)
  from classical_agreement [OF plain_crypto_ok demo_handshake_facts(1) [of "[2]" "[3]" 256]
      demo_handshake_facts(1) [of "[3]" "[2]" 512] demo_handshake_facts(2) [of "[2]" "[3]" 256 1]
      demo_handshake_facts(3) demo_handshake_facts(4) [of "[3]" "[2]" 512] b, where ea' = "demo_env 5" and eb = "demo_env 4" and pq = True]
  show ?thesis by (simp only: format_any_init_def receive_any_response_def if_False packet.case) metis
qed

lemma demo_handshake_new:
  "handshake_new plain_crypto (Some 0) demo_instant sk (x25519_public plain_crypto sk) (x25519_public plain_crypto peer) idx
     (Some (replicate 32 9)) = Some (demo_handshake sk peer idx)"
  by (simp add: demo_handshake_def handshake_new_def time_stamper_new_def)

section \<open>Properties\<close>

text \<open>C14: an initiation is accepted at most once. After a party has accepted an initiation, classical
  or hybrid, the same message is rejected with \<open>WrongTai64nTimestamp\<close>, and nothing changes, in every
  state it can get to by any sequence of operations, as long as its keys are the same.\<close>
theorem initiation_not_replayed:
  assumes "receive_any_init c e h pkt d = Some (h1, Inr out)" and "(hs_step c)\<^sup>*\<^sup>* h1 h2"
    and "hs_params h2 = hs_params h"
  shows "receive_any_init c e' h2 pkt d' = Some (h2, Inl WrongTai64nTimestamp)"
proof -
  from receive_any_init_cases [OF assms(1)] obtain t x1 x2 x3 x4 x5 where
    t: "init_time c (hs_params h) pkt = Some t" and
    f: "resp_frame (take_init h t (InitReceived x1 x2 x3 x4 x5)) h1 (Inr out)" by auto
  have "hs_last_handshake_timestamp h1 = t" using resp_frame_facts(1) [OF f] .
  with hs_steps_timestamp [OF assms(2)] have "\<not> after t (hs_last_handshake_timestamp h2)"
    using after_irrefl after_trans by metis
  with t assms(3) show ?thesis using receive_any_init_stale by metis
qed

theorem initiation_not_replayed_witness:
  "\<exists>h1 out. receive_any_init plain_crypto (demo_env 4) (demo_handshake [3] [2] 512) demo_init (replicate 92 0) = Some (h1, Inr out) \<and>
     receive_any_init plain_crypto (demo_env 6) h1 demo_init (replicate 92 0) = Some (h1, Inl WrongTai64nTimestamp)"
proof -
  from demo_init_accepted obtain h1 out where
    a: "receive_any_init plain_crypto (demo_env 4) (demo_handshake [3] [2] 512) demo_init (replicate 92 0) = Some (h1, Inr out)"
      "hs_params h1 = hs_params (demo_handshake [3] [2] 512)" by blast
  from initiation_not_replayed [OF a(1) rtranclp.rtrancl_refl a(2)] a(1) show ?thesis by blast
qed

text \<open>C15: a response is accepted at most once. In every state reachable from a new handshake, once a
  response, classical or hybrid, has been accepted, receiving it again is an \<open>UnexpectedPacket\<close>.\<close>
theorem response_accepted_once:
  assumes "handshake_new c st now sk pk pp idx psk = Some h0" and "(hs_step c)\<^sup>*\<^sup>* h0 h"
    and "receive_any_response c e h pkt = Some (h1, Inr sess)"
  shows "receive_any_response c e' h1 pkt = Some (h1, Inl UnexpectedPacket)"
proof -
  from receive_any_response_cases [OF assms(3)] obtain s b where
    a: "awaiting h (resp_idx pkt) = Some (s, b)" "h1 = response_taken e s b h" by auto
  from awaiting_unique [OF idx_inv_reach [OF assms(1,2)] a(1)] a(2)
  have "awaiting h1 (resp_idx pkt) = None" by simp
  with receive_any_response_unexpected [OF assms(3)] show ?thesis by blast
qed

theorem response_accepted_once_witness:
  "\<exists>h1 q h2 sess. (hs_step plain_crypto)\<^sup>*\<^sup>* (demo_handshake [2] [3] 256) h1 \<and>
     receive_any_response plain_crypto (demo_env 5) h1 (HandshakeResponse q) = Some (h2, Inr sess) \<and>
     receive_any_response plain_crypto (demo_env 6) h2 (HandshakeResponse q) = Some (h2, Inl UnexpectedPacket)"
proof -
  from demo_response_accepted obtain h1 m q h2 sess where
    f: "format_any_init plain_crypto (demo_env 1) (demo_handshake [2] [3] 256) False (replicate 148 0) = Some (h1, Inr m)"
    and r: "receive_any_response plain_crypto (demo_env 5) h1 (HandshakeResponse q) = Some (h2, Inr sess)" by blast
  have s: "(hs_step plain_crypto)\<^sup>*\<^sup>* (demo_handshake [2] [3] 256) h1" using hs_step.send_init [OF f] by blast
  from response_accepted_once [OF demo_handshake_new s r] s r show ?thesis by blast
qed

text \<open>A message that is rejected because it is not authentic, stale, or not expected leaves the
  handshake state exactly as it was: initiations, responses and cookie replies alike.\<close>
lemma rejected_message_changes_nothing:
  "(receive_any_init c e h pkt d = Some (h', Inl er) \<longrightarrow> er \<notin> {DestinationBufferTooSmall, InvalidPacket} \<longrightarrow> h' = h) \<and>
   (receive_any_response c e h pkt = Some (h', Inl er) \<longrightarrow> h' = h) \<and>
   (receive_cookie_reply c h p = (h', Inl er) \<longrightarrow> h' = h)"
proof (intro conjI impI)
  show "h' = h" if "receive_any_init c e h pkt d = Some (h', Inl er)" "er \<notin> {DestinationBufferTooSmall, InvalidPacket}"
    using receive_any_init_cases [OF that(1)] that(2) by (auto simp: resp_frame_def)
  show "h' = h" if "receive_any_response c e h pkt = Some (h', Inl er)"
    using receive_any_response_cases [OF that] by auto
  show "h' = h" if "receive_cookie_reply c h p = (h', Inl er)"
    using receive_cookie_cases [OF that] by auto
qed



lemma format_resp_returns:
  assumes "crypto_ok c" and "hs_state h = InitReceived hash ck pe i ek"
  shows "format_handshake_response c e h d \<noteq> None"
proof (cases "length d < HANDSHAKE_RESP_SZ")
  case False
  then show ?thesis using format_resp_eq [OF assms, of d e] by simp
qed (simp add: format_handshake_response_def)

lemma format_pq_resp_returns:
  assumes "crypto_ok c" and "hs_state h = InitReceived hash ck pe i (Some ek)" and "length ek = MLKEM768_PK_SIZE"
  shows "format_pq_handshake_response c e h d \<noteq> None"
proof (cases "length d < PQ_HANDSHAKE_RESP_SZ")
  case False
  obtain ct ss where kem: "mlkem_encaps c ek (env_kem e) = (ct, ss)" by (cases "mlkem_encaps c ek (env_kem e)")
  show ?thesis
  proof (cases "mlkem_ek_ok c ek")
    case True
    then show ?thesis using False format_pq_resp_eq [OF assms(1,2) _ assms(3) True kem, of d] by simp
  qed (use assms False in \<open>simp add: format_pq_handshake_response_def inc_index_eq Let_def\<close>)
qed (simp add: format_pq_handshake_response_def)

lemma aead_open_None: "crypto_ok c \<Longrightarrow> length x = n + 16 \<Longrightarrow> aead_chacha20_open c n k i x a = None \<longleftrightarrow> False"
  using aead_open_Some [of c x n k i a] by auto

lemma receive_resp_returns:
  assumes "crypto_ok c"
  shows "length (hr_encrypted_nothing p) = 16 \<Longrightarrow> receive_handshake_response c e h p \<noteq> None"
    and "length (pqr_encrypted_nothing q) = 16 \<Longrightarrow> receive_pq_handshake_response c e h q \<noteq> None"
  by (auto simp: receive_handshake_response_def receive_pq_handshake_response_def Let_def try_with_def
      aead_open_None [OF assms] split: option.splits sum.splits Option.bind_split)

lemma parse_anon_returns:
  assumes "crypto_ok c"
  shows "length (hi_encrypted_static p) = 48 \<Longrightarrow> parse_handshake_anon c sk pk p \<noteq> None"
    and "length (pqi_encrypted_static q) = 48 \<Longrightarrow> parse_pq_handshake_anon c sk pk q \<noteq> None"
  by (simp_all add: parse_handshake_anon_def parse_pq_handshake_anon_def Let_def KEY_LEN_def aead_open_None [OF assms]
      split: Option.bind_split)

lemma receive_init_returns:
  assumes "crypto_ok c"
  shows "packet_wf (HandshakeInit p) \<Longrightarrow> receive_handshake_initialization c e h p d \<noteq> None"
    and "packet_wf (PqHandshakeInit q) \<Longrightarrow> receive_pq_handshake_initialization c e h q d \<noteq> None"
  using open_init_returns [OF assms] format_resp_returns [OF assms] format_pq_resp_returns [OF assms]
  by (auto simp: receive_init_open receive_pq_init_open take_init_def split: sum.splits Option.bind_splits)

text \<open>No packet the parser lets through makes a handshake operation panic, in any state of the
  handshake and for any destination buffer.\<close>
lemma receiving_never_panics:
  assumes "crypto_ok c" and "parse_incoming_packet pq src = Inr pkt"
  shows "case pkt of
      HandshakeInit p \<Rightarrow> receive_handshake_initialization c e h p d \<noteq> None \<and> parse_handshake_anon c sk pk p \<noteq> None
    | PqHandshakeInit p \<Rightarrow> receive_pq_handshake_initialization c e h p d \<noteq> None \<and> parse_pq_handshake_anon c sk pk p \<noteq> None
    | HandshakeResponse p \<Rightarrow> receive_handshake_response c e h p \<noteq> None
    | PqHandshakeResponse p \<Rightarrow> receive_pq_handshake_response c e h p \<noteq> None
    | _ \<Rightarrow> True"
proof -
  have "packet_wf pkt" using parse_only_wire_body [OF assms(2)] by blast
  with receive_init_returns [OF assms(1)] parse_anon_returns [OF assms(1)] receive_resp_returns [OF assms(1)]
  show ?thesis by (cases pkt) auto
qed

text \<open>Session indices. \<open>inc_index\<close> keeps the upper 24 bits, by which the device finds the peer,
  and steps through all 256 values of the low byte before one comes again.\<close>
lemma indices_cycle:
  "drop_bit 8 (hs_next_index (((fst \<circ> inc_index) ^^ n) h)) = drop_bit 8 (hs_next_index h) \<and>
   (hs_next_index (((fst \<circ> inc_index) ^^ n) h) = hs_next_index (((fst \<circ> inc_index) ^^ m) h) \<longleftrightarrow> n mod 256 = m mod 256)"
proof -
  let ?i = "\<lambda>n. hs_next_index (((fst \<circ> inc_index) ^^ n) h)"
  have hi: "drop_bit 8 (?i n) = drop_bit 8 (hs_next_index h)" for n
    by (induction n) (simp_all add: inc_index_eq next_idx_high)
  have lo: "(ucast (?i n) :: byte) = ucast (hs_next_index h) + of_nat n" for n
    by (induction n) (simp_all add: inc_index_eq next_idx_low)
  have "?i n = ?i m \<longleftrightarrow> (ucast (?i n) :: byte) = ucast (?i m)"
  proof
    assume eq: "(ucast (?i n) :: byte) = ucast (?i m)"
    show "?i n = ?i m"
    proof (rule bit_word_eqI)
      fix k assume "k < LENGTH(32)"
      show "bit (?i n) k = bit (?i m) k"
      proof (cases "k < 8")
        case True
        with arg_cong [OF eq, of "\<lambda>w. bit w k"] show ?thesis by (simp add: bit_simps)
      next
        case False
        have "bit (drop_bit 8 (?i n)) (k - 8) = bit (drop_bit 8 (?i m)) (k - 8)" by (simp only: hi)
        with False show ?thesis by (simp add: bit_simps)
      qed
    qed
  qed simp
  moreover have "(of_nat n = (of_nat m :: byte)) \<longleftrightarrow> n mod 256 = m mod 256"
    by (simp add: word_unat_eq_iff unat_of_nat)
  ultimately show ?thesis using hi lo by simp
qed

text \<open>The timestamps a party puts into its initiations increase with the clock: of two stamps the
  one taken later, by any number of nanoseconds, parses to a timestamp \<open>after\<close> the other.\<close>
lemma stamps_increase:
  assumes "stamp st a = Some x" and "stamp st b = Some y"
    and "instant_wf a" and "instant_wf b" and "instant_wf (instant_at_start st)"
    and "to_ns (instant_at_start st) \<le> to_ns a" and "to_ns a < to_ns b"
    and "nat (to_ns b - to_ns (instant_at_start st)) + duration_at_start st < 2 ^ 62 * 1000000000"
  shows "\<exists>tx ty. tai64n_parse x = Inr tx \<and> tai64n_parse y = Inr ty \<and> after ty tx"
proof -
  let ?d = "\<lambda>t. nat (to_ns t - to_ns (instant_at_start st)) + duration_at_start st"
  have p: "tai64n_parse z = Inr \<lparr> ts_secs = of_nat (?d t div 1000000000) + TAI64_BASE, ts_nano = of_nat (?d t mod 1000000000) \<rparr>"
    if "stamp st t = Some z" "instant_wf t" for t z
    using that duration_since_to_ns [OF that(2) assms(5)]
    by (auto simp: stamp_def duration_add_def as_secs_def subsec_nanos_def tai64n_parse_def split: if_splits)
  have lt: "?d a < ?d b" using assms(6,7) by linarith
  let ?s = "\<lambda>t. unat (of_nat (?d t div 1000000000) + TAI64_BASE :: u64)" and ?n = "\<lambda>t. unat (of_nat (?d t mod 1000000000) :: u32)"
  have s: "?s t = ?d t div 1000000000 + (2 ^ 62 + 37)" if "?d t \<le> ?d b" for t
  proof -
    have "?d t div 1000000000 < 2 ^ 62" using that assms(8) by (simp add: less_mult_imp_div_less)
    then show ?thesis by (simp add: TAI64_BASE_def unat_word_ariths unat_of_nat)
  qed
  have n: "?n t = ?d t mod 1000000000" for t
    using mod_less_divisor [of 1000000000 "?d t"] by (simp add: unat_of_nat)
  have "?d a div 1000000000 \<le> ?d b div 1000000000" by (rule div_le_mono [OF less_imp_le [OF lt]])
  moreover have "?d a mod 1000000000 < ?d b mod 1000000000" if "?d a div 1000000000 = ?d b div 1000000000"
    using lt that by (metis div_mult_mod_eq nat_add_left_cancel_less)
  ultimately show ?thesis
    using p [OF assms(1,3)] p [OF assms(2,4)] s [OF less_imp_le [OF lt]] s [OF order.refl] n
    by (auto simp: after_def word_less_nat_alt word_unat_eq_iff)
qed

end
