(* ===== verification/Rate_Limiter.thy ===== *)
theory Rate_Limiter
  imports Handshake_Safety
begin

text \<open>
  \<^verbatim>\<open>noise/rate_limiter.rs\<close>: the check of the MACs of incoming handshake messages, the limit on
  handshake messages per period, and the cookies a peer under load asks for. The atomic counters
  are the fields \<open>rl_count\<close> and \<open>rl_nonce_ctr\<close> of the record; each operation on them is one
  \<open>fetch_add\<close>, so a method returns the new record. The clock readings are the arguments \<open>now\<close>.

  The lemmas show that a peer's own messages pass the check, how many messages without a valid
  cookie can pass between two resets, and that the cookie exchange lets a peer through a limiter
  that is under load.
\<close>

text \<open>\<open>TunnResult\<close> of \<^verbatim>\<open>noise/mod.rs\<close>; the addresses are their octets.\<close>

datatype tunn_result =
    Done
  | Err wireguard_error
  | WriteToNetwork bytes
  | WriteToTunnelV4 bytes bytes
  | WriteToTunnelV6 bytes bytes

definition COOKIE_REFRESH :: nat where "COOKIE_REFRESH = 128"
definition COOKIE_SIZE :: nat where "COOKIE_SIZE = 16"
definition COOKIE_NONCE_SIZE :: nat where "COOKIE_NONCE_SIZE = 24"
definition RESET_PERIOD :: nat where "RESET_PERIOD = 1"

record rate_limiter =
  rl_nonce_key :: bytes
  rl_secret_key :: bytes
  rl_start_time :: instant
  rl_nonce_ctr :: u64
  rl_mac1_key :: bytes
  rl_cookie_key :: bytes
  rl_limit :: u64
  rl_count :: u64
  rl_last_reset :: instant

text \<open>\<open>RateLimiter::new\<close>; the two random keys and the two clock readings are arguments.\<close>

definition rate_limiter_new ::
  "crypto \<Rightarrow> bytes \<Rightarrow> bytes \<Rightarrow> instant \<Rightarrow> instant \<Rightarrow> bytes \<Rightarrow> u64 \<Rightarrow> rate_limiter" where
  "rate_limiter_new c secret_key nonce_key start now public_key limit =
    \<lparr> rl_nonce_key = nonce_key, rl_secret_key = secret_key, rl_start_time = start, rl_nonce_ctr = 0,
      rl_mac1_key = b2s_hash c LABEL_MAC1 public_key, rl_cookie_key = b2s_hash c LABEL_COOKIE public_key,
      rl_limit = limit, rl_count = 0, rl_last_reset = now \<rparr>"

definition reset_count :: "rate_limiter \<Rightarrow> instant \<Rightarrow> rate_limiter" where
  "reset_count self current_time =
    (if RESET_PERIOD \<le> as_secs (duration_since current_time (rl_last_reset self))
     then self\<lparr> rl_count := 0, rl_last_reset := current_time \<rparr>
     else self)"

definition current_cookie :: "crypto \<Rightarrow> rate_limiter \<Rightarrow> instant \<Rightarrow> ip_addr \<Rightarrow> bytes" where
  "current_cookie c self now addr =
    (let addr_bytes = (case addr of IpV4 a \<Rightarrow> a @ replicate 12 0 | IpV6 a \<Rightarrow> a);
         cur_counter = (of_nat (as_secs (duration_since now (rl_start_time self)) div COOKIE_REFRESH) :: u64)
     in b2s_keyed_mac_16_2 c (rl_secret_key self) (le_bytes 8 cur_counter) addr_bytes)"

definition nonce :: "crypto \<Rightarrow> rate_limiter \<Rightarrow> rate_limiter \<times> bytes" where
  "nonce c self =
    (let ctr = rl_nonce_ctr self
     in (self\<lparr> rl_nonce_ctr := ctr + 1 \<rparr>, b2s_mac_24 c (rl_nonce_key self) (le_bytes 8 ctr)))"

definition is_under_load :: "rate_limiter \<Rightarrow> rate_limiter \<times> bool" where
  "is_under_load self = (self\<lparr> rl_count := rl_count self + 1 \<rparr>, rl_limit self \<le> rl_count self)"

text \<open>The encryption of the 16 byte cookie cannot fail: the cipher's only error is a message that is
  too long.\<close>

definition format_cookie_reply ::
  "crypto \<Rightarrow> rate_limiter \<Rightarrow> u32 \<Rightarrow> bytes \<Rightarrow> bytes \<Rightarrow> bytes \<Rightarrow> rate_limiter \<times> bytes wg_result" where
  "format_cookie_reply c self idx cookie mac1 dst =
    (if length dst < COOKIE_REPLY_SZ then (self, Inl DestinationBufferTooSmall)
     else
       let message_type = le_bytes 4 COOKIE_REPLY;
           receiver_index = le_bytes 4 idx;
           (self, nonce) = nonce c self;
           (encrypted, tag) = xchacha_seal c (rl_cookie_key self) nonce mac1 cookie;
           dst = fill_prefix dst (message_type @ receiver_index @ nonce @ encrypted @ tag)
       in (self, Inr (take COOKIE_REPLY_SZ dst)))"

definition verify_packet ::
  "bool \<Rightarrow> crypto \<Rightarrow> rate_limiter \<Rightarrow> instant \<Rightarrow> ip_addr option \<Rightarrow> bytes \<Rightarrow> bytes
     \<Rightarrow> rate_limiter \<times> (tunn_result + packet)" where
  "verify_packet pq c self now src_addr src dst =
    (case parse_incoming_packet pq src of
       Inl e \<Rightarrow> (self, Inl (Err e))
     | Inr packet \<Rightarrow>
       let sender_idx = (case packet of
             HandshakeInit p \<Rightarrow> Some (hi_sender_idx p)
           | HandshakeResponse p \<Rightarrow> Some (hr_sender_idx p)
           | PqHandshakeInit p \<Rightarrow> Some (pqi_sender_idx p)
           | PqHandshakeResponse p \<Rightarrow> Some (pqr_sender_idx p)
           | _ \<Rightarrow> None)
       in case sender_idx of
            None \<Rightarrow> (self, Inr packet)
          | Some sender_idx \<Rightarrow>
            let msg = take (length src - 32) src;
                macs = drop (length src - 32) src;
                mac1 = take 16 macs;
                mac2 = drop 16 macs;
                computed_mac1 = b2s_keyed_mac_16 c (rl_mac1_key self) msg
            in if take 16 computed_mac1 \<noteq> mac1 then (self, Inl (Err InvalidMac))
               else
                 let (self, under_load) = is_under_load self
                 in if \<not> under_load then (self, Inr packet)
                    else case src_addr of
                        None \<Rightarrow> (self, Inl (Err UnderLoad))
                      | Some addr \<Rightarrow>
                        let cookie = current_cookie c self now addr;
                            computed_mac2 = b2s_keyed_mac_16_2 c cookie msg mac1
                        in if take 16 computed_mac2 \<noteq> mac2 then
                             (case format_cookie_reply c self sender_idx cookie mac1 dst of
                                (self, Inl e) \<Rightarrow> (self, Inl (Err e))
                              | (self, Inr cookie_packet) \<Rightarrow> (self, Inl (WriteToNetwork cookie_packet)))
                           else (self, Inr packet))"

section \<open>The checks as a specification\<close>

text \<open>What the limiter computes about a handshake datagram: its three parts, whether the first MAC
  is right and whether the second one is right for an address.\<close>

definition is_handshake :: "packet \<Rightarrow> bool" where
  "is_handshake p \<longleftrightarrow> macs_len p = 32"

definition sender_of :: "packet \<Rightarrow> u32" where
  "sender_of packet = (case packet of
       HandshakeInit p \<Rightarrow> hi_sender_idx p | HandshakeResponse p \<Rightarrow> hr_sender_idx p
     | PqHandshakeInit p \<Rightarrow> pqi_sender_idx p | PqHandshakeResponse p \<Rightarrow> pqr_sender_idx p | _ \<Rightarrow> 0)"

definition msg_of :: "bytes \<Rightarrow> bytes" where "msg_of src = take (length src - 32) src"
definition mac1_of :: "bytes \<Rightarrow> bytes" where "mac1_of src = take 16 (drop (length src - 32) src)"
definition mac2_of :: "bytes \<Rightarrow> bytes" where "mac2_of src = drop 16 (drop (length src - 32) src)"

definition mac1_ok :: "crypto \<Rightarrow> rate_limiter \<Rightarrow> bytes \<Rightarrow> bool" where
  "mac1_ok c rl src \<longleftrightarrow> b2s_keyed_mac_16 c (rl_mac1_key rl) (msg_of src) = mac1_of src"

definition mac2_ok :: "crypto \<Rightarrow> rate_limiter \<Rightarrow> instant \<Rightarrow> ip_addr option \<Rightarrow> bytes \<Rightarrow> bool" where
  "mac2_ok c rl now src_addr src \<longleftrightarrow> (case src_addr of None \<Rightarrow> False
     | Some addr \<Rightarrow> b2s_keyed_mac_16_2 c (current_cookie c rl now addr) (msg_of src) (mac1_of src) = mac2_of src)"

lemma current_cookie_count [simp]:
  "current_cookie c (rl\<lparr> rl_count := n \<rparr>) now a = current_cookie c rl now a"
  "current_cookie c (rl\<lparr> rl_nonce_ctr := k \<rparr>) now a = current_cookie c rl now a"
  by (simp_all add: current_cookie_def)

lemma verify_packet_not_handshake:
  assumes "parse_incoming_packet pq src = Inr p" and "\<not> is_handshake p"
  shows "verify_packet pq c rl now a src dst = (rl, Inr p)"
  using assms by (cases p) (auto simp: verify_packet_def is_handshake_def)

lemma verify_packet_handshake:
  assumes "parse_incoming_packet pq src = Inr p" and "is_handshake p" and "crypto_ok c"
  shows "verify_packet pq c rl now a src dst =
    (if \<not> mac1_ok c rl src then (rl, Inl (Err InvalidMac))
     else let rl' = rl\<lparr> rl_count := rl_count rl + 1 \<rparr> in
       if rl_count rl < rl_limit rl \<or> mac2_ok c rl now a src then (rl', Inr p)
       else case a of None \<Rightarrow> (rl', Inl (Err UnderLoad))
         | Some addr \<Rightarrow> (case format_cookie_reply c rl' (sender_of p) (current_cookie c rl now addr) (mac1_of src) dst of
             (rl'', Inl e) \<Rightarrow> (rl'', Inl (Err e)) | (rl'', Inr m) \<Rightarrow> (rl'', Inl (WriteToNetwork m))))"
proof -
  have l: "take 16 (b2s_keyed_mac_16 c k x) = b2s_keyed_mac_16 c k x" "take 16 (b2s_keyed_mac_16_2 c k x y) = b2s_keyed_mac_16_2 c k x y"
    for k x y using crypto_ok_lengths(4,5) [OF assms(3)] by simp_all
  obtain s where s: "(case p of HandshakeInit p \<Rightarrow> Some (hi_sender_idx p) | HandshakeResponse p \<Rightarrow> Some (hr_sender_idx p)
      | PqHandshakeInit p \<Rightarrow> Some (pqi_sender_idx p) | PqHandshakeResponse p \<Rightarrow> Some (pqr_sender_idx p) | _ \<Rightarrow> None) = Some s"
      "sender_of p = s"
    using assms(2) by (cases p) (auto simp: is_handshake_def sender_of_def)
  show ?thesis
    by (cases a) (auto simp: verify_packet_def assms(1) s Let_def l is_under_load_def mac1_ok_def mac2_ok_def msg_of_def
      mac1_of_def mac2_of_def not_le)
qed

lemma with_macs_parts:
  assumes "crypto_ok c"
  shows "msg_of (with_macs c np k msg) = msg"
    and "mac1_of (with_macs c np k msg) = b2s_keyed_mac_16 c (np_sending_mac1_key np) msg"
    and "ck_write_cookie k = Some cookie \<Longrightarrow> mac2_of (with_macs c np k msg) =
      b2s_keyed_mac_16_2 c cookie msg (b2s_keyed_mac_16 c (np_sending_mac1_key np) msg)"
  using crypto_ok_lengths(4) [OF assms]
  by (auto simp: msg_of_def mac1_of_def mac2_of_def with_macs_def Let_def b2s_keyed_mac_16_def b2s_keyed_mac_16_2_def
      split: option.splits)

text \<open>A limiter for the public key \<open>pk\<close>, as \<open>RateLimiter::new\<close> makes it.\<close>

definition limiter_for :: "crypto \<Rightarrow> bytes \<Rightarrow> rate_limiter \<Rightarrow> bool" where
  "limiter_for c pk rl \<longleftrightarrow> rl_mac1_key rl = b2s_hash c LABEL_MAC1 pk \<and> rl_cookie_key rl = b2s_hash c LABEL_COOKIE pk"

lemma limiter_for_new: "limiter_for c pk (rate_limiter_new c sk nk st now pk limit)"
  by (simp add: limiter_for_def rate_limiter_new_def)

lemma format_any_init_wire:
  assumes "crypto_ok c" and "hs_params h = noise_params_new c sa (x25519_public c sa) pb psk"
    and "format_any_init c e h pq d = Some (h', Inr m)"
  obtains p where "packet_wf p" "macs_len p = 32" "is_pq_packet p \<longleftrightarrow> pq" "sender_of p = next_idx h"
    "m = with_macs c (hs_params h) (hs_cookies h) (wire_body p)"
    "hs_cookies h' = macs_sent c (hs_params h) (next_idx h) (wire_body p) (hs_cookies h)" "hs_params h' = hs_params h"
proof (cases pq)
  case True
  have sz: "PQ_HANDSHAKE_INIT_SZ \<le> length d"
    using assms(3) True by (auto simp: format_any_init_def format_pq_handshake_initiation_def split: if_splits)
  obtain dk ek where kem: "mlkem_keygen c (env_kem e) = (dk, ek)" by fastforce
  have "stamp (hs_stamper h) (env_stamp_now e) \<noteq> None"
    using assms(3) True sz
    by (auto simp: format_any_init_def format_pq_handshake_initiation_def inc_index_eq Let_def bind_eq_Some_conv)
  then obtain ts where ts: "stamp (hs_stamper h) (env_stamp_now e) = Some ts" by blast
  have ek: "length ek = MLKEM768_PK_SIZE" using crypto_ok_lengths(9) [OF assms(1), of "env_kem e"] kem by simp
  let ?p = "PqHandshakeInit (pq_init_packet c sa pb (env_ephemeral e) ts ek (next_idx h))"
  have wf: "packet_wf ?p" using init_packet_wf(2) [OF assms(1) length_stamp [OF ts] ek] .
  have sender: "sender_of ?p = next_idx h" by (simp add: sender_of_def pq_init_packet_def)
  show ?thesis
    using format_pq_init_eq [OF assms(1,2) ts sz kem] assms(3) True wf sender
    by (intro that [of ?p]) (auto simp: format_any_init_def simp del: wire_body.simps packet_wf.simps)
next
  case False
  have sz: "HANDSHAKE_INIT_SZ \<le> length d"
    using assms(3) False by (auto simp: format_any_init_def format_handshake_initiation_def split: if_splits)
  have "stamp (hs_stamper h) (env_stamp_now e) \<noteq> None"
    using assms(3) False sz
    by (auto simp: format_any_init_def format_handshake_initiation_def inc_index_eq Let_def bind_eq_Some_conv)
  then obtain ts where ts: "stamp (hs_stamper h) (env_stamp_now e) = Some ts" by blast
  let ?p = "HandshakeInit (init_packet c sa pb (env_ephemeral e) ts (next_idx h))"
  have wf: "packet_wf ?p" using init_packet_wf(1) [OF assms(1) length_stamp [OF ts]] .
  have sender: "sender_of ?p = next_idx h" by (simp add: sender_of_def init_packet_def)
  show ?thesis
    using format_init_eq [OF assms(1,2) ts sz] assms(3) False wf sender
    by (intro that [of ?p]) (auto simp: format_any_init_def simp del: wire_body.simps packet_wf.simps)
qed

lemma format_cookie_reply_eq:
  assumes "crypto_ok c" and "COOKIE_REPLY_SZ \<le> length dst" and "length cookie = 16"
  shows "\<exists>n x. format_cookie_reply c rl idx cookie mac1 dst = (rl\<lparr> rl_nonce_ctr := rl_nonce_ctr rl + 1 \<rparr>,
      Inr (wire_body (PacketCookieReply \<lparr> cr_receiver_idx = idx, cr_nonce = n, cr_encrypted_cookie = x \<rparr>))) \<and>
    packet_wf (PacketCookieReply \<lparr> cr_receiver_idx = idx, cr_nonce = n, cr_encrypted_cookie = x \<rparr>) \<and>
    xchacha_open c (rl_cookie_key rl) n mac1 x = Some cookie"
proof -
  let ?n = "b2s_mac_24 c (rl_nonce_key rl) (le_bytes 8 (rl_nonce_ctr rl))"
  let ?s = "xchacha_seal c (rl_cookie_key rl) ?n mac1 cookie"
  have l: "length ?n = 24" "length (fst ?s) = 16" "length (snd ?s) = 16"
    using crypto_ok_lengths(6) [OF assms(1)] crypto_ok_xseal_len [OF assms(1)] assms(3) by simp_all
  then show ?thesis using assms(2) crypto_ok_xopen_seal [OF assms(1), of "rl_cookie_key rl" ?n mac1 cookie]
    by (intro exI [of _ ?n] exI [of _ "fst ?s @ snd ?s"])
      (simp add: format_cookie_reply_def nonce_def Let_def case_prod_beta size_consts fill_prefix_def)
qed

section \<open>Properties\<close>

text \<open>The initiations a party sends, classical or hybrid, pass the check of the responder: its
  limiter finds the MAC right and, below the limit or with a valid cookie, hands on the packet.\<close>
lemma own_initiation_verified:
  assumes "crypto_ok c" and "hs_params h = noise_params_new c sa (x25519_public c sa) pb psk"
    and "format_any_init c e h b d = Some (h', Inr m)" and "limiter_for c pb rl" and "b \<longrightarrow> pq"
  shows "\<exists>p. parse_incoming_packet pq m = Inr p \<and> sender_of p = next_idx h \<and> mac1_ok c rl m \<and>
    (rl_count rl < rl_limit rl \<longrightarrow>
       verify_packet pq c rl now a m dst = (rl\<lparr> rl_count := rl_count rl + 1 \<rparr>, Inr p))"
proof -
  from format_any_init_wire [OF assms(1,2,3)] obtain p where
    p: "packet_wf p" "macs_len p = 32" "is_pq_packet p \<longleftrightarrow> b" "sender_of p = next_idx h"
      "m = with_macs c (hs_params h) (hs_cookies h) (wire_body p)" by metis
  have parse: "parse_incoming_packet pq m = Inr p" using p assms(1,5) by (simp add: parse_with_macs)
  have ok: "mac1_ok c rl m"
    using p(5) assms(2,4) by (simp add: mac1_ok_def with_macs_parts [OF assms(1)] limiter_for_def)
  show ?thesis
    using parse ok p(4) verify_packet_handshake [OF parse _ assms(1)] p(2) by (simp add: is_handshake_def Let_def)
qed

definition demo_limiter :: "u64 \<Rightarrow> rate_limiter" where
  "demo_limiter limit = rate_limiter_new plain_crypto (replicate 16 7) (replicate 32 8) demo_instant demo_instant
     (x25519_public plain_crypto [3]) limit"

text \<open>C29: the cookie exchange. A limiter under load answers an initiation without a valid cookie with a
  cookie reply; the initiator, receiving the reply, takes the cookie over; and its next initiation
  (classical or hybrid) passes the same limiter although it is still under load, as long as it
  comes from the same address within the same period of 128 seconds.\<close>
theorem cookie_exchange:
  assumes "crypto_ok c" and "hs_params h = noise_params_new c sa (x25519_public c sa) pb psk"
    and "limiter_for c pb rl" and "rl_limit rl \<le> rl_count rl"
    and "format_any_init c e h b d = Some (h1, Inr m1)" and "b \<or> b' \<longrightarrow> pq"
    and "\<not> mac2_ok c rl t1 (Some addr) m1" and "COOKIE_REPLY_SZ \<le> length dst"
    and "as_secs (duration_since t1 (rl_start_time rl)) div COOKIE_REFRESH =
      as_secs (duration_since t2 (rl_start_time rl)) div COOKIE_REFRESH"
  shows "\<exists>rl1 reply cr h2. verify_packet pq c rl t1 (Some addr) m1 dst = (rl1, Inl (WriteToNetwork reply)) \<and>
    parse_incoming_packet pq reply = Inr (PacketCookieReply cr) \<and>
    receive_cookie_reply c h1 cr = (h2, Inr ()) \<and>
    (\<forall>e' d' h3 m2. format_any_init c e' h2 b' d' = Some (h3, Inr m2) \<longrightarrow>
      (\<exists>rl2 p. verify_packet pq c rl1 t2 (Some addr) m2 dst = (rl2, Inr p) \<and> parse_incoming_packet pq m2 = Inr p))"
proof -
  let ?cookie = "current_cookie c rl t1 addr"
  let ?rl' = "rl\<lparr> rl_count := rl_count rl + 1 \<rparr>"
  from format_any_init_wire [OF assms(1,2,5)] obtain p where
    p: "packet_wf p" "macs_len p = 32" "is_pq_packet p \<longleftrightarrow> b" "sender_of p = next_idx h"
      "m1 = with_macs c (hs_params h) (hs_cookies h) (wire_body p)"
      "hs_cookies h1 = macs_sent c (hs_params h) (next_idx h) (wire_body p) (hs_cookies h)" "hs_params h1 = hs_params h"
    by metis
  have parse: "parse_incoming_packet pq m1 = Inr p" using p assms(1,6) by (simp add: parse_with_macs)
  have m1: "mac1_ok c rl m1" "mac1_of m1 = b2s_keyed_mac_16 c (np_sending_mac1_key (hs_params h)) (wire_body p)"
    using p(5) assms(2,3) by (simp_all add: mac1_ok_def with_macs_parts [OF assms(1)] limiter_for_def)
  have len: "length ?cookie = 16" using crypto_ok_lengths(5) [OF assms(1)] by (simp add: current_cookie_def Let_def)
  from format_cookie_reply_eq [OF assms(1,8) len, of ?rl' "next_idx h" "mac1_of m1"] obtain n x where
    cr: "format_cookie_reply c ?rl' (next_idx h) ?cookie (mac1_of m1) dst = (?rl'\<lparr> rl_nonce_ctr := rl_nonce_ctr rl + 1 \<rparr>,
        Inr (wire_body (PacketCookieReply \<lparr> cr_receiver_idx = next_idx h, cr_nonce = n, cr_encrypted_cookie = x \<rparr>)))"
      "packet_wf (PacketCookieReply \<lparr> cr_receiver_idx = next_idx h, cr_nonce = n, cr_encrypted_cookie = x \<rparr>)"
      "xchacha_open c (rl_cookie_key rl) n (mac1_of m1) x = Some ?cookie" by auto
  let ?cr = "\<lparr> cr_receiver_idx = next_idx h, cr_nonce = n, cr_encrypted_cookie = x \<rparr>"
  let ?rl1 = "?rl'\<lparr> rl_nonce_ctr := rl_nonce_ctr rl + 1 \<rparr>"
  let ?h2 = "h1\<lparr> hs_cookies := (hs_cookies h1)\<lparr> ck_write_cookie := Some ?cookie \<rparr> \<rparr>"
  have v: "verify_packet pq c rl t1 (Some addr) m1 dst = (?rl1, Inl (WriteToNetwork (wire_body (PacketCookieReply ?cr))))"
    using verify_packet_handshake [OF parse _ assms(1), of rl t1 "Some addr" dst] p(2,4) m1(1) assms(4,7) cr(1)
    by (simp add: is_handshake_def Let_def not_le [symmetric] del: wire_body.simps)
  have r: "receive_cookie_reply c h1 ?cr = (?h2, Inr ())"
    using cr(3) len m1(2) p(6,7) assms(2,3) by (simp add: receive_cookie_reply_def macs_sent_def limiter_for_def)
  have s: "\<exists>rl2 p2. verify_packet pq c ?rl1 t2 (Some addr) m2 dst = (rl2, Inr p2) \<and> parse_incoming_packet pq m2 = Inr p2"
    if f: "format_any_init c e' ?h2 b' d' = Some (h3, Inr m2)" for e' d' h3 m2
  proof -
    have "hs_params ?h2 = noise_params_new c sa (x25519_public c sa) pb psk" using p(7) assms(2) by simp
    from format_any_init_wire [OF assms(1) this f] obtain p2 where
      p2: "packet_wf p2" "macs_len p2 = 32" "is_pq_packet p2 \<longleftrightarrow> b'"
        "m2 = with_macs c (hs_params ?h2) (hs_cookies ?h2) (wire_body p2)" by metis
    have parse2: "parse_incoming_packet pq m2 = Inr p2" using p2 assms(1,6) by (simp add: parse_with_macs)
    have "current_cookie c ?rl1 t2 addr = ?cookie" using assms(9) by (simp add: current_cookie_def)
    then have "mac1_ok c ?rl1 m2" "mac2_ok c ?rl1 t2 (Some addr) m2"
      using p2(4) p(7) assms(2,3)
      by (simp_all add: mac1_ok_def mac2_ok_def with_macs_parts [OF assms(1)] limiter_for_def)
    then show ?thesis
      using verify_packet_handshake [OF parse2 _ assms(1), of ?rl1 t2 "Some addr" dst] p2(2) parse2
      by (simp add: is_handshake_def Let_def)
  qed
  have "parse_incoming_packet pq (wire_body (PacketCookieReply ?cr)) = Inr (PacketCookieReply ?cr)"
    using parse_wire_body [OF cr(2), of pq "[]"] by (simp del: wire_body.simps)
  with v r s show ?thesis by blast
qed

text \<open>An instance whose MACs are never zero, so that a message without a cookie has a wrong second MAC.\<close>

definition flat_crypto :: crypto where
  "flat_crypto = plain_crypto\<lparr> blake2s_mac := \<lambda>n k x. replicate n 1 \<rparr>"

lemma flat_crypto_ok: "crypto_ok flat_crypto"
  using plain_crypto_ok by (simp add: crypto_ok_def flat_crypto_def)

lemma flat_params: "noise_params_new flat_crypto = noise_params_new plain_crypto" "x25519_public flat_crypto = x25519_public plain_crypto"
  by (intro ext, simp_all add: noise_params_new_def flat_crypto_def b2s_hash_def)

theorem cookie_exchange_witness:
  "\<exists>h1 m1 rl1 reply cr h2.
     format_any_init flat_crypto (demo_env 1) (demo_handshake [2] [3] 256) False (replicate 148 0) = Some (h1, Inr m1) \<and>
     verify_packet True flat_crypto (demo_limiter 0) demo_instant (Some (IpV4 [10, 0, 0, 1])) m1 (replicate 64 0) =
       (rl1, Inl (WriteToNetwork reply)) \<and>
     parse_incoming_packet True reply = Inr (PacketCookieReply cr) \<and>
     receive_cookie_reply flat_crypto h1 cr = (h2, Inr ())"
proof -
  let ?h = "demo_handshake [2] [3] 256"
  have np: "hs_params ?h = noise_params_new flat_crypto [2] (x25519_public flat_crypto [2]) (x25519_public flat_crypto [3]) (Some (replicate 32 9))"
    using demo_handshake_facts(1) [of "[2]" "[3]" 256] by (simp add: flat_params)
  have "HANDSHAKE_INIT_SZ \<le> length (replicate 148 (0 :: byte))" by (simp add: size_consts)
  from format_init_eq [OF flat_crypto_ok np demo_handshake_facts(2) [of "[2]" "[3]" 256 1] this] obtain h1 m1 where
    f: "format_any_init flat_crypto (demo_env 1) ?h False (replicate 148 0) = Some (h1, Inr m1)"
    by (simp add: format_any_init_def)
  have l: "limiter_for flat_crypto (x25519_public flat_crypto [3]) (demo_limiter 0)" "rl_limit (demo_limiter 0) \<le> rl_count (demo_limiter 0)"
    by (simp_all add: limiter_for_def demo_limiter_def rate_limiter_new_def b2s_hash_def flat_crypto_def)
  from format_any_init_wire [OF flat_crypto_ok np f] obtain p where
    m: "m1 = with_macs flat_crypto (hs_params ?h) (hs_cookies ?h) (wire_body p)" by metis
  have "ck_write_cookie (hs_cookies ?h) = None" by (simp add: demo_handshake_def handshake_new_def time_stamper_new_def)
  then have "mac2_of m1 = replicate 16 0"
    using m crypto_ok_lengths(4) [OF flat_crypto_ok] by (simp add: mac2_of_def with_macs_def Let_def)
  then have bad: "\<not> mac2_ok flat_crypto (demo_limiter 0) demo_instant (Some (IpV4 [10, 0, 0, 1])) m1"
    by (simp add: mac2_ok_def b2s_keyed_mac_16_2_def flat_crypto_def)
  have "COOKIE_REPLY_SZ \<le> length (replicate 64 (0 :: byte))" by (simp add: size_consts)
  from cookie_exchange [OF flat_crypto_ok np l f _ bad this refl, of False True] f show ?thesis by blast
qed

fun passed_unproven ::
  "bool \<Rightarrow> crypto \<Rightarrow> rate_limiter \<Rightarrow> (instant \<times> ip_addr option \<times> bytes \<times> bytes) list \<Rightarrow> nat" where
  "passed_unproven pq c rl [] = 0"
| "passed_unproven pq c rl ((now, a, src, dst) # ds) =
    (case verify_packet pq c rl now a src dst of (rl', r) \<Rightarrow>
      (case r of Inr p \<Rightarrow> if is_handshake p \<and> \<not> mac2_ok c rl now a src then 1 else 0 | Inl _ \<Rightarrow> 0)
      + passed_unproven pq c rl' ds)"

lemma format_cookie_reply_count:
  "format_cookie_reply c rl i k m1 dst = (rl', r) \<Longrightarrow> rl_count rl' = rl_count rl \<and> rl_limit rl' = rl_limit rl"
  by (auto simp: format_cookie_reply_def nonce_def Let_def split: if_splits prod.splits)

lemma verify_packet_count:
  assumes "crypto_ok c" and "verify_packet pq c rl now a src dst = (rl', r)"
  shows "rl_limit rl' = rl_limit rl"
    and "rl_count rl' = rl_count rl \<and> (\<forall>p. r = Inr p \<longrightarrow> \<not> is_handshake p) \<or>
      rl_count rl' = rl_count rl + 1 \<and> (\<forall>p. r = Inr p \<longrightarrow> mac2_ok c rl now a src \<or> rl_count rl < rl_limit rl)"
proof -
  have "rl_limit rl' = rl_limit rl \<and> (rl_count rl' = rl_count rl \<and> (\<forall>p. r = Inr p \<longrightarrow> \<not> is_handshake p) \<or>
      rl_count rl' = rl_count rl + 1 \<and> (\<forall>p. r = Inr p \<longrightarrow> mac2_ok c rl now a src \<or> rl_count rl < rl_limit rl))"
  proof (cases "parse_incoming_packet pq src")
    case (Inl e)
    with assms(2) show ?thesis by (auto simp: verify_packet_def)
  next
    case (Inr p)
    show ?thesis
    proof (cases "is_handshake p")
      case True
      with assms(2) verify_packet_handshake [OF Inr True assms(1)] show ?thesis
        by (auto simp: Let_def split: if_splits option.splits prod.splits sum.splits dest!: format_cookie_reply_count)
    next
      case False
      with assms(2) verify_packet_not_handshake [OF Inr False] show ?thesis by auto
    qed
  qed
  then show "rl_limit rl' = rl_limit rl"
    and "rl_count rl' = rl_count rl \<and> (\<forall>p. r = Inr p \<longrightarrow> \<not> is_handshake p) \<or>
      rl_count rl' = rl_count rl + 1 \<and> (\<forall>p. r = Inr p \<longrightarrow> mac2_ok c rl now a src \<or> rl_count rl < rl_limit rl)" by blast+
qed



text \<open>Messages that cannot be authentic cost the limiter nothing: a datagram that does not parse, or
  a handshake message whose first MAC is wrong, is answered with an error and leaves the limiter as it
  was, and data packets and cookie replies are never limited.\<close>
lemma limiter_ignores_unauthentic:
  assumes "crypto_ok c"
  shows "case parse_incoming_packet pq src of
      Inl e \<Rightarrow> verify_packet pq c rl now a src dst = (rl, Inl (Err e))
    | Inr p \<Rightarrow> if macs_len p = 0 then verify_packet pq c rl now a src dst = (rl, Inr p)
        else \<not> mac1_ok c rl src \<longrightarrow> verify_packet pq c rl now a src dst = (rl, Inl (Err InvalidMac))"
proof (cases "parse_incoming_packet pq src")
  case (Inl e)
  then show ?thesis by (simp add: verify_packet_def)
next
  case (Inr p)
  have "is_handshake p \<longleftrightarrow> macs_len p \<noteq> 0" by (cases p) (simp_all add: is_handshake_def)
  then show ?thesis
    using Inr verify_packet_handshake [OF Inr _ assms] verify_packet_not_handshake [OF Inr] by simp
qed

end
