(* ===== verification/Timers.thy ===== *)
theory Timers
  imports Clock
begin

text \<open>
  \<^verbatim>\<open>noise/timers.rs\<close>, the struct \<open>Timers\<close>: the times of the last events of a tunnel, as durations
  since the tunnel was started, and the flags that go with them. The array indexed by
  \<open>TimerName\<close> is a function on the names (the name \<open>Top\<close> is only the length of the array). The
  methods that \<^verbatim>\<open>noise/timers.rs\<close> adds to \<open>Tunn\<close> are in the theory of the tunnel.
\<close>

definition REKEY_AFTER_TIME :: duration where "REKEY_AFTER_TIME = from_secs 120"
definition REJECT_AFTER_TIME :: duration where "REJECT_AFTER_TIME = from_secs 180"
definition REKEY_ATTEMPT_TIME :: duration where "REKEY_ATTEMPT_TIME = from_secs 90"
definition REKEY_TIMEOUT :: duration where "REKEY_TIMEOUT = from_secs 5"
definition KEEPALIVE_TIMEOUT :: duration where "KEEPALIVE_TIMEOUT = from_secs 10"
definition COOKIE_EXPIRATION_TIME :: duration where "COOKIE_EXPIRATION_TIME = from_secs 120"

lemmas time_consts = REKEY_AFTER_TIME_def REJECT_AFTER_TIME_def REKEY_ATTEMPT_TIME_def REKEY_TIMEOUT_def
  KEEPALIVE_TIMEOUT_def COOKIE_EXPIRATION_TIME_def from_secs_def

definition N_SESSIONS :: nat where "N_SESSIONS = 8"

datatype timer_name =
    TimeCurrent | TimeSessionEstablished | TimeLastHandshakeStarted | TimeLastPacketReceived
  | TimeLastPacketSent | TimeLastDataPacketReceived | TimeLastDataPacketSent | TimeCookieReceived
  | TimePersistentKeepalive

record timers =
  tm_is_initiator :: bool
  tm_time_started :: instant
  tm_timers :: "timer_name \<Rightarrow> duration"
  tm_session_timers :: "duration list"
  tm_want_keepalive :: bool
  tm_want_handshake :: bool
  tm_persistent_keepalive :: nat
  tm_should_reset_rr :: bool

definition timers_new :: "instant \<Rightarrow> u16 option \<Rightarrow> bool \<Rightarrow> timers" where
  "timers_new now persistent_keepalive reset_rr =
    \<lparr> tm_is_initiator = False, tm_time_started = now, tm_timers = (\<lambda>_. 0),
      tm_session_timers = replicate N_SESSIONS 0, tm_want_keepalive = False, tm_want_handshake = False,
      tm_persistent_keepalive = (case persistent_keepalive of Some k \<Rightarrow> unat k | None \<Rightarrow> 0),
      tm_should_reset_rr = reset_rr \<rparr>"

definition timers_is_initiator :: "timers \<Rightarrow> bool" where
  "timers_is_initiator self = tm_is_initiator self"

definition timers_clear :: "timers \<Rightarrow> instant \<Rightarrow> timers" where
  "timers_clear self instant_now =
    (let now = duration_since instant_now (tm_time_started self)
     in self\<lparr> tm_timers := (\<lambda>_. now), tm_want_handshake := False, tm_want_keepalive := False \<rparr>)"

definition timers_index :: "timers \<Rightarrow> timer_name \<Rightarrow> duration" where
  "timers_index self index = tm_timers self index"

definition timers_index_mut :: "timers \<Rightarrow> timer_name \<Rightarrow> duration \<Rightarrow> timers" where
  "timers_index_mut self index t = self\<lparr> tm_timers := (tm_timers self)(index := t) \<rparr>"

lemma timers_index_simps [simp]:
  "timers_index (timers_index_mut self i t) j = (if j = i then t else timers_index self j)"
  "timers_index (self\<lparr> tm_session_timers := x \<rparr>) j = timers_index self j"
  "timers_index (self\<lparr> tm_want_keepalive := a \<rparr>) j = timers_index self j"
  "timers_index (self\<lparr> tm_want_handshake := a \<rparr>) j = timers_index self j"
  "timers_index (self\<lparr> tm_is_initiator := a \<rparr>) j = timers_index self j"
  "timers_index (self\<lparr> tm_should_reset_rr := a \<rparr>) j = timers_index self j"
  by (simp_all add: timers_index_def timers_index_mut_def)

lemma timers_index_mut_frame [simp]:
  "tm_session_timers (timers_index_mut self i t) = tm_session_timers self"
  "tm_time_started (timers_index_mut self i t) = tm_time_started self"
  "tm_is_initiator (timers_index_mut self i t) = tm_is_initiator self"
  "tm_want_keepalive (timers_index_mut self i t) = tm_want_keepalive self"
  "tm_want_handshake (timers_index_mut self i t) = tm_want_handshake self"
  "tm_persistent_keepalive (timers_index_mut self i t) = tm_persistent_keepalive self"
  "tm_should_reset_rr (timers_index_mut self i t) = tm_should_reset_rr self"
  by (simp_all add: timers_index_mut_def)

text \<open>All times are at most \<open>B\<close>: subtracting them from a later time does not panic.\<close>

definition timers_upto :: "duration \<Rightarrow> timers \<Rightarrow> bool" where
  "timers_upto B t \<longleftrightarrow> (\<forall>n. timers_index t n \<le> B) \<and> (\<forall>d\<in>set (tm_session_timers t). d \<le> B)"

lemma timers_upto_mono: "timers_upto B t \<Longrightarrow> B \<le> B' \<Longrightarrow> timers_upto B' t"
  unfolding timers_upto_def by (meson le_trans)

lemma timers_upto_frame [simp]:
  "timers_upto B (t\<lparr> tm_want_keepalive := a \<rparr>) = timers_upto B t"
  "timers_upto B (t\<lparr> tm_want_handshake := a \<rparr>) = timers_upto B t"
  "timers_upto B (t\<lparr> tm_is_initiator := a \<rparr>) = timers_upto B t"
  "timers_upto B (t\<lparr> tm_should_reset_rr := a \<rparr>) = timers_upto B t"
  by (simp_all add: timers_upto_def)

lemma timers_upto_index_mut: "timers_upto B t \<Longrightarrow> d \<le> B \<Longrightarrow> timers_upto B (timers_index_mut t n d)"
  by (auto simp: timers_upto_def)

lemma timers_upto_session:
  "timers_upto B t \<Longrightarrow> d \<le> B \<Longrightarrow> timers_upto B (t\<lparr> tm_session_timers := (tm_session_timers t)[i := d] \<rparr>)"
  using set_update_subset_insert [of "tm_session_timers t" i d] by (auto simp: timers_upto_def)

end
