(* ===== verification/Tunnel.thy ===== *)
theory Tunnel
  imports Rate_Limiter Timers
begin

text \<open>
  \<^verbatim>\<open>noise/mod.rs\<close> and the methods \<^verbatim>\<open>noise/timers.rs\<close> adds to it: a tunnel \<open>Tunn\<close> to one peer, with its
  handshake, the ring of the eight most recent sessions, the queue of packets that wait for a
  session, the timers and the rate limiter.

  The rate limiter is behind an \<open>Arc\<close> and may be shared between tunnels: it is an address in a
  heap of limiters, which the operations that use it take and return. What one call reads from
  the clock and the random number generator is the record \<open>readings\<close>. A result \<open>None\<close> is a panic.
\<close>

definition PEER_HANDSHAKE_RATE_LIMIT :: u64 where "PEER_HANDSHAKE_RATE_LIMIT = 10"
definition MAX_QUEUE_DEPTH :: nat where "MAX_QUEUE_DEPTH = 256"

record tunn =
  tn_handshake :: handshake
  tn_sessions :: "session option list"
  tn_current :: nat
  tn_packet_queue :: "bytes list"
  tn_timers :: timers
  tn_tx_bytes :: u64
  tn_rx_bytes :: u64
  tn_rate_limiter :: nat

record rl_heap =
  rlh_next :: nat
  rlh_at :: "nat \<Rightarrow> rate_limiter"

definition rl_alloc :: "rl_heap \<Rightarrow> rate_limiter \<Rightarrow> rl_heap \<times> nat" where
  "rl_alloc heap rl = (\<lparr> rlh_next = rlh_next heap + 1, rlh_at = (rlh_at heap)(rlh_next heap := rl) \<rparr>, rlh_next heap)"

definition rl_store :: "rl_heap \<Rightarrow> nat \<Rightarrow> rate_limiter \<Rightarrow> rl_heap" where
  "rl_store heap a rl = heap\<lparr> rlh_at := (rlh_at heap)(a := rl) \<rparr>"

text \<open>What creating a tunnel reads, and what the other calls read.\<close>

record new_readings =
  nr_system_time :: "duration option"
  nr_stamper_now :: instant
  nr_timers_now :: instant
  nr_secret_key :: bytes
  nr_nonce_key :: bytes
  nr_start_time :: instant
  nr_last_reset :: instant

record readings =
  rd_env :: env
  rd_time :: instant
  rd_reset :: instant
  rd_clear :: instant
  rd_elapsed :: instant
  rd_cookie :: instant

definition tunn_is_expired :: "tunn \<Rightarrow> bool" where
  "tunn_is_expired self = is_expired (tn_handshake self)"

definition own_limiter :: "crypto \<Rightarrow> new_readings \<Rightarrow> bytes \<Rightarrow> rate_limiter" where
  "own_limiter c nr static_public = rate_limiter_new c (nr_secret_key nr) (nr_nonce_key nr) (nr_start_time nr)
     (nr_last_reset nr) static_public PEER_HANDSHAKE_RATE_LIMIT"

definition tunn_new ::
  "crypto \<Rightarrow> new_readings \<Rightarrow> rl_heap \<Rightarrow> bytes \<Rightarrow> bytes \<Rightarrow> bytes option \<Rightarrow> u16 option \<Rightarrow> u32 \<Rightarrow> nat option
     \<Rightarrow> (rl_heap \<times> tunn) option" where
  "tunn_new c nr heap static_private peer_static_public preshared_key persistent_keepalive index rate_limiter = do {
     let static_public = x25519_public c static_private;
     handshake \<leftarrow> handshake_new c (nr_system_time nr) (nr_stamper_now nr) static_private static_public
       peer_static_public (push_bit 8 index) preshared_key;
     let timers = timers_new (nr_timers_now nr) persistent_keepalive (rate_limiter = None);
     let (heap, rl) = (case rate_limiter of Some rl \<Rightarrow> (heap, rl)
        | None \<Rightarrow> rl_alloc heap (own_limiter c nr static_public));
     Some (heap, \<lparr> tn_handshake = handshake, tn_sessions = replicate N_SESSIONS None, tn_current = 0,
       tn_packet_queue = [], tn_timers = timers, tn_tx_bytes = 0, tn_rx_bytes = 0, tn_rate_limiter = rl \<rparr>)
   }"

definition tunn_set_static_private ::
  "crypto \<Rightarrow> new_readings \<Rightarrow> rl_heap \<Rightarrow> tunn \<Rightarrow> bytes \<Rightarrow> bytes \<Rightarrow> nat option \<Rightarrow> (rl_heap \<times> tunn) option" where
  "tunn_set_static_private c nr heap self static_private static_public rate_limiter = do {
     let self = self\<lparr> tn_timers := (tn_timers self)\<lparr> tm_should_reset_rr := (rate_limiter = None) \<rparr> \<rparr>;
     let (heap, rl) = (case rate_limiter of Some rl \<Rightarrow> (heap, rl)
        | None \<Rightarrow> rl_alloc heap (own_limiter c nr static_public));
     let self = self\<lparr> tn_rate_limiter := rl \<rparr>;
     handshake \<leftarrow> handshake_set_static_private c (tn_handshake self) static_private static_public;
     Some (heap, self\<lparr> tn_handshake := handshake, tn_sessions := map (\<lambda>_. None) (tn_sessions self) \<rparr>)
   }"

section \<open>Timers of the tunnel\<close>

definition timer_tick :: "tunn \<Rightarrow> timer_name \<Rightarrow> tunn" where
  "timer_tick self timer_name =
    (let self = (case timer_name of
           TimeLastPacketReceived \<Rightarrow>
             self\<lparr> tn_timers := (tn_timers self)\<lparr> tm_want_keepalive := True, tm_want_handshake := False \<rparr> \<rparr>
         | TimeLastPacketSent \<Rightarrow>
             self\<lparr> tn_timers := (tn_timers self)\<lparr> tm_want_handshake := True, tm_want_keepalive := False \<rparr> \<rparr>
         | _ \<Rightarrow> self);
         time = timers_index (tn_timers self) TimeCurrent
     in self\<lparr> tn_timers := timers_index_mut (tn_timers self) timer_name time \<rparr>)"

definition timer_tick_session_established :: "tunn \<Rightarrow> bool \<Rightarrow> nat \<Rightarrow> tunn" where
  "timer_tick_session_established self is_initiator session_idx =
    (let self = timer_tick self TimeSessionEstablished;
         self = self\<lparr> tn_timers := (tn_timers self)\<lparr> tm_session_timers :=
           (tm_session_timers (tn_timers self))[session_idx mod N_SESSIONS := timers_index (tn_timers self) TimeCurrent] \<rparr> \<rparr>
     in self\<lparr> tn_timers := (tn_timers self)\<lparr> tm_is_initiator := is_initiator \<rparr> \<rparr>)"

definition clear_all :: "tunn \<Rightarrow> instant \<Rightarrow> tunn" where
  "clear_all self now =
    (let self = self\<lparr> tn_sessions := map (\<lambda>_. None) (tn_sessions self) \<rparr>;
         self = self\<lparr> tn_packet_queue := [] \<rparr>
     in self\<lparr> tn_timers := timers_clear (tn_timers self) now \<rparr>)"

text \<open>The loop of \<open>update_session_timers\<close> over the two arrays, slot by slot.\<close>

fun expire_slots :: "duration \<Rightarrow> duration list \<Rightarrow> session option list \<Rightarrow> (duration list \<times> session option list) option" where
  "expire_slots time_now (t # ts) (s # ss) = do {
     d \<leftarrow> duration_sub time_now t;
     let (t', s') = (if d > REJECT_AFTER_TIME then (time_now, None) else (t, s));
     (ts', ss') \<leftarrow> expire_slots time_now ts ss;
     Some (t' # ts', s' # ss')
   }"
| "expire_slots time_now ts ss = Some (ts, ss)"

definition update_session_timers :: "tunn \<Rightarrow> duration \<Rightarrow> tunn option" where
  "update_session_timers self time_now = do {
     (ts, ss) \<leftarrow> expire_slots time_now (tm_session_timers (tn_timers self)) (tn_sessions self);
     Some (self\<lparr> tn_timers := (tn_timers self)\<lparr> tm_session_timers := ts \<rparr>, tn_sessions := ss \<rparr>)
   }"

section \<open>Packet queue\<close>

definition queue_packet :: "tunn \<Rightarrow> bytes \<Rightarrow> tunn" where
  "queue_packet self packet =
    (if length (tn_packet_queue self) < MAX_QUEUE_DEPTH
     then self\<lparr> tn_packet_queue := tn_packet_queue self @ [packet] \<rparr> else self)"

definition requeue_packet :: "tunn \<Rightarrow> bytes \<Rightarrow> tunn" where
  "requeue_packet self packet =
    (if length (tn_packet_queue self) < MAX_QUEUE_DEPTH
     then self\<lparr> tn_packet_queue := packet # tn_packet_queue self \<rparr> else self)"

definition dequeue_packet :: "tunn \<Rightarrow> tunn \<times> bytes option" where
  "dequeue_packet self = (case tn_packet_queue self of
     [] \<Rightarrow> (self, None)
   | p # q \<Rightarrow> (self\<lparr> tn_packet_queue := q \<rparr>, Some p))"

section \<open>Sending\<close>

definition tunn_format_handshake_initiation ::
  "bool \<Rightarrow> crypto \<Rightarrow> readings \<Rightarrow> tunn \<Rightarrow> bytes \<Rightarrow> bool \<Rightarrow> (tunn \<times> tunn_result) option" where
  "tunn_format_handshake_initiation pq c rd self dst force_resend =
    (if is_in_progress (tn_handshake self) \<and> \<not> force_resend then Some (self, Done)
     else do {
       let self = (if is_expired (tn_handshake self)
         then self\<lparr> tn_timers := timers_clear (tn_timers self) (rd_clear rd) \<rparr> else self);
       let starting_new_handshake = (\<not> is_in_progress (tn_handshake self));
       (handshake, result) \<leftarrow>
         (if pq then format_pq_handshake_initiation c (rd_env rd) (tn_handshake self) dst
          else format_handshake_initiation c (rd_env rd) (tn_handshake self) dst);
       let self = self\<lparr> tn_handshake := handshake \<rparr>;
       (case result of
          Inr packet \<Rightarrow>
            let self = (if starting_new_handshake then timer_tick self TimeLastHandshakeStarted else self);
                self = timer_tick self TimeLastPacketSent
            in Some (self, WriteToNetwork packet)
        | Inl e \<Rightarrow> Some (self, Err e))
     })"

definition encapsulate ::
  "bool \<Rightarrow> crypto \<Rightarrow> readings \<Rightarrow> tunn \<Rightarrow> bytes \<Rightarrow> bytes \<Rightarrow> (tunn \<times> tunn_result) option" where
  "encapsulate pq c rd self src dst =
    (let current = tn_current self in
     case tn_sessions self ! (current mod N_SESSIONS) of
       Some session \<Rightarrow> do {
         (session, packet) \<leftarrow> format_packet_data c session src dst;
         let self = self\<lparr> tn_sessions := (tn_sessions self)[current mod N_SESSIONS := Some session] \<rparr>;
         let self = timer_tick self TimeLastPacketSent;
         let self = (if src \<noteq> [] then timer_tick self TimeLastDataPacketSent else self);
         let self = self\<lparr> tn_tx_bytes := tn_tx_bytes self + of_nat (length src) \<rparr>;
         Some (self, WriteToNetwork packet)
       }
     | None \<Rightarrow>
       let self = queue_packet self src
       in tunn_format_handshake_initiation pq c rd self dst False)"

definition send_queued_packet ::
  "bool \<Rightarrow> crypto \<Rightarrow> readings \<Rightarrow> tunn \<Rightarrow> bytes \<Rightarrow> (tunn \<times> tunn_result) option" where
  "send_queued_packet pq c rd self dst =
    (case dequeue_packet self of
       (self, None) \<Rightarrow> Some (self, Done)
     | (self, Some packet) \<Rightarrow> do {
         (self, r) \<leftarrow> encapsulate pq c rd self packet dst;
         (case r of
            Err _ \<Rightarrow> Some (requeue_packet self packet, Done)
          | r \<Rightarrow> Some (self, r))
       })"

section \<open>Receiving\<close>

definition set_current_session :: "tunn \<Rightarrow> nat \<Rightarrow> tunn" where
  "set_current_session self new_idx =
    (let cur_idx = tn_current self in
     if cur_idx = new_idx then self
     else if tn_sessions self ! (cur_idx mod N_SESSIONS) = None
          \<or> tm_session_timers (tn_timers self) ! (cur_idx mod N_SESSIONS)
              \<le> tm_session_timers (tn_timers self) ! (new_idx mod N_SESSIONS)
     then self\<lparr> tn_current := new_idx \<rparr>
     else self)"

definition validate_decapsulated_packet :: "tunn \<Rightarrow> bytes \<Rightarrow> tunn \<times> tunn_result" where
  "validate_decapsulated_packet self packet =
    (case packet of
       [] \<Rightarrow> (self, Done)
     | b # _ \<Rightarrow>
       (case
          (if drop_bit 4 b = 4 \<and> IPV4_MIN_HEADER_SIZE \<le> length packet then
             Some (unat (of_be_bytes (slice_of IPV4_LEN_OFF (IPV4_LEN_OFF + IP_LEN_SZ) packet) :: u16),
               IpV4 (slice_of IPV4_SRC_IP_OFF (IPV4_SRC_IP_OFF + IPV4_IP_SZ) packet))
           else if drop_bit 4 b = 6 \<and> IPV6_MIN_HEADER_SIZE \<le> length packet then
             Some (unat (of_be_bytes (slice_of IPV6_LEN_OFF (IPV6_LEN_OFF + IP_LEN_SZ) packet) :: u16) + IPV6_MIN_HEADER_SIZE,
               IpV6 (slice_of IPV6_SRC_IP_OFF (IPV6_SRC_IP_OFF + IPV6_IP_SZ) packet))
           else None) of
          None \<Rightarrow> (self, Err InvalidPacket)
        | Some (computed_len, src_ip_address) \<Rightarrow>
          if length packet < computed_len then (self, Err InvalidPacket)
          else
            let self = timer_tick self TimeLastDataPacketReceived;
                self = self\<lparr> tn_rx_bytes := tn_rx_bytes self + of_nat computed_len \<rparr>
            in (case src_ip_address of
                  IpV4 addr \<Rightarrow> (self, WriteToTunnelV4 (take computed_len packet) addr)
                | IpV6 addr \<Rightarrow> (self, WriteToTunnelV6 (take computed_len packet) addr))))"

definition handle_handshake_init ::
  "crypto \<Rightarrow> readings \<Rightarrow> tunn \<Rightarrow> handshake_init \<Rightarrow> bytes \<Rightarrow> (tunn \<times> tunn_result wg_result) option" where
  "handle_handshake_init c rd self p dst = do {
     (handshake, r) \<leftarrow> receive_handshake_initialization c (rd_env rd) (tn_handshake self) p dst;
     let self = self\<lparr> tn_handshake := handshake \<rparr>;
     try_with self r (\<lambda>(packet, session).
       let index = session_local_index session;
           self = self\<lparr> tn_sessions := (tn_sessions self)[index mod N_SESSIONS := Some session] \<rparr>;
           self = timer_tick self TimeLastPacketReceived;
           self = timer_tick self TimeLastPacketSent;
           self = timer_tick_session_established self False index
       in Some (self, Inr (WriteToNetwork packet)))
   }"

definition handle_handshake_response ::
  "crypto \<Rightarrow> readings \<Rightarrow> tunn \<Rightarrow> handshake_response \<Rightarrow> bytes \<Rightarrow> (tunn \<times> tunn_result wg_result) option" where
  "handle_handshake_response c rd self p dst = do {
     (handshake, r) \<leftarrow> receive_handshake_response c (rd_env rd) (tn_handshake self) p;
     let self = self\<lparr> tn_handshake := handshake \<rparr>;
     try_with self r (\<lambda>session. do {
       (session, keepalive_packet) \<leftarrow> format_packet_data c session [] dst;
       let l_idx = session_local_index session;
       let index = l_idx mod N_SESSIONS;
       let self = self\<lparr> tn_sessions := (tn_sessions self)[index := Some session] \<rparr>;
       let self = timer_tick self TimeLastPacketReceived;
       let self = timer_tick_session_established self True index;
       let self = set_current_session self l_idx;
       Some (self, Inr (WriteToNetwork keepalive_packet))
     })
   }"

definition handle_cookie_reply ::
  "crypto \<Rightarrow> tunn \<Rightarrow> packet_cookie_reply \<Rightarrow> (tunn \<times> tunn_result wg_result) option" where
  "handle_cookie_reply c self p =
    (let (handshake, r) = receive_cookie_reply c (tn_handshake self) p;
         self = self\<lparr> tn_handshake := handshake \<rparr>
     in try_with self r (\<lambda>_.
       let self = timer_tick self TimeLastPacketReceived;
           self = timer_tick self TimeCookieReceived
       in Some (self, Inr Done)))"

definition handle_pq_handshake_init ::
  "crypto \<Rightarrow> readings \<Rightarrow> tunn \<Rightarrow> pq_handshake_init \<Rightarrow> bytes \<Rightarrow> (tunn \<times> tunn_result wg_result) option" where
  "handle_pq_handshake_init c rd self p dst = do {
     (handshake, r) \<leftarrow> receive_pq_handshake_initialization c (rd_env rd) (tn_handshake self) p dst;
     let self = self\<lparr> tn_handshake := handshake \<rparr>;
     try_with self r (\<lambda>(packet, session).
       let index = session_local_index session;
           self = self\<lparr> tn_sessions := (tn_sessions self)[index mod N_SESSIONS := Some session] \<rparr>;
           self = timer_tick self TimeLastPacketReceived;
           self = timer_tick self TimeLastPacketSent;
           self = timer_tick_session_established self False index
       in Some (self, Inr (WriteToNetwork packet)))
   }"

definition handle_pq_handshake_response ::
  "crypto \<Rightarrow> readings \<Rightarrow> tunn \<Rightarrow> pq_handshake_response \<Rightarrow> bytes \<Rightarrow> (tunn \<times> tunn_result wg_result) option" where
  "handle_pq_handshake_response c rd self p dst = do {
     (handshake, r) \<leftarrow> receive_pq_handshake_response c (rd_env rd) (tn_handshake self) p;
     let self = self\<lparr> tn_handshake := handshake \<rparr>;
     try_with self r (\<lambda>session. do {
       (session, keepalive_packet) \<leftarrow> format_packet_data c session [] dst;
       let l_idx = session_local_index session;
       let index = l_idx mod N_SESSIONS;
       let self = self\<lparr> tn_sessions := (tn_sessions self)[index := Some session] \<rparr>;
       let self = timer_tick self TimeLastPacketReceived;
       let self = timer_tick_session_established self True index;
       let self = set_current_session self l_idx;
       Some (self, Inr (WriteToNetwork keepalive_packet))
     })
   }"

definition handle_data ::
  "crypto \<Rightarrow> tunn \<Rightarrow> packet_data \<Rightarrow> bytes \<Rightarrow> (tunn \<times> tunn_result wg_result) option" where
  "handle_data c self packet dst =
    (let r_idx = unat (pd_receiver_idx packet);
         idx = r_idx mod N_SESSIONS
     in case tn_sessions self ! idx of
          None \<Rightarrow> Some (self, Inl NoCurrentSession)
        | Some session \<Rightarrow> do {
            (session, r) \<leftarrow> receive_packet_data c session packet dst;
            let self = self\<lparr> tn_sessions := (tn_sessions self)[idx := Some session] \<rparr>;
            try_with self r (\<lambda>decapsulated_packet.
              let self = set_current_session self r_idx;
                  self = timer_tick self TimeLastPacketReceived;
                  (self, result) = validate_decapsulated_packet self decapsulated_packet
              in Some (self, Inr result))
          })"

definition handle_verified_packet ::
  "crypto \<Rightarrow> readings \<Rightarrow> tunn \<Rightarrow> packet \<Rightarrow> bytes \<Rightarrow> (tunn \<times> tunn_result) option" where
  "handle_verified_packet c rd self packet dst = do {
     (self, r) \<leftarrow> (case packet of
         HandshakeInit p \<Rightarrow> handle_handshake_init c rd self p dst
       | HandshakeResponse p \<Rightarrow> handle_handshake_response c rd self p dst
       | PacketCookieReply p \<Rightarrow> handle_cookie_reply c self p
       | PacketData p \<Rightarrow> handle_data c self p dst
       | PqHandshakeInit p \<Rightarrow> handle_pq_handshake_init c rd self p dst
       | PqHandshakeResponse p \<Rightarrow> handle_pq_handshake_response c rd self p dst);
     Some (self, (case r of Inr t \<Rightarrow> t | Inl e \<Rightarrow> Err e))
   }"

definition decapsulate ::
  "bool \<Rightarrow> crypto \<Rightarrow> readings \<Rightarrow> rl_heap \<Rightarrow> tunn \<Rightarrow> ip_addr option \<Rightarrow> bytes \<Rightarrow> bytes
     \<Rightarrow> (rl_heap \<times> tunn \<times> tunn_result) option" where
  "decapsulate pq c rd heap self src_addr datagram dst =
    (if datagram = [] then do {
       (self, r) \<leftarrow> send_queued_packet pq c rd self dst;
       Some (heap, self, r)
     } else
       let cookie = replicate COOKIE_REPLY_SZ 0;
           (rl, verified) = verify_packet pq c (rlh_at heap (tn_rate_limiter self)) (rd_cookie rd) src_addr datagram cookie;
           heap = rl_store heap (tn_rate_limiter self) rl
       in case verified of
            Inr packet \<Rightarrow> do {
              (self, r) \<leftarrow> handle_verified_packet c rd self packet dst;
              Some (heap, self, r)
            }
          | Inl (WriteToNetwork cookie) \<Rightarrow>
              if length dst < length cookie then None
              else Some (heap, self, WriteToNetwork (take (length cookie) (fill_prefix dst cookie)))
          | Inl (Err e) \<Rightarrow> Some (heap, self, Err e)
          | Inl _ \<Rightarrow> None)"

section \<open>Timers, continued\<close>

text \<open>\<open>now - t >= lim\<close>, which panics when \<open>t\<close> is later than \<open>now\<close>, and the short-circuit \<open>&&\<close>.\<close>

definition elapsed_ge :: "duration \<Rightarrow> duration \<Rightarrow> duration \<Rightarrow> bool option" where
  "elapsed_ge now t lim = map_option (\<lambda>d. lim \<le> d) (duration_sub now t)"

definition and_also :: "bool \<Rightarrow> bool option \<Rightarrow> bool option" where
  "and_also b m = (if b then m else Some False)"

text \<open>The branch of \<open>update_timers\<close> for a handshake that has not sent an initiation: whether a new
  handshake and whether a keepalive is required.\<close>

definition update_timers_idle :: "tunn \<Rightarrow> duration \<Rightarrow> (tunn \<times> bool \<times> bool) option" where
  "update_timers_idle self now = do {
     let session_established = timers_index (tn_timers self) TimeSessionEstablished;
     let aut_packet_received = timers_index (tn_timers self) TimeLastPacketReceived;
     let aut_packet_sent = timers_index (tn_timers self) TimeLastPacketSent;
     let data_packet_received = timers_index (tn_timers self) TimeLastDataPacketReceived;
     let data_packet_sent = timers_index (tn_timers self) TimeLastDataPacketSent;
     let persistent_keepalive = tm_persistent_keepalive (tn_timers self);
     on_send \<leftarrow> and_also (timers_is_initiator (tn_timers self) \<and> session_established < data_packet_sent)
       (elapsed_ge now session_established REKEY_AFTER_TIME);
     on_receive \<leftarrow> and_also (timers_is_initiator (tn_timers self) \<and> session_established < data_packet_received)
       (elapsed_ge now session_established (REJECT_AFTER_TIME - KEEPALIVE_TIMEOUT - REKEY_TIMEOUT));
     silent \<leftarrow> and_also (data_packet_sent > aut_packet_received)
       (elapsed_ge now aut_packet_received (KEEPALIVE_TIMEOUT + REKEY_TIMEOUT));
     let no_answer = (silent \<and> tm_want_handshake (tn_timers self));
     let self = (if silent then self\<lparr> tn_timers := (tn_timers self)\<lparr> tm_want_handshake := False \<rparr> \<rparr> else self);
     let handshake_initiation_required = (on_send \<or> on_receive \<or> no_answer);
     if handshake_initiation_required then Some (self, True, False)
     else do {
       quiet \<leftarrow> and_also (data_packet_received > aut_packet_sent)
         (elapsed_ge now aut_packet_sent KEEPALIVE_TIMEOUT);
       let keepalive = (quiet \<and> tm_want_keepalive (tn_timers self));
       let self = (if quiet then self\<lparr> tn_timers := (tn_timers self)\<lparr> tm_want_keepalive := False \<rparr> \<rparr> else self);
       persistent \<leftarrow> and_also (persistent_keepalive > 0)
         (elapsed_ge now (timers_index (tn_timers self) TimePersistentKeepalive) (from_secs persistent_keepalive));
       let self = (if persistent then timer_tick self TimePersistentKeepalive else self);
       Some (self, False, keepalive \<or> persistent)
     }
   }"

definition update_timers ::
  "bool \<Rightarrow> crypto \<Rightarrow> readings \<Rightarrow> rl_heap \<Rightarrow> tunn \<Rightarrow> bytes \<Rightarrow> (rl_heap \<times> tunn \<times> tunn_result) option" where
  "update_timers pq c rd heap self dst = do {
     let time = rd_time rd;
     let heap = (if tm_should_reset_rr (tn_timers self)
       then rl_store heap (tn_rate_limiter self) (reset_count (rlh_at heap (tn_rate_limiter self)) (rd_reset rd))
       else heap);
     let now = duration_since time (tm_time_started (tn_timers self));
     let self = self\<lparr> tn_timers := timers_index_mut (tn_timers self) TimeCurrent now \<rparr>;
     self \<leftarrow> update_session_timers self now;
     let session_established = timers_index (tn_timers self) TimeSessionEstablished;
     let handshake_started = timers_index (tn_timers self) TimeLastHandshakeStarted;
     if is_expired (tn_handshake self) then Some (heap, self, Err ConnectionExpired)
     else do {
       cookie_expired \<leftarrow> and_also (has_cookie (tn_handshake self))
         (elapsed_ge now (timers_index (tn_timers self) TimeCookieReceived) COOKIE_EXPIRATION_TIME);
       let self = (if cookie_expired then self\<lparr> tn_handshake := clear_cookie (tn_handshake self) \<rparr> else self);
       connection_expired \<leftarrow> elapsed_ge now session_established (REJECT_AFTER_TIME * 3);
       if connection_expired then
         Some (heap, clear_all (self\<lparr> tn_handshake := set_expired (tn_handshake self) \<rparr>) (rd_clear rd), Err ConnectionExpired)
       else do {
         gave_up \<leftarrow> and_also (handshake_timer (tn_handshake self) \<noteq> None)
           (elapsed_ge now handshake_started REKEY_ATTEMPT_TIME);
         if gave_up then
           Some (heap, clear_all (self\<lparr> tn_handshake := set_expired (tn_handshake self) \<rparr>) (rd_clear rd), Err ConnectionExpired)
         else do {
           (self, handshake_initiation_required, keepalive_required) \<leftarrow>
             (case handshake_timer (tn_handshake self) of
                Some time_init_sent \<Rightarrow>
                  Some (self, REKEY_TIMEOUT \<le> duration_since (rd_elapsed rd) time_init_sent, False)
              | None \<Rightarrow> update_timers_idle self now);
           if handshake_initiation_required then do {
             (self, r) \<leftarrow> tunn_format_handshake_initiation pq c rd self dst True;
             Some (heap, self, r)
           } else if keepalive_required then do {
             (self, r) \<leftarrow> encapsulate pq c rd self [] dst;
             Some (heap, self, r)
           } else Some (heap, self, Done)
         }
       }
     }
   }"

text \<open>\<open>time_since_last_handshake\<close>: the outer option is the panic of the subtraction.\<close>

definition time_since_last_handshake :: "tunn \<Rightarrow> instant \<Rightarrow> (duration option) option" where
  "time_since_last_handshake self now =
    (if tn_sessions self ! (tn_current self mod N_SESSIONS) \<noteq> None then
       map_option Some (duration_sub (duration_since now (tm_time_started (tn_timers self)))
         (timers_index (tn_timers self) TimeSessionEstablished))
     else Some None)"

definition persistent_keepalive :: "tunn \<Rightarrow> u16 option" where
  "persistent_keepalive self =
    (let keepalive = tm_persistent_keepalive (tn_timers self)
     in if keepalive > 0 then Some (of_nat keepalive) else None)"

end
