(* ===== verification/Tunnel_Invariants.thy ===== *)
theory Tunnel_Invariants
  imports Tunnel
begin

text \<open>
  Invariants of a tunnel under every entry point (\<open>encapsulate\<close>, \<open>decapsulate\<close>, \<open>update_timers\<close>,
  \<open>format_handshake_initiation\<close>, \<open>set_static_private\<close>). The locale \<open>tunnel_invariant\<close> is the interface
  between the entry points and a property of tunnels: a property that the elementary updates of
  the state keep is kept by every entry point. It is interpreted for the bound on the packet
  queue, for the layout of the session ring and for the invariant of the handshake.
\<close>

section \<open>Elementary updates\<close>

lemma hs_step_frame:
  assumes "hs_step c h h'"
  shows "hs_stamper h' = hs_stamper h"
    and "length (np_static_public (hs_params h)) = 32 \<Longrightarrow> length (np_static_public (hs_params h')) = 32"
    and "np_peer_static_public (hs_params h') = np_peer_static_public (hs_params h)"
proof -
  have "hs_stamper h' = hs_stamper h \<and> np_peer_static_public (hs_params h') = np_peer_static_public (hs_params h) \<and>
    (length (np_static_public (hs_params h)) = 32 \<longrightarrow> length (np_static_public (hs_params h')) = 32)"
    using assms
  proof cases
    case (send_init e pq d r)
    then have "init_frame e pq h h' r"
      by (auto simp: format_any_init_def dest: format_init_frame format_pq_init_frame split: if_splits)
    then show ?thesis by (auto simp: init_frame_def)
  next
    case (recv_init e pkt d r)
    then show ?thesis using receive_any_init_cases resp_frame_facts(4,5) by metis
  next
    case (recv_resp e pkt r)
    from receive_any_response_cases [OF this] show ?thesis by (auto simp: response_taken_def Let_def)
  next
    case (recv_cookie p r)
    from receive_cookie_cases [OF this] show ?thesis by auto
  qed (auto simp: set_expired_def clear_cookie_def handshake_set_static_private_def
      noise_params_set_static_private_def Let_def bind_eq_Some_conv split: if_splits)
  then show "hs_stamper h' = hs_stamper h"
    and "length (np_static_public (hs_params h)) = 32 \<Longrightarrow> length (np_static_public (hs_params h')) = 32"
    and "np_peer_static_public (hs_params h') = np_peer_static_public (hs_params h)" by blast+
qed

text \<open>What using a session may change: not its index nor its keys, and its replay filter only within
  the well-formed ones.\<close>

definition session_step :: "session \<Rightarrow> session \<Rightarrow> bool" where
  "session_step s s' \<longleftrightarrow> receiving_index s' = receiving_index s \<and> sending_index s' = sending_index s \<and>
     receiver s' = receiver s \<and> sender s' = sender s \<and>
     (validator_wf (receiving_key_counter s) \<longrightarrow> validator_wf (receiving_key_counter s'))"

lemma session_step_refl [simp]: "session_step s s"
  by (simp add: session_step_def)

lemma format_packet_data_step:
  "format_packet_data c s src dst = Some (s', out) \<Longrightarrow> s' = s\<lparr> sending_key_counter := sending_key_counter s + 1 \<rparr>"
  by (auto simp: format_packet_data_def Let_def split: if_splits prod.splits)

lemma receiving_counter_mark_step:
  assumes "receiving_counter_mark s k = Some (s', r)"
  shows "session_step s s'"
proof -
  from assms obtain v ret where m: "mark_did_receive (receiving_key_counter s) k = Some (v, ret)"
    and s': "s' = s\<lparr> receiving_key_counter := (case ret of Inr _ \<Rightarrow> v\<lparr> receive_cnt := receive_cnt v + 1 \<rparr> | Inl _ \<Rightarrow> v) \<rparr>"
    by (auto simp: receiving_counter_mark_def Let_def bind_eq_Some_conv)
  have "validator_wf v" if "validator_wf (receiving_key_counter s)"
    using mark_did_receive_wf [OF that, of k] m by auto
  then show ?thesis unfolding s' by (auto simp: session_step_def validator_wf_def split: sum.split)
qed

lemma receive_packet_data_step:
  assumes "receive_packet_data c s p dst = Some (s', r)"
  shows "session_step s s'"
  using assms receiving_counter_mark_step
  by (fastforce simp: receive_packet_data_def Let_def split: if_splits sum.splits option.splits Option.bind_splits)

text \<open>A message completes a handshake: the new state and the new session.\<close>

definition hs_result :: "crypto \<Rightarrow> handshake \<Rightarrow> handshake \<Rightarrow> session \<Rightarrow> bool" where
  "hs_result c h h' s \<longleftrightarrow> (\<exists>e pkt d m. receive_any_init c e h pkt d = Some (h', Inr (m, s))) \<or>
     (\<exists>e pkt. receive_any_response c e h pkt = Some (h', Inr s))"

lemma hs_resultI:
  "receive_handshake_initialization c e h p d = Some (h', Inr (m, s)) \<Longrightarrow> hs_result c h h' s"
  "receive_pq_handshake_initialization c e h q d = Some (h', Inr (m, s)) \<Longrightarrow> hs_result c h h' s"
  "receive_handshake_response c e h p' = Some (h', Inr s) \<Longrightarrow> hs_result c h h' s"
  "receive_pq_handshake_response c e h q' = Some (h', Inr s) \<Longrightarrow> hs_result c h h' s"
proof -
  show "hs_result c h h' s" if "receive_handshake_initialization c e h p d = Some (h', Inr (m, s))"
    using that unfolding hs_result_def by (intro disjI1 exI [of _ e] exI [of _ "HandshakeInit p"] exI [of _ d] exI [of _ m]) (simp add: receive_any_init_def)
  show "hs_result c h h' s" if "receive_pq_handshake_initialization c e h q d = Some (h', Inr (m, s))"
    using that unfolding hs_result_def by (intro disjI1 exI [of _ e] exI [of _ "PqHandshakeInit q"] exI [of _ d] exI [of _ m]) (simp add: receive_any_init_def)
  show "hs_result c h h' s" if "receive_handshake_response c e h p' = Some (h', Inr s)"
    using that unfolding hs_result_def by (intro disjI2 exI [of _ e] exI [of _ "HandshakeResponse p'"]) (simp add: receive_any_response_def)
  show "hs_result c h h' s" if "receive_pq_handshake_response c e h q' = Some (h', Inr s)"
    using that unfolding hs_result_def by (intro disjI2 exI [of _ e] exI [of _ "PqHandshakeResponse q'"]) (simp add: receive_any_response_def)
qed

lemma session_new_fields [simp]:
  "validator_wf (receiving_key_counter (session_new i j k l))" "receiving_index (session_new i j k l) = i"
  by (simp_all add: session_new_def validator_wf_def validator_default_def)

lemma hs_result_cases:
  assumes "hs_result c h h' s"
  shows "hs_step c h h'" and "validator_wf (receiving_key_counter s)"
    and "receiving_index s = next_idx h \<or> (\<exists>i sent b. awaiting h i = Some (sent, b) \<and> receiving_index s = sent_local_index sent)"
proof -
  have "hs_step c h h' \<and> validator_wf (receiving_key_counter s) \<and>
    (receiving_index s = next_idx h \<or> (\<exists>i sent b. awaiting h i = Some (sent, b) \<and> receiving_index s = sent_local_index sent))"
    using assms unfolding hs_result_def
  proof (elim disjE exE)
    fix e pkt d m assume r: "receive_any_init c e h pkt d = Some (h', Inr (m, s))"
    from receive_any_init_cases [OF r] show ?thesis
      using hs_step.recv_init [OF r] by (auto simp: resp_frame_def fresh_session_def)
  next
    fix e pkt assume r: "receive_any_response c e h pkt = Some (h', Inr s)"
    then have "\<exists>i sent b. awaiting h i = Some (sent, b) \<and> fresh_session (sent_local_index sent) s"
      by (cases pkt) (auto simp: receive_any_response_def dest!: receive_resp_cases receive_pq_resp_cases)
    then show ?thesis using hs_step.recv_resp [OF r] by (fastforce simp: fresh_session_def)
  qed
  then show "hs_step c h h'" and "validator_wf (receiving_key_counter s)"
    and "receiving_index s = next_idx h \<or> (\<exists>i sent b. awaiting h i = Some (sent, b) \<and> receiving_index s = sent_local_index sent)"
    by blast+
qed

text \<open>\<open>format_handshake_initiation\<close> of the tunnel when it does not return at once.\<close>

definition start_clear :: "readings \<Rightarrow> tunn \<Rightarrow> tunn" where
  "start_clear rd t = (if is_expired (tn_handshake t) then t\<lparr> tn_timers := timers_clear (tn_timers t) (rd_clear rd) \<rparr> else t)"

lemma start_clear_frame [simp]:
  "tn_handshake (start_clear rd t) = tn_handshake t" "tn_sessions (start_clear rd t) = tn_sessions t"
  "tn_packet_queue (start_clear rd t) = tn_packet_queue t" "tn_current (start_clear rd t) = tn_current t"
  by (simp_all add: start_clear_def)

lemma tunn_format_init_eq:
  assumes "\<not> (is_in_progress (tn_handshake t) \<and> \<not> force)"
  shows "tunn_format_handshake_initiation pq c rd t dst force =
    Option.bind (format_any_init c (rd_env rd) (tn_handshake (start_clear rd t)) pq dst) (\<lambda>(h, res).
      let t1 = (start_clear rd t)\<lparr> tn_handshake := h \<rparr> in
      case res of
        Inr m \<Rightarrow> Some (timer_tick (if \<not> is_in_progress (tn_handshake t) then timer_tick t1 TimeLastHandshakeStarted else t1)
          TimeLastPacketSent, WriteToNetwork m)
      | Inl e \<Rightarrow> Some (t1, Err e))"
proof -
  have "\<not> (is_in_progress (tn_handshake t) \<and> \<not> force) = True" using assms by simp
  then show ?thesis
    unfolding tunn_format_handshake_initiation_def format_any_init_def start_clear_def Let_def
    by (simp only: if_False not_True_eq_False not_not simp_thms if_cancel) (auto split: if_split)
qed

locale tunnel_invariant =
  fixes I :: "tunn \<Rightarrow> bool" and ok :: "instant \<Rightarrow> bool" and c :: crypto and fits :: "bytes \<Rightarrow> bool"
  assumes tick: "I t \<Longrightarrow> I (timer_tick t n)"
    and established: "I t \<Longrightarrow> I (timer_tick_session_established t b i)"
    and clear_timers: "I t \<Longrightarrow> ok now \<Longrightarrow> I (t\<lparr> tn_timers := timers_clear (tn_timers t) now \<rparr>)"
    and current_time: "I t \<Longrightarrow> ok now \<Longrightarrow>
      I (t\<lparr> tn_timers := timers_index_mut (tn_timers t) TimeCurrent (duration_since now (tm_time_started (tn_timers t))) \<rparr>)"
    and flags: "I t \<Longrightarrow> I (t\<lparr> tn_timers := (tn_timers t)\<lparr> tm_want_handshake := x \<rparr> \<rparr>)"
      "I t \<Longrightarrow> I (t\<lparr> tn_timers := (tn_timers t)\<lparr> tm_want_keepalive := x \<rparr> \<rparr>)"
      "I t \<Longrightarrow> I (t\<lparr> tn_timers := (tn_timers t)\<lparr> tm_should_reset_rr := x \<rparr> \<rparr>)"
    and handshake: "I t \<Longrightarrow> hs_step c (tn_handshake t) h \<Longrightarrow> I (t\<lparr> tn_handshake := h \<rparr>)"
    and new_session: "I t \<Longrightarrow> hs_result c (tn_handshake t) h s \<Longrightarrow> session_step s s' \<Longrightarrow>
      I (t\<lparr> tn_handshake := h, tn_sessions := (tn_sessions t)[session_local_index s mod N_SESSIONS := Some s'] \<rparr>)"
    and use_session: "I t \<Longrightarrow> tn_sessions t ! i = Some s \<Longrightarrow> session_step s s' \<Longrightarrow>
      I (t\<lparr> tn_sessions := (tn_sessions t)[i := Some s'] \<rparr>)"
    and drop_sessions: "I t \<Longrightarrow> I (t\<lparr> tn_sessions := map (\<lambda>_. None) (tn_sessions t) \<rparr>)"
    and expire_sessions: "I t \<Longrightarrow> ok now \<Longrightarrow>
      update_session_timers t (duration_since now (tm_time_started (tn_timers t))) = Some t' \<Longrightarrow> I t'"
    and set_queue: "I t \<Longrightarrow> length q \<le> MAX_QUEUE_DEPTH \<Longrightarrow> (\<And>p. p \<in> set q \<Longrightarrow> fits p) \<Longrightarrow> I (t\<lparr> tn_packet_queue := q \<rparr>)"
    and queue_le: "I t \<Longrightarrow> length (tn_packet_queue t) \<le> MAX_QUEUE_DEPTH"
    and queue_fits: "I t \<Longrightarrow> p \<in> set (tn_packet_queue t) \<Longrightarrow> fits p"
    and keepalive_fits: "fits []"
    and set_current: "I t \<Longrightarrow> I (t\<lparr> tn_current := k \<rparr>)"
    and traffic: "I t \<Longrightarrow> I (t\<lparr> tn_tx_bytes := y \<rparr>)" "I t \<Longrightarrow> I (t\<lparr> tn_rx_bytes := y \<rparr>)"
    and limiter: "I t \<Longrightarrow> I (t\<lparr> tn_rate_limiter := a \<rparr>)"
begin

lemma queue_ops:
  assumes "I t"
  shows "fits p \<Longrightarrow> I (queue_packet t p)" "fits p \<Longrightarrow> I (requeue_packet t p)"
    "dequeue_packet t = (t', r) \<Longrightarrow> I t' \<and> (\<forall>p. r = Some p \<longrightarrow> fits p)"
  using queue_le [OF assms] queue_fits [OF assms] assms
  by (auto simp: queue_packet_def requeue_packet_def dequeue_packet_def intro!: set_queue [OF assms] split: list.splits)

lemma format_init_inv:
  assumes "tunn_format_handshake_initiation pq c rd t dst force = Some (t', r)" and "I t" and "ok (rd_clear rd)"
  shows "I t'"
proof (cases "is_in_progress (tn_handshake t) \<and> \<not> force")
  case True
  with assms show ?thesis by (simp add: tunn_format_handshake_initiation_def)
next
  case False
  let ?t1 = "start_clear rd t"
  have t1: "I ?t1" using assms(2,3) clear_timers by (simp add: start_clear_def)
  from assms(1) tunn_format_init_eq [OF False] obtain h res where
    h: "format_any_init c (rd_env rd) (tn_handshake ?t1) pq dst = Some (h, res)"
    by (cases "format_any_init c (rd_env rd) (tn_handshake ?t1) pq dst") auto
  have "I (?t1\<lparr> tn_handshake := h \<rparr>)" using handshake [OF t1 hs_step.send_init [OF h]] .
  then show ?thesis using assms(1) tunn_format_init_eq [OF False] h by (cases res) (auto simp: tick Let_def split: if_splits)
qed

lemma encapsulate_inv:
  assumes "encapsulate pq c rd t src dst = Some (t', r)" and "I t" and "ok (rd_clear rd)" and "fits src"
  shows "I t'"
proof (cases "tn_sessions t ! (tn_current t mod N_SESSIONS)")
  case None
  with assms queue_ops(1) show ?thesis by (auto simp: encapsulate_def Let_def intro: format_init_inv)
next
  case (Some s)
  with assms(1) obtain s' out where f: "format_packet_data c s src dst = Some (s', out)"
    by (auto simp: encapsulate_def bind_eq_Some_conv)
  have "I (t\<lparr> tn_sessions := (tn_sessions t)[tn_current t mod N_SESSIONS := Some s'] \<rparr>)"
    using use_session [OF assms(2) Some, of s'] format_packet_data_step [OF f] by (simp add: session_step_def)
  with assms(1) Some f show ?thesis by (auto simp: encapsulate_def Let_def intro!: traffic tick split: if_splits)
qed

lemma send_queued_inv:
  assumes "send_queued_packet pq c rd t dst = Some (t', r)" and "I t" and "ok (rd_clear rd)"
  shows "I t'"
proof -
  obtain t1 p where d: "dequeue_packet t = (t1, p)" by fastforce
  have "I t1" and fits: "\<And>pkt. p = Some pkt \<Longrightarrow> fits pkt" using queue_ops(3) [OF assms(2) d] by auto
  show ?thesis
  proof (cases p)
    case None
    with assms(1) d \<open>I t1\<close> show ?thesis by (simp add: send_queued_packet_def)
  next
    case (Some pkt)
    with assms(1) d obtain t2 r2 where e: "encapsulate pq c rd t1 pkt dst = Some (t2, r2)"
      by (auto simp: send_queued_packet_def bind_eq_Some_conv)
    have "I t2" using encapsulate_inv [OF e \<open>I t1\<close> assms(3) fits [OF Some]] .
    with assms(1) d Some e queue_ops(2) fits [OF Some] show ?thesis by (cases r2) (auto simp: send_queued_packet_def)
  qed
qed

lemma set_current_session_inv: "I t \<Longrightarrow> I (set_current_session t k)"
  by (simp add: set_current_session_def Let_def set_current)

lemma validate_inv: "validate_decapsulated_packet t p = (t', r) \<Longrightarrow> I t \<Longrightarrow> I t'"
  by (auto simp: validate_decapsulated_packet_def Let_def tick traffic split: list.splits if_splits ip_addr.splits)

lemma store_new_session:
  assumes "I t" and "hs_result c (tn_handshake t) h s" and "session_step s s'"
  shows "I (timer_tick_session_established (timer_tick (timer_tick
      (t\<lparr> tn_handshake := h, tn_sessions := (tn_sessions t)[session_local_index s' mod N_SESSIONS := Some s'] \<rparr>)
      TimeLastPacketReceived) TimeLastPacketSent) b i)"
    and "I (set_current_session (timer_tick_session_established (timer_tick
      (t\<lparr> tn_handshake := h, tn_sessions := (tn_sessions t)[session_local_index s' mod N_SESSIONS := Some s'] \<rparr>)
      TimeLastPacketReceived) b i) k)"
proof -
  have "session_local_index s' = session_local_index s" using assms(3) by (simp add: session_step_def session_local_index_def)
  then show "I (timer_tick_session_established (timer_tick (timer_tick
      (t\<lparr> tn_handshake := h, tn_sessions := (tn_sessions t)[session_local_index s' mod N_SESSIONS := Some s'] \<rparr>)
      TimeLastPacketReceived) TimeLastPacketSent) b i)"
    and "I (set_current_session (timer_tick_session_established (timer_tick
      (t\<lparr> tn_handshake := h, tn_sessions := (tn_sessions t)[session_local_index s' mod N_SESSIONS := Some s'] \<rparr>)
      TimeLastPacketReceived) b i) k)"
    using new_session [OF assms] by (auto intro!: established tick set_current_session_inv)
qed

lemma handle_init_inv:
  assumes "I t"
  shows "handle_handshake_init c rd t p dst = Some (t', r) \<Longrightarrow> I t'"
    and "handle_pq_handshake_init c rd t q dst = Some (t', r) \<Longrightarrow> I t'"
proof -
  have step: "I (t\<lparr> tn_handshake := h \<rparr>)"
    if "receive_any_init c (rd_env rd) (tn_handshake t) pkt dst = Some (h, x)" for pkt h x
    using handshake [OF assms hs_step.recv_init [OF that]] .
  show "I t'" if a: "handle_handshake_init c rd t p dst = Some (t', r)"
  proof -
    from a obtain h x where h: "receive_handshake_initialization c (rd_env rd) (tn_handshake t) p dst = Some (h, x)"
      by (auto simp: handle_handshake_init_def bind_eq_Some_conv)
    have i: "I (t\<lparr> tn_handshake := h \<rparr>)" using step [of "HandshakeInit p"] h by (simp add: receive_any_init_def)
    show ?thesis using a h i store_new_session(1) [OF assms hs_resultI(1) session_step_refl]
      by (cases x) (auto simp: handle_handshake_init_def Let_def)
  qed
  show "I t'" if a: "handle_pq_handshake_init c rd t q dst = Some (t', r)"
  proof -
    from a obtain h x where h: "receive_pq_handshake_initialization c (rd_env rd) (tn_handshake t) q dst = Some (h, x)"
      by (auto simp: handle_pq_handshake_init_def bind_eq_Some_conv)
    have i: "I (t\<lparr> tn_handshake := h \<rparr>)" using step [of "PqHandshakeInit q"] h by (simp add: receive_any_init_def)
    show ?thesis using a h i store_new_session(1) [OF assms hs_resultI(2) session_step_refl]
      by (cases x) (auto simp: handle_pq_handshake_init_def Let_def)
  qed
qed

lemma handle_response_inv:
  assumes "I t"
  shows "handle_handshake_response c rd t p dst = Some (t', r) \<Longrightarrow> I t'"
    and "handle_pq_handshake_response c rd t q dst = Some (t', r) \<Longrightarrow> I t'"
proof -
  have step: "I (t\<lparr> tn_handshake := h \<rparr>)"
    if "receive_any_response c (rd_env rd) (tn_handshake t) pkt = Some (h, x)" for pkt h x
    using handshake [OF assms hs_step.recv_resp [OF that]] .
  have keep: "session_step s s'" if "format_packet_data c s [] dst = Some (s', out)" for s s' out
    using format_packet_data_step [OF that] by (simp add: session_step_def)
  show "I t'" if a: "handle_handshake_response c rd t p dst = Some (t', r)"
  proof -
    from a obtain h x where h: "receive_handshake_response c (rd_env rd) (tn_handshake t) p = Some (h, x)"
      by (auto simp: handle_handshake_response_def bind_eq_Some_conv)
    have i: "I (t\<lparr> tn_handshake := h \<rparr>)" using step [of "HandshakeResponse p"] h by (simp add: receive_any_response_def)
    show ?thesis using a h i store_new_session(2) [OF assms hs_resultI(3) keep]
      by (cases x) (auto simp: handle_handshake_response_def Let_def bind_eq_Some_conv)
  qed
  show "I t'" if a: "handle_pq_handshake_response c rd t q dst = Some (t', r)"
  proof -
    from a obtain h x where h: "receive_pq_handshake_response c (rd_env rd) (tn_handshake t) q = Some (h, x)"
      by (auto simp: handle_pq_handshake_response_def bind_eq_Some_conv)
    have i: "I (t\<lparr> tn_handshake := h \<rparr>)" using step [of "PqHandshakeResponse q"] h by (simp add: receive_any_response_def)
    show ?thesis using a h i store_new_session(2) [OF assms hs_resultI(4) keep]
      by (cases x) (auto simp: handle_pq_handshake_response_def Let_def bind_eq_Some_conv)
  qed
qed

lemma handle_cookie_inv:
  assumes "handle_cookie_reply c t p = Some (t', r)" and "I t"
  shows "I t'"
proof -
  obtain h x where h: "receive_cookie_reply c (tn_handshake t) p = (h, x)" by fastforce
  have "I (t\<lparr> tn_handshake := h \<rparr>)" using handshake [OF assms(2) hs_step.recv_cookie [OF h]] .
  with assms(1) h show ?thesis by (cases x) (auto simp: handle_cookie_reply_def Let_def tick)
qed

lemma handle_data_inv:
  assumes "handle_data c t p dst = Some (t', r)" and "I t"
  shows "I t'"
proof (cases "tn_sessions t ! (unat (pd_receiver_idx p) mod N_SESSIONS)")
  case None
  with assms show ?thesis by (simp add: handle_data_def)
next
  case (Some s)
  with assms(1) obtain s' x where rc: "receive_packet_data c s p dst = Some (s', x)"
    by (auto simp: handle_data_def Let_def bind_eq_Some_conv)
  let ?t1 = "t\<lparr> tn_sessions := (tn_sessions t)[unat (pd_receiver_idx p) mod N_SESSIONS := Some s'] \<rparr>"
  have i: "I ?t1" using use_session [OF assms(2) Some receive_packet_data_step [OF rc]] .
  show ?thesis
  proof (cases x)
    case (Inl e)
    with assms(1) Some rc i show ?thesis by (simp add: handle_data_def)
  next
    case (Inr d)
    obtain t2 res where v: "validate_decapsulated_packet (timer_tick (set_current_session ?t1 (unat (pd_receiver_idx p)))
        TimeLastPacketReceived) d = (t2, res)" by fastforce
    have "I t2" using validate_inv [OF v] i set_current_session_inv tick by blast
    with assms(1) Some rc Inr v show ?thesis by (simp add: handle_data_def)
  qed
qed

lemma handle_verified_inv:
  assumes "handle_verified_packet c rd t p dst = Some (t', r)" and "I t"
  shows "I t'"
  using assms(1) handle_init_inv [OF assms(2)] handle_response_inv [OF assms(2)] handle_cookie_inv [OF _ assms(2)]
    handle_data_inv [OF _ assms(2)]
  by (cases p) (auto simp: handle_verified_packet_def bind_eq_Some_conv)

lemma decapsulate_inv:
  assumes "decapsulate pq c rd heap t a d dst = Some (heap', t', r)" and "I t" and "ok (rd_clear rd)"
  shows "I t'"
  using assms
  by (auto simp: decapsulate_def Let_def bind_eq_Some_conv dest: send_queued_inv handle_verified_inv
      split: if_splits prod.splits sum.splits tunn_result.splits)

lemma idle_inv:
  assumes "update_timers_idle t now = Some (t', x)" and "I t"
  shows "I t'"
proof -
  note I = assms(2) flags(1) [OF assms(2)] flags(2) [OF assms(2)] flags(2) [OF flags(1) [OF assms(2)]]
  show ?thesis using assms(1) I
    by (auto simp: update_timers_idle_def Let_def bind_eq_Some_conv intro!: tick split: if_splits)
qed

lemma expire_connection:
  assumes "I t" and "ok now"
  shows "I (clear_all (t\<lparr> tn_handshake := set_expired (tn_handshake t) \<rparr>) now)"
proof -
  have "I (t\<lparr> tn_handshake := set_expired (tn_handshake t) \<rparr>)" using handshake [OF assms(1) hs_step.expire] .
  then show ?thesis using clear_timers [OF set_queue [OF drop_sessions, of _ "[]"] assms(2),
      of "t\<lparr> tn_handshake := set_expired (tn_handshake t) \<rparr>"]
    by (simp add: clear_all_def Let_def)
qed

lemma update_timers_inv:
  assumes "update_timers pq c rd heap t dst = Some (heap', t', r)" and "I t"
    and "ok (rd_time rd)" and "ok (rd_clear rd)"
  shows "I t'"
proof -
  define now where "now = duration_since (rd_time rd) (tm_time_started (tn_timers t))"
  define t1 where "t1 = t\<lparr> tn_timers := timers_index_mut (tn_timers t) TimeCurrent now \<rparr>"
  have "I t1" unfolding t1_def now_def using assms(2,3) by (rule current_time)
  from assms(1) obtain t2 where u: "update_session_timers t1 now = Some t2"
    by (auto simp: update_timers_def Let_def bind_eq_Some_conv now_def t1_def)
  have i2: "I t2" using expire_sessions [OF \<open>I t1\<close> assms(3)] u by (simp add: t1_def now_def)
  have i3: "I (t2\<lparr> tn_handshake := clear_cookie (tn_handshake t2) \<rparr>)" using handshake [OF i2 hs_step.drop_cookie] .
  show ?thesis using assms(1,4) u i2 i3 expire_connection [OF i2 assms(4)] expire_connection [OF i3 assms(4)]
    by (auto simp: update_timers_def Let_def bind_eq_Some_conv now_def t1_def
        dest: format_init_inv encapsulate_inv [OF _ _ _ keepalive_fits] idle_inv split: if_splits option.splits)
qed

lemma set_static_private_inv:
  assumes "tunn_set_static_private c nr heap t sk pk rl = Some (heap', t')" and "I t" and "length pk = 32"
  shows "I t'"
proof -
  let ?t1 = "t\<lparr> tn_timers := (tn_timers t)\<lparr> tm_should_reset_rr := (rl = None) \<rparr> \<rparr>"
  have i1: "I ?t1" using flags(3) [OF assms(2)] .
  from assms(1) obtain a h where h: "handshake_set_static_private c (tn_handshake t) sk pk = Some h"
    and t': "t' = ?t1\<lparr> tn_rate_limiter := a, tn_handshake := h, tn_sessions := map (\<lambda>_. None) (tn_sessions t) \<rparr>"
    by (auto simp: tunn_set_static_private_def Let_def bind_eq_Some_conv split: prod.splits option.splits)
  have "I (?t1\<lparr> tn_rate_limiter := a \<rparr>)" using limiter [OF i1] .
  then have "I (?t1\<lparr> tn_rate_limiter := a, tn_handshake := h \<rparr>)"
    using handshake [OF _ hs_step.rekey [OF _ assms(3)], of "?t1\<lparr> tn_rate_limiter := a \<rparr>"] h by simp
  from drop_sessions [OF this] show ?thesis by (simp add: t')
qed

end

section \<open>The invariants\<close>

text \<open>The session ring: two arrays of eight, every session in the slot of its local index, with a
  well-formed replay filter.\<close>

definition ring_inv :: "tunn \<Rightarrow> bool" where
  "ring_inv t \<longleftrightarrow> length (tn_packet_queue t) \<le> MAX_QUEUE_DEPTH \<and> length (tn_sessions t) = N_SESSIONS \<and>
     length (tm_session_timers (tn_timers t)) = N_SESSIONS \<and>
     (\<forall>i s. i < N_SESSIONS \<longrightarrow> tn_sessions t ! i = Some s \<longrightarrow>
        session_local_index s mod N_SESSIONS = i \<and> validator_wf (receiving_key_counter s))"

text \<open>The handshake: the indices it waits for, and a public key of 32 bytes.\<close>

definition hs_inv :: "tunn \<Rightarrow> bool" where
  "hs_inv t \<longleftrightarrow> length (tn_packet_queue t) \<le> MAX_QUEUE_DEPTH \<and> idx_inv (tn_handshake t) \<and>
     length (np_static_public (hs_params (tn_handshake t))) = 32"

text \<open>The timers: no recorded time is later than the clock reading \<open>T\<close>.\<close>

definition clock_inv :: "instant \<Rightarrow> tunn \<Rightarrow> bool" where
  "clock_inv T t \<longleftrightarrow> length (tn_packet_queue t) \<le> MAX_QUEUE_DEPTH \<and> instant_wf (tm_time_started (tn_timers t)) \<and>
     timers_upto (duration_since T (tm_time_started (tn_timers t))) (tn_timers t)"

definition not_later :: "instant \<Rightarrow> instant \<Rightarrow> bool" where
  "not_later T x \<longleftrightarrow> instant_wf T \<and> instant_wf x \<and> to_ns x \<le> to_ns T"

lemma timer_tick_frame [simp]:
  "tn_handshake (timer_tick t n) = tn_handshake t" "tn_sessions (timer_tick t n) = tn_sessions t"
  "tn_packet_queue (timer_tick t n) = tn_packet_queue t" "tn_current (timer_tick t n) = tn_current t"
  "tn_rate_limiter (timer_tick t n) = tn_rate_limiter t"
  "tm_session_timers (tn_timers (timer_tick t n)) = tm_session_timers (tn_timers t)"
  "tm_time_started (tn_timers (timer_tick t n)) = tm_time_started (tn_timers t)"
  "tm_should_reset_rr (tn_timers (timer_tick t n)) = tm_should_reset_rr (tn_timers t)"
  by (auto simp: timer_tick_def Let_def split: timer_name.splits)

lemma timer_tick_index [simp]:
  "timers_index (tn_timers (timer_tick t n)) m =
    (if m = n then timers_index (tn_timers t) TimeCurrent else timers_index (tn_timers t) m)"
  by (auto simp: timer_tick_def Let_def split: timer_name.splits)

lemma timer_established_frame [simp]:
  "tn_handshake (timer_tick_session_established t b i) = tn_handshake t"
  "tn_sessions (timer_tick_session_established t b i) = tn_sessions t"
  "tn_packet_queue (timer_tick_session_established t b i) = tn_packet_queue t"
  "tn_current (timer_tick_session_established t b i) = tn_current t"
  "tm_session_timers (tn_timers (timer_tick_session_established t b i)) =
    (tm_session_timers (tn_timers t))[i mod N_SESSIONS := timers_index (tn_timers t) TimeCurrent]"
  "tm_time_started (tn_timers (timer_tick_session_established t b i)) = tm_time_started (tn_timers t)"
  by (auto simp: timer_tick_session_established_def Let_def)

lemma timers_clear_frame [simp]:
  "tm_session_timers (timers_clear t now) = tm_session_timers t"
  "tm_time_started (timers_clear t now) = tm_time_started t"
  "timers_index (timers_clear t now) n = duration_since now (tm_time_started t)"
  by (simp_all add: timers_clear_def timers_index_def Let_def)

lemma timers_upto_clear:
  "timers_upto B t \<Longrightarrow> duration_since now (tm_time_started t) \<le> B \<Longrightarrow> timers_upto B (timers_clear t now)"
  by (simp add: timers_upto_def)

lemma timers_upto_tick: "timers_upto B (tn_timers t) \<Longrightarrow> timers_upto B (tn_timers (timer_tick t n))"
  by (simp add: timers_upto_def)

lemma timers_upto_established:
  "timers_upto B (tn_timers t) \<Longrightarrow> timers_upto B (tn_timers (timer_tick_session_established t b i))"
  using set_update_subset_insert [of "tm_session_timers (tn_timers t)" "i mod N_SESSIONS" "timers_index (tn_timers t) TimeCurrent"]
  by (auto simp: timers_upto_def timer_tick_session_established_def Let_def)

text \<open>The loop over the session slots: it returns when no slot is newer than \<open>now\<close>, and clears exactly
  the sessions that are older than three minutes.\<close>

lemma expire_slots_eq:
  assumes "length ts = length ss"
  shows "expire_slots now ts ss =
    (if \<forall>d\<in>set ts. d \<le> now then
       Some (map (\<lambda>d. if now - d > REJECT_AFTER_TIME then now else d) ts,
         map2 (\<lambda>d s. if now - d > REJECT_AFTER_TIME then None else s) ts ss)
     else None)"
  using assms
  by (induction ts ss rule: list_induct2) (auto simp: duration_sub_def split: Option.bind_splits)

lemma update_session_timers_eq:
  assumes "length (tm_session_timers (tn_timers t)) = length (tn_sessions t)"
  shows "update_session_timers t now =
    (if \<forall>d\<in>set (tm_session_timers (tn_timers t)). d \<le> now then
       Some (t\<lparr> tn_timers := (tn_timers t)\<lparr> tm_session_timers :=
           map (\<lambda>d. if now - d > REJECT_AFTER_TIME then now else d) (tm_session_timers (tn_timers t)) \<rparr>,
         tn_sessions := map2 (\<lambda>d s. if now - d > REJECT_AFTER_TIME then None else s)
           (tm_session_timers (tn_timers t)) (tn_sessions t) \<rparr>)
     else None)"
  by (simp add: update_session_timers_def expire_slots_eq [OF assms])

lemma expire_slots_mem:
  "expire_slots now ts ss = Some (ts', ss') \<Longrightarrow> set ts' \<subseteq> insert now (set ts)"
proof (induction ts arbitrary: ss ts' ss')
  case (Cons d ts)
  then show ?case by (cases ss) (fastforce simp: bind_eq_Some_conv split: if_splits)+
qed simp

lemma expire_slots_sessions:
  "expire_slots now ts ss = Some (ts', ss') \<Longrightarrow> Some s \<in> set ss' \<Longrightarrow> Some s \<in> set ss"
proof (induction ts arbitrary: ss ts' ss')
  case (Cons d ts)
  then show ?case by (cases ss) (fastforce simp: bind_eq_Some_conv split: if_splits)+
qed simp

lemma N_SESSIONS_pos [simp]: "0 < N_SESSIONS"
  by (simp add: N_SESSIONS_def)

interpretation ring: tunnel_invariant ring_inv "\<lambda>_. True" c "\<lambda>_. True" for c
proof
  show "ring_inv (t\<lparr> tn_handshake := h, tn_sessions := (tn_sessions t)[session_local_index s mod N_SESSIONS := Some s'] \<rparr>)"
    if "ring_inv t" "hs_result c (tn_handshake t) h s" "session_step s s'" for t h s s'
  proof -
    have "validator_wf (receiving_key_counter s')" "session_local_index s' = session_local_index s"
      using hs_result_cases(2) [OF that(2)] that(3) by (auto simp: session_step_def session_local_index_def)
    with that(1) show ?thesis by (auto simp: ring_inv_def nth_list_update)
  qed
  show "ring_inv (t\<lparr> tn_sessions := (tn_sessions t)[i := Some s'] \<rparr>)"
    if "ring_inv t" "tn_sessions t ! i = Some s" "session_step s s'" for t i s s'
  proof (cases "i < N_SESSIONS")
    case True
    with that have "session_local_index s' mod N_SESSIONS = i \<and> validator_wf (receiving_key_counter s')"
      by (auto simp: ring_inv_def session_step_def session_local_index_def)
    with that(1) True show ?thesis by (auto simp: ring_inv_def nth_list_update)
  qed (use that(1) in \<open>auto simp: ring_inv_def\<close>)
  show "ring_inv t'" if "ring_inv t"
    "update_session_timers t (duration_since now (tm_time_started (tn_timers t))) = Some t'" for t now t'
    using that by (auto simp: ring_inv_def update_session_timers_eq split: if_splits)
qed (auto simp: ring_inv_def)

interpretation hsk: tunnel_invariant hs_inv "\<lambda>_. True" c "\<lambda>_. True" for c
proof
  show "hs_inv (t\<lparr> tn_handshake := h \<rparr>)" if "hs_inv t" "hs_step c (tn_handshake t) h" for t h
    using that idx_inv_step [OF that(2)] hs_step_frame(2) [OF that(2)] by (auto simp: hs_inv_def)
  show "hs_inv (t\<lparr> tn_handshake := h, tn_sessions := (tn_sessions t)[session_local_index s mod N_SESSIONS := Some s'] \<rparr>)"
    if "hs_inv t" "hs_result c (tn_handshake t) h s" for t h s s'
    using that(1) idx_inv_step [OF hs_result_cases(1) [OF that(2)]] hs_step_frame(2) [OF hs_result_cases(1) [OF that(2)]]
    by (auto simp: hs_inv_def)
  show "hs_inv t'" if "hs_inv t"
    "update_session_timers t (duration_since now (tm_time_started (tn_timers t))) = Some t'" for t now t'
    using that by (auto simp: hs_inv_def update_session_timers_def bind_eq_Some_conv)
qed (auto simp: hs_inv_def)

interpretation clk: tunnel_invariant "clock_inv T" "not_later T" c "\<lambda>_. True" for T c
proof
  note le = duration_since_mono
  show "clock_inv T (t\<lparr> tn_timers := timers_clear (tn_timers t) now \<rparr>)" if "clock_inv T t" "not_later T now" for t now
    using that by (auto simp: clock_inv_def not_later_def intro!: timers_upto_clear le)
  show "clock_inv T (t\<lparr> tn_timers := timers_index_mut (tn_timers t) TimeCurrent (duration_since now (tm_time_started (tn_timers t))) \<rparr>)"
    if "clock_inv T t" "not_later T now" for t now
    using that by (auto simp: clock_inv_def not_later_def intro!: timers_upto_index_mut le)
  show "clock_inv T t'" if i: "clock_inv T t" "not_later T now"
    and u: "update_session_timers t (duration_since now (tm_time_started (tn_timers t))) = Some t'" for t now t'
  proof -
    have now: "duration_since now (tm_time_started (tn_timers t)) \<le> duration_since T (tm_time_started (tn_timers t))"
      using i by (auto simp: clock_inv_def not_later_def intro!: le)
    from u obtain ts ss where e: "expire_slots (duration_since now (tm_time_started (tn_timers t)))
        (tm_session_timers (tn_timers t)) (tn_sessions t) = Some (ts, ss)"
      and t': "t' = t\<lparr> tn_timers := (tn_timers t)\<lparr> tm_session_timers := ts \<rparr>, tn_sessions := ss \<rparr>"
      by (auto simp: update_session_timers_def bind_eq_Some_conv)
    show ?thesis using expire_slots_mem [OF e] i(1) now
      by (auto simp: t' clock_inv_def timers_upto_def)
  qed
qed (auto simp: clock_inv_def intro: timers_upto_tick timers_upto_established)

text \<open>The clock a tunnel was started with stays.\<close>

definition start_inv :: "time_stamper \<Rightarrow> instant \<Rightarrow> tunn \<Rightarrow> bool" where
  "start_inv st x t \<longleftrightarrow> length (tn_packet_queue t) \<le> MAX_QUEUE_DEPTH \<and> hs_stamper (tn_handshake t) = st \<and>
     tm_time_started (tn_timers t) = x"

interpretation start: tunnel_invariant "start_inv st x" "\<lambda>_. True" c "\<lambda>_. True" for st x c
proof
  show "start_inv st x (t\<lparr> tn_handshake := h \<rparr>)" if "start_inv st x t" "hs_step c (tn_handshake t) h" for t h
    using that hs_step_frame(1) [OF that(2)] by (auto simp: start_inv_def)
  show "start_inv st x (t\<lparr> tn_handshake := h, tn_sessions := (tn_sessions t)[session_local_index s mod N_SESSIONS := Some s'] \<rparr>)"
    if "start_inv st x t" "hs_result c (tn_handshake t) h s" for t h s s'
    using that(1) hs_step_frame(1) [OF hs_result_cases(1) [OF that(2)]] by (auto simp: start_inv_def)
  show "start_inv st x t'" if "start_inv st x t"
    "update_session_timers t (duration_since now (tm_time_started (tn_timers t))) = Some t'" for t now t'
    using that by (auto simp: start_inv_def update_session_timers_def bind_eq_Some_conv)
qed (auto simp: start_inv_def)

text \<open>No packet of the queue is longer than \<open>m\<close>.\<close>

definition queue_inv :: "nat \<Rightarrow> tunn \<Rightarrow> bool" where
  "queue_inv m t \<longleftrightarrow> length (tn_packet_queue t) \<le> MAX_QUEUE_DEPTH \<and> (\<forall>p\<in>set (tn_packet_queue t). length p \<le> m)"

interpretation que: tunnel_invariant "queue_inv m" "\<lambda>_. True" c "\<lambda>p. length p \<le> m" for m c
  by unfold_locales (auto simp: queue_inv_def update_session_timers_def bind_eq_Some_conv)

text \<open>Every index the tunnel uses has the tunnel's own number as its upper 24 bits, and the key of the
  peer stays.\<close>

definition own_indices :: "u32 \<Rightarrow> handshake \<Rightarrow> bool" where
  "own_indices n h \<longleftrightarrow> drop_bit 8 (hs_next_index h) = n \<and>
     (\<forall>s. InitSent s \<in> {hs_state h, hs_previous h} \<longrightarrow> drop_bit 8 (sent_local_index s) = n) \<and>
     (ck_last_mac1 (hs_cookies h) \<noteq> None \<longrightarrow> drop_bit 8 (ck_index (hs_cookies h)) = n)"

definition own_inv :: "u32 \<Rightarrow> bytes \<Rightarrow> tunn \<Rightarrow> bool" where
  "own_inv n k t \<longleftrightarrow> length (tn_packet_queue t) \<le> MAX_QUEUE_DEPTH \<and> own_indices n (tn_handshake t) \<and>
     np_peer_static_public (hs_params (tn_handshake t)) = k \<and>
     (\<forall>s. Some s \<in> set (tn_sessions t) \<longrightarrow> drop_bit 8 (receiving_index s) = n)"

lemma own_indices_step:
  assumes "hs_step c h h'" and "own_indices n h"
  shows "own_indices n h'"
  using assms(1)
proof cases
  case (send_init e pq d r)
  then have "init_frame e pq h h' r"
    by (auto simp: format_any_init_def dest: format_init_frame format_pq_init_frame split: if_splits)
  then show ?thesis using assms(2) next_idx_high [of h] by (auto simp: init_frame_def own_indices_def)
next
  case (recv_init e pkt d r)
  from receive_any_init_cases [OF this] show ?thesis
    using assms(2) next_idx_high [of h] by (auto simp: resp_frame_def take_init_def own_indices_def next_idx_def inc_index_def Let_def)
next
  case (recv_resp e pkt r)
  from receive_any_response_cases [OF this] show ?thesis
    using assms(2) by (auto simp: response_taken_def own_indices_def Let_def split: if_splits)
next
  case (recv_cookie p r)
  from receive_cookie_cases [OF this] show ?thesis using assms(2) by (auto simp: own_indices_def)
qed (use assms(2) in \<open>auto simp: own_indices_def set_expired_def clear_cookie_def handshake_set_static_private_def
    noise_params_set_static_private_def Let_def bind_eq_Some_conv split: if_splits\<close>)

lemma awaiting_sent: "awaiting h i = Some (s, b) \<Longrightarrow> InitSent s \<in> {hs_state h, hs_previous h}"
  by (cases "hs_state h"; cases "hs_previous h") (auto simp: awaiting_def split: if_splits)

lemma own_indices_result:
  assumes "hs_result c h h' s" and "own_indices n h"
  shows "drop_bit 8 (receiving_index s) = n"
  using hs_result_cases(3) [OF assms(1)]
proof
  assume "receiving_index s = next_idx h"
  then show ?thesis using assms(2) next_idx_high [of h] by (simp add: own_indices_def)
next
  assume "\<exists>i sent b. awaiting h i = Some (sent, b) \<and> receiving_index s = sent_local_index sent"
  then show ?thesis using assms(2) awaiting_sent by (fastforce simp: own_indices_def)
qed

lemma set_update_cases: "x \<in> set (xs[i := y]) \<Longrightarrow> x = y \<or> x \<in> set xs"
  using set_update_subset_insert by fastforce

interpretation own: tunnel_invariant "own_inv n k" "\<lambda>_. True" c "\<lambda>_. True" for n k c
proof
  show "own_inv n k (t\<lparr> tn_handshake := h \<rparr>)" if "own_inv n k t" "hs_step c (tn_handshake t) h" for t h
    using that own_indices_step [OF that(2)] hs_step_frame(3) [OF that(2)] by (auto simp: own_inv_def)
  show "own_inv n k (t\<lparr> tn_handshake := h, tn_sessions := (tn_sessions t)[session_local_index s mod N_SESSIONS := Some s'] \<rparr>)"
    if "own_inv n k t" "hs_result c (tn_handshake t) h s" "session_step s s'" for t h s s'
    using that own_indices_step [OF hs_result_cases(1) [OF that(2)]] own_indices_result [OF that(2)]
      hs_step_frame(3) [OF hs_result_cases(1) [OF that(2)]]
    by (auto simp: own_inv_def session_step_def dest!: set_update_cases)
  show "own_inv n k (t\<lparr> tn_sessions := (tn_sessions t)[i := Some s'] \<rparr>)"
    if "own_inv n k t" "tn_sessions t ! i = Some s" "session_step s s'" for t i s s'
  proof (cases "i < length (tn_sessions t)")
    case True
    then have "Some s \<in> set (tn_sessions t)" using that(2) nth_mem by fastforce
    with that show ?thesis by (auto simp: own_inv_def session_step_def dest!: set_update_cases)
  qed (use that(1) in \<open>simp add: list_update_beyond\<close>)
  show "own_inv n k t'" if "own_inv n k t"
    "update_session_timers t (duration_since now (tm_time_started (tn_timers t))) = Some t'" for t now t'
    using that expire_slots_sessions
    by (fastforce simp: own_inv_def update_session_timers_def bind_eq_Some_conv)
qed (auto simp: own_inv_def)

text \<open>Steps of a tunnel: each public operation, with readings of a clock that does not go back. The
  time of the state is the last reading; the rate limiters are arbitrary in every step, since other
  tunnels may share them.\<close>

definition clock_between :: "instant \<Rightarrow> readings \<Rightarrow> instant \<Rightarrow> bool" where
  "clock_between T rd T' \<longleftrightarrow> instant_wf T \<and> instant_wf T' \<and> instant_wf (rd_time rd) \<and> instant_wf (rd_clear rd) \<and>
     to_ns T \<le> to_ns (rd_time rd) \<and> to_ns (rd_time rd) \<le> to_ns (rd_clear rd) \<and> to_ns (rd_clear rd) \<le> to_ns T'"

inductive tunn_step :: "bool \<Rightarrow> crypto \<Rightarrow> instant \<times> tunn \<Rightarrow> instant \<times> tunn \<Rightarrow> bool" for pq c where
  send: "encapsulate pq c rd t src dst = Some (t', r) \<Longrightarrow> clock_between T rd T' \<Longrightarrow> tunn_step pq c (T, t) (T', t')"
| receive: "decapsulate pq c rd heap t a d dst = Some (heap', t', r) \<Longrightarrow> clock_between T rd T' \<Longrightarrow>
    tunn_step pq c (T, t) (T', t')"
| verified: "handle_verified_packet c rd t p dst = Some (t', r) \<Longrightarrow> clock_between T rd T' \<Longrightarrow>
    tunn_step pq c (T, t) (T', t')"
| timers: "update_timers pq c rd heap t dst = Some (heap', t', r) \<Longrightarrow> clock_between T rd T' \<Longrightarrow>
    tunn_step pq c (T, t) (T', t')"
| initiate: "tunn_format_handshake_initiation pq c rd t dst force = Some (t', r) \<Longrightarrow> clock_between T rd T' \<Longrightarrow>
    tunn_step pq c (T, t) (T', t')"
| set_key: "tunn_set_static_private c nr heap t sk pk rl = Some (heap', t') \<Longrightarrow> length pk = 32 \<Longrightarrow>
    tunn_step pq c (T, t) (T, t')"

definition tunn_reach :: "bool \<Rightarrow> crypto \<Rightarrow> instant \<Rightarrow> tunn \<Rightarrow> bool" where
  "tunn_reach pq c T t \<longleftrightarrow> (\<exists>nr heap sk peer psk ka idx rl heap0 t0.
     tunn_new c nr heap sk peer psk ka idx rl = Some (heap0, t0) \<and> instant_wf (nr_timers_now nr) \<and>
     (tunn_step pq c)\<^sup>*\<^sup>* (nr_timers_now nr, t0) (T, t))"

text \<open>A step keeps every invariant of the interface.\<close>

lemma clock_inv_mono: "clock_inv T t \<Longrightarrow> instant_wf T \<Longrightarrow> instant_wf T' \<Longrightarrow> to_ns T \<le> to_ns T' \<Longrightarrow> clock_inv T' t"
  by (auto simp: clock_inv_def intro: timers_upto_mono duration_since_mono)

definition tunn_wf :: "instant \<Rightarrow> tunn \<Rightarrow> bool" where
  "tunn_wf T t \<longleftrightarrow> instant_wf T \<and> ring_inv t \<and> hs_inv t \<and> clock_inv T t"

lemma tunn_step_wf:
  assumes "tunn_step pq c (T, t) (T', t')" and "tunn_wf T t"
  shows "tunn_wf T' t'"
proof -
  have i: "ring_inv t" "hs_inv t" "clock_inv T t" "instant_wf T" using assms(2) by (auto simp: tunn_wf_def)
  have up: "clock_inv T' t" "not_later T' (rd_clear rd)" "not_later T' (rd_time rd)" "instant_wf T'"
    if "clock_between T rd T'" for rd
    using that i(3,4) clock_inv_mono [of T t T'] by (auto simp: clock_between_def not_later_def)
  from assms(1) show ?thesis
  proof cases
    case (send rd src dst r)
    then show ?thesis using up [of rd] i by (auto simp: tunn_wf_def intro: ring.encapsulate_inv hsk.encapsulate_inv clk.encapsulate_inv)
  next
    case (receive rd heap a d dst heap' r)
    then show ?thesis using up [of rd] i by (auto simp: tunn_wf_def intro: ring.decapsulate_inv hsk.decapsulate_inv clk.decapsulate_inv)
  next
    case (verified rd p dst r)
    then show ?thesis using up [of rd] i
      by (auto simp: tunn_wf_def intro: ring.handle_verified_inv hsk.handle_verified_inv clk.handle_verified_inv)
  next
    case (timers rd heap dst heap' r)
    then show ?thesis using up [of rd] i by (auto simp: tunn_wf_def intro: ring.update_timers_inv hsk.update_timers_inv clk.update_timers_inv)
  next
    case (initiate rd dst force r)
    then show ?thesis using up [of rd] i by (auto simp: tunn_wf_def intro: ring.format_init_inv hsk.format_init_inv clk.format_init_inv)
  next
    case (set_key nr heap sk pk rl heap')
    then show ?thesis using i
      by (auto simp: tunn_wf_def intro: ring.set_static_private_inv hsk.set_static_private_inv clk.set_static_private_inv)
  qed
qed

lemma tunn_step_start:
  assumes "tunn_step pq c (T, t) (T', t')" and "start_inv st x t"
  shows "start_inv st x t'"
  using assms(1)
  by cases (use assms(2) in \<open>auto intro: start.encapsulate_inv start.decapsulate_inv start.handle_verified_inv start.update_timers_inv
      start.format_init_inv start.set_static_private_inv\<close>)

lemma tunn_new_fields:
  assumes "tunn_new c nr heap sk peer psk ka idx rl = Some (heap0, t0)"
  shows "tn_sessions t0 = replicate N_SESSIONS None" "tn_current t0 = 0" "tn_packet_queue t0 = []"
    "tn_timers t0 = timers_new (nr_timers_now nr) ka (rl = None)"
    "handshake_new c (nr_system_time nr) (nr_stamper_now nr) sk (x25519_public c sk) peer (push_bit 8 idx) psk = Some (tn_handshake t0)"
  using assms by (auto simp: tunn_new_def Let_def bind_eq_Some_conv case_prod_beta)

lemma timers_new_fields [simp]:
  "tm_session_timers (timers_new now ka b) = replicate N_SESSIONS 0" "tm_time_started (timers_new now ka b) = now"
  "timers_index (timers_new now ka b) n = 0"
  by (simp_all add: timers_new_def timers_index_def)

lemma handshake_new_params:
  "handshake_new c st now sk pk peer idx psk = Some h \<Longrightarrow> np_static_public (hs_params h) = pk"
  by (auto simp: handshake_new_def noise_params_new_def bind_eq_Some_conv)

lemma tunn_new_wf:
  assumes "tunn_new c nr heap sk peer psk ka idx rl = Some (heap0, t0)" and "instant_wf (nr_timers_now nr)" and "crypto_ok c"
  shows "tunn_wf (nr_timers_now nr) t0"
proof -
  note f = tunn_new_fields [OF assms(1)]
  have "idx_inv (tn_handshake t0)" using idx_inv_reach [OF f(5) rtranclp.rtrancl_refl] .
  moreover have "length (np_static_public (hs_params (tn_handshake t0))) = 32"
    using f(5) crypto_ok_lengths(7) [OF assms(3)] by (simp add: handshake_new_params)
  ultimately show ?thesis using f(1-4) assms(2)
    by (simp add: tunn_wf_def ring_inv_def hs_inv_def clock_inv_def timers_upto_def)
qed

lemma tunn_reach_wf:
  assumes "tunn_reach pq c T t" and "crypto_ok c"
  shows "tunn_wf T t"
proof -
  from assms(1) obtain nr heap sk peer psk ka idx rl heap0 t0 where
    n: "tunn_new c nr heap sk peer psk ka idx rl = Some (heap0, t0)" "instant_wf (nr_timers_now nr)"
    and s: "(tunn_step pq c)\<^sup>*\<^sup>* (nr_timers_now nr, t0) (T, t)" by (auto simp: tunn_reach_def)
  from s show ?thesis
  proof (induction rule: rtranclp_induct2)
    case refl
    show ?case using tunn_new_wf [OF n assms(2)] .
  next
    case (step T t T' t')
    then show ?case using tunn_step_wf by blast
  qed
qed

end
