(* ===== verification/Tunnel_Safety.thy ===== *)
theory Tunnel_Safety
  imports Tunnel_Invariants
begin

text \<open>
  Safety of a tunnel in every state its operations can reach: the state is well-formed, no operation
  panics when its buffer is large enough and the clock does not go back, datagrams that are not
  authentic change nothing, sessions die after three minutes and dead connections are cleared, and
  what leaves the tunnel is the packet its header describes.
\<close>

section \<open>No operation panics\<close>

lemma aead_seal_None: "crypto_ok c \<Longrightarrow> n = length x + 16 \<Longrightarrow> aead_chacha20_seal c n k i x a = None \<longleftrightarrow> False"
  using aead_seal_Some [of c n x k i a] by auto

lemma format_any_init_returns:
  assumes "crypto_ok c" and "length (np_static_public (hs_params h)) = 32"
    and "stamp (hs_stamper h) (env_stamp_now e) \<noteq> None"
  shows "format_any_init c e h pq d \<noteq> None"
proof -
  from assms(3) obtain ts where ts: "stamp (hs_stamper h) (env_stamp_now e) = Some ts" by blast
  have len: "length ts = 12" using ts by (rule length_stamp)
  show ?thesis
    using assms(2) ts len
    by (auto simp: format_any_init_def format_handshake_initiation_def format_pq_handshake_initiation_def inc_index_eq Let_def
        case_prod_beta aead_seal_None [OF assms(1)] split: Option.bind_splits if_splits)
qed

lemma tunn_format_init_returns:
  assumes "crypto_ok c" and "length (np_static_public (hs_params (tn_handshake t))) = 32"
    and "stamp (hs_stamper (tn_handshake t)) (env_stamp_now (rd_env rd)) \<noteq> None"
  shows "tunn_format_handshake_initiation pq c rd t dst force \<noteq> None"
proof (cases "is_in_progress (tn_handshake t) \<and> \<not> force")
  case True
  then show ?thesis by (simp add: tunn_format_handshake_initiation_def)
next
  case False
  from format_any_init_returns [OF assms, of pq dst] obtain h res where
    "format_any_init c (rd_env rd) (tn_handshake t) pq dst = Some (h, res)" by auto
  then show ?thesis unfolding tunn_format_init_eq [OF False] by (cases res) (auto simp: Let_def)
qed

lemma format_packet_data_returns:
  "length src + DATA_OVERHEAD_SZ \<le> length dst \<Longrightarrow> format_packet_data c s src dst \<noteq> None"
  by (simp add: format_packet_data_def Let_def case_prod_beta)

lemma queue_packet_frame [simp]:
  "tn_handshake (queue_packet t p) = tn_handshake t" "tn_sessions (queue_packet t p) = tn_sessions t"
  "tn_current (queue_packet t p) = tn_current t" "tn_timers (queue_packet t p) = tn_timers t"
  by (simp_all add: queue_packet_def)

lemma encapsulate_returns:
  assumes "crypto_ok c" and "length (np_static_public (hs_params (tn_handshake t))) = 32"
    and "stamp (hs_stamper (tn_handshake t)) (env_stamp_now (rd_env rd)) \<noteq> None"
    and "length src + DATA_OVERHEAD_SZ \<le> length dst"
  shows "encapsulate pq c rd t src dst \<noteq> None"
proof (cases "tn_sessions t ! (tn_current t mod N_SESSIONS)")
  case None
  with tunn_format_init_returns [OF assms(1), of "queue_packet t src"] assms(2,3) show ?thesis
    by (simp add: encapsulate_def Let_def)
next
  case (Some s)
  with format_packet_data_returns [OF assms(4), of c s] show ?thesis by (auto simp: encapsulate_def Let_def)
qed

lemma send_queued_returns:
  assumes "crypto_ok c" and "length (np_static_public (hs_params (tn_handshake t))) = 32"
    and "stamp (hs_stamper (tn_handshake t)) (env_stamp_now (rd_env rd)) \<noteq> None"
    and "\<forall>p\<in>set (tn_packet_queue t). length p + DATA_OVERHEAD_SZ \<le> length dst"
  shows "send_queued_packet pq c rd t dst \<noteq> None"
proof (cases "tn_packet_queue t")
  case Nil
  then show ?thesis by (simp add: send_queued_packet_def dequeue_packet_def)
next
  case (Cons p q)
  let ?t1 = "t\<lparr> tn_packet_queue := q \<rparr>"
  have "encapsulate pq c rd ?t1 p dst \<noteq> None"
    using assms Cons by (intro encapsulate_returns) auto
  then obtain t2 r where "encapsulate pq c rd ?t1 p dst = Some (t2, r)" by auto
  with Cons show ?thesis by (cases r) (auto simp: send_queued_packet_def dequeue_packet_def)
qed

lemma receive_packet_data_returns:
  assumes "validator_wf (receiving_key_counter s)" and "length (pd_encrypted_encapsulated_packet p) \<le> length dst"
  shows "receive_packet_data c s p dst \<noteq> None"
  using assms(2) mark_did_receive_wf [OF assms(1), of "pd_counter p"]
  by (auto simp: receive_packet_data_def receiving_counter_mark_def Let_def split: sum.splits option.splits)

lemma handle_data_returns:
  assumes "ring_inv t" and "length (pd_encrypted_encapsulated_packet p) \<le> length dst"
  shows "handle_data c t p dst \<noteq> None"
proof (cases "tn_sessions t ! (unat (pd_receiver_idx p) mod N_SESSIONS)")
  case None
  then show ?thesis by (simp add: handle_data_def)
next
  case (Some s)
  have "validator_wf (receiving_key_counter s)" using assms(1) Some mod_less_divisor [OF N_SESSIONS_pos] unfolding ring_inv_def by blast
  from receive_packet_data_returns [OF this assms(2), of c] obtain s' r where
    "receive_packet_data c s p dst = Some (s', r)" by auto
  with Some show ?thesis by (cases r) (auto simp: handle_data_def Let_def case_prod_beta)
qed

lemma handle_verified_returns:
  assumes "crypto_ok c" and "ring_inv t" and "packet_wf p" and "DATA_OVERHEAD_SZ \<le> length dst"
    and "\<And>q. p = PacketData q \<Longrightarrow> length (pd_encrypted_encapsulated_packet q) \<le> length dst"
  shows "handle_verified_packet c rd t p dst \<noteq> None"
proof -
  have ka: "format_packet_data c s [] dst \<noteq> None" for s using assms(4) by (intro format_packet_data_returns) simp
  show ?thesis
  proof (cases p)
    case (HandshakeInit q)
    with receive_init_returns(1) [OF assms(1)] assms(3) obtain h r where
      "receive_handshake_initialization c (rd_env rd) (tn_handshake t) q dst = Some (h, r)" by fastforce
    with HandshakeInit show ?thesis
      by (cases r) (auto simp: handle_verified_packet_def handle_handshake_init_def Let_def)
  next
    case (PqHandshakeInit q)
    with receive_init_returns(2) [OF assms(1)] assms(3) obtain h r where
      "receive_pq_handshake_initialization c (rd_env rd) (tn_handshake t) q dst = Some (h, r)" by fastforce
    with PqHandshakeInit show ?thesis
      by (cases r) (auto simp: handle_verified_packet_def handle_pq_handshake_init_def Let_def)
  next
    case (HandshakeResponse q)
    with receive_resp_returns(1) [OF assms(1), of q "rd_env rd" "tn_handshake t"] assms(3) obtain h r where
      "receive_handshake_response c (rd_env rd) (tn_handshake t) q = Some (h, r)" by auto
    with HandshakeResponse ka show ?thesis
      by (cases r) (auto simp: handle_verified_packet_def handle_handshake_response_def Let_def split: Option.bind_splits)
  next
    case (PqHandshakeResponse q)
    with receive_resp_returns(2) [OF assms(1), of q "rd_env rd" "tn_handshake t"] assms(3) obtain h r where
      "receive_pq_handshake_response c (rd_env rd) (tn_handshake t) q = Some (h, r)" by auto
    with PqHandshakeResponse ka show ?thesis
      by (cases r) (auto simp: handle_verified_packet_def handle_pq_handshake_response_def Let_def split: Option.bind_splits)
  next
    case (PacketCookieReply q)
    then show ?thesis by (auto simp: handle_verified_packet_def handle_cookie_reply_def Let_def try_with_def split: prod.splits sum.splits)
  next
    case (PacketData q)
    with handle_data_returns [OF assms(2) assms(5) [OF PacketData], of c] show ?thesis by (auto simp: handle_verified_packet_def)
  qed
qed

lemma format_cookie_reply_result:
  "\<exists>rl' m. format_cookie_reply c rl i ck mac (replicate COOKIE_REPLY_SZ 0) = (rl', Inr m) \<and> length m \<le> COOKIE_REPLY_SZ"
  by (simp add: format_cookie_reply_def Let_def case_prod_beta)

lemma verify_packet_result:
  assumes "verify_packet pq c rl now a src (replicate COOKIE_REPLY_SZ 0) = (rl', v)" and "crypto_ok c"
  shows "(\<exists>e. v = Inl (Err e)) \<or> (\<exists>m. v = Inl (WriteToNetwork m) \<and> length m \<le> COOKIE_REPLY_SZ) \<or>
    (\<exists>p. v = Inr p \<and> parse_incoming_packet pq src = Inr p)"
proof (cases "parse_incoming_packet pq src")
  case (Inr p)
  show ?thesis
  proof (cases "is_handshake p")
    case True
    show ?thesis
    proof (cases a)
      case None
      with assms(1) verify_packet_handshake [OF Inr True assms(2), of rl now a] Inr show ?thesis
        by (auto simp: Let_def split: if_splits)
    next
      case (Some addr)
      from format_cookie_reply_result [of c "rl\<lparr> rl_count := rl_count rl + 1 \<rparr>" "sender_of p" "current_cookie c rl now addr" "mac1_of src"]
      obtain rl2 m where "format_cookie_reply c (rl\<lparr> rl_count := rl_count rl + 1 \<rparr>) (sender_of p)
          (current_cookie c rl now addr) (mac1_of src) (replicate COOKIE_REPLY_SZ 0) = (rl2, Inr m)" "length m \<le> COOKIE_REPLY_SZ"
        by blast
      with Some assms(1) verify_packet_handshake [OF Inr True assms(2), of rl now a] Inr show ?thesis
        by (auto simp: Let_def split: if_splits)
    qed
  qed (use assms(1) verify_packet_not_handshake [OF Inr] Inr in auto)
qed (use assms in \<open>auto simp: verify_packet_def\<close>)

lemma decapsulate_returns:
  assumes "crypto_ok c" and "ring_inv t" and "length (np_static_public (hs_params (tn_handshake t))) = 32"
    and "stamp (hs_stamper (tn_handshake t)) (env_stamp_now (rd_env rd)) \<noteq> None"
    and "\<forall>p\<in>set (tn_packet_queue t). length p + DATA_OVERHEAD_SZ \<le> length dst"
    and "COOKIE_REPLY_SZ \<le> length dst" and "length d \<le> length dst"
  shows "decapsulate pq c rd heap t a d dst \<noteq> None"
proof (cases "d = []")
  case True
  with send_queued_returns [OF assms(1,3,4,5), of pq] show ?thesis by (auto simp: decapsulate_def)
next
  case False
  obtain rl v where v: "verify_packet pq c (rlh_at heap (tn_rate_limiter t)) (rd_cookie rd) a d (replicate COOKIE_REPLY_SZ 0) = (rl, v)"
    by fastforce
  have "handle_verified_packet c rd t p dst \<noteq> None" if "parse_incoming_packet pq d = Inr p" for p
    using assms parse_only_wire_body [OF that]
    by (intro handle_verified_returns) (auto simp: size_consts)
  with verify_packet_result [OF v assms(1)] v False assms(6) show ?thesis
    by (auto simp: decapsulate_def Let_def)
qed

lemma elapsed_upto:
  "timers_upto now t \<Longrightarrow> elapsed_ge now (timers_index t n) lim = Some (lim \<le> now - timers_index t n)"
  by (auto simp: elapsed_ge_def duration_sub_def timers_upto_def)

lemma and_also_Some [simp]: "and_also b (Some x) = Some (b \<and> x)"
  by (simp add: and_also_def)

text \<open>The rules of the protocol for starting a handshake and for sending a keepalive.\<close>

definition old_session :: "duration \<Rightarrow> timers \<Rightarrow> bool" where
  "old_session now t \<longleftrightarrow> timers_is_initiator t \<and>
     (timers_index t TimeSessionEstablished < timers_index t TimeLastDataPacketSent \<and>
        from_secs 120 \<le> now - timers_index t TimeSessionEstablished \<or>
      timers_index t TimeSessionEstablished < timers_index t TimeLastDataPacketReceived \<and>
        from_secs 165 \<le> now - timers_index t TimeSessionEstablished)"

definition unanswered :: "duration \<Rightarrow> timers \<Rightarrow> bool" where
  "unanswered now t \<longleftrightarrow> timers_index t TimeLastPacketReceived < timers_index t TimeLastDataPacketSent \<and>
     from_secs 15 \<le> now - timers_index t TimeLastPacketReceived"

definition unacknowledged :: "duration \<Rightarrow> timers \<Rightarrow> bool" where
  "unacknowledged now t \<longleftrightarrow> timers_index t TimeLastPacketSent < timers_index t TimeLastDataPacketReceived \<and>
     from_secs 10 \<le> now - timers_index t TimeLastPacketSent"

definition persistent_due :: "duration \<Rightarrow> timers \<Rightarrow> bool" where
  "persistent_due now t \<longleftrightarrow> 0 < tm_persistent_keepalive t \<and>
     from_secs (tm_persistent_keepalive t) \<le> now - timers_index t TimePersistentKeepalive"

definition rekey_due :: "duration \<Rightarrow> timers \<Rightarrow> bool" where
  "rekey_due now t \<longleftrightarrow> old_session now t \<or> unanswered now t \<and> tm_want_handshake t"

definition keepalive_due :: "duration \<Rightarrow> timers \<Rightarrow> bool" where
  "keepalive_due now t \<longleftrightarrow> unacknowledged now t \<and> tm_want_keepalive t \<or> persistent_due now t"

text \<open>The flags and the time of the persistent keepalive may differ.\<close>

definition same_times :: "timers \<Rightarrow> timers \<Rightarrow> bool" where
  "same_times t t' \<longleftrightarrow> (\<forall>n. n \<noteq> TimePersistentKeepalive \<longrightarrow> timers_index t' n = timers_index t n) \<and>
     tm_session_timers t' = tm_session_timers t \<and> tm_time_started t' = tm_time_started t"

lemma update_timers_idle_eq:
  assumes "timers_upto now (tn_timers t)"
  shows "\<exists>tm. same_times (tn_timers t) tm \<and> update_timers_idle t now = Some (t\<lparr> tn_timers := tm \<rparr>, rekey_due now (tn_timers t),
    \<not> rekey_due now (tn_timers t) \<and> keepalive_due now (tn_timers t))"
proof -
  let ?t = "tn_timers t"
  have bools: "(timers_is_initiator ?t \<and> timers_index ?t TimeSessionEstablished < timers_index ?t TimeLastDataPacketSent) \<and>
      REKEY_AFTER_TIME \<le> now - timers_index ?t TimeSessionEstablished \<or>
      (timers_is_initiator ?t \<and> timers_index ?t TimeSessionEstablished < timers_index ?t TimeLastDataPacketReceived) \<and>
      REJECT_AFTER_TIME - KEEPALIVE_TIMEOUT - REKEY_TIMEOUT \<le> now - timers_index ?t TimeSessionEstablished \<longleftrightarrow> old_session now ?t"
    "timers_index ?t TimeLastPacketReceived < timers_index ?t TimeLastDataPacketSent \<and>
      KEEPALIVE_TIMEOUT + REKEY_TIMEOUT \<le> now - timers_index ?t TimeLastPacketReceived \<longleftrightarrow> unanswered now ?t"
    "timers_index ?t TimeLastPacketSent < timers_index ?t TimeLastDataPacketReceived \<and>
      KEEPALIVE_TIMEOUT \<le> now - timers_index ?t TimeLastPacketSent \<longleftrightarrow> unacknowledged now ?t"
    "0 < tm_persistent_keepalive ?t \<and>
      from_secs (tm_persistent_keepalive ?t) \<le> now - timers_index ?t TimePersistentKeepalive \<longleftrightarrow> persistent_due now ?t"
    by (auto simp: old_session_def unanswered_def unacknowledged_def persistent_due_def time_consts)
  have ex: "\<exists>tm. same_times ?t tm \<and> u = t\<lparr> tn_timers := tm \<rparr>" if "same_times ?t (tn_timers u)" "u = t\<lparr> tn_timers := tn_timers u \<rparr>" for u
    using that by blast
  have tick: "timer_tick (t\<lparr> tn_timers := x \<rparr>) TimePersistentKeepalive =
      t\<lparr> tn_timers := tn_timers (timer_tick (t\<lparr> tn_timers := x \<rparr>) TimePersistentKeepalive) \<rparr>"
    "timer_tick t TimePersistentKeepalive = t\<lparr> tn_timers := tn_timers (timer_tick t TimePersistentKeepalive) \<rparr>" for x
    by (simp_all add: timer_tick_def Let_def)
  have "update_timers_idle t now \<noteq> None \<and> (\<forall>u b. update_timers_idle t now = Some (u, b) \<longrightarrow>
      b = (rekey_due now ?t, \<not> rekey_due now ?t \<and> keepalive_due now ?t) \<and>
      same_times ?t (tn_timers u) \<and> u = t\<lparr> tn_timers := tn_timers u \<rparr>)"
    unfolding update_timers_idle_def Let_def
    by (simp only: elapsed_upto [OF assms] and_also_Some bind.bind_lunit disj_assoc [symmetric] bools,
      cases "unanswered now ?t"; cases "old_session now ?t"; cases "unacknowledged now ?t"; cases "persistent_due now ?t";
      cases "tm_want_keepalive ?t")
      (use tick in \<open>simp_all add: rekey_due_def keepalive_due_def elapsed_upto [OF assms] bools(4) same_times_def ex_bool_eq\<close>)
  then show ?thesis by (cases "update_timers_idle t now") (auto intro: ex)
qed

lemma update_timers_idle_returns: "timers_upto now (tn_timers t) \<Longrightarrow> update_timers_idle t now \<noteq> None"
  using update_timers_idle_eq by fastforce

text \<open>What a tick of the timers decides, from the state after the session slots have been gone through.\<close>

datatype timer_action = Expired | Expire | Initiate | Keepalive | Idle

definition timer_decision :: "instant \<Rightarrow> duration \<Rightarrow> tunn \<Rightarrow> timer_action" where
  "timer_decision elapsed now t =
    (if is_expired (tn_handshake t) then Expired
     else if from_secs 540 \<le> now - timers_index (tn_timers t) TimeSessionEstablished then Expire
     else case handshake_timer (tn_handshake t) of
       Some sent \<Rightarrow>
         if from_secs 90 \<le> now - timers_index (tn_timers t) TimeLastHandshakeStarted then Expire
         else if from_secs 5 \<le> duration_since elapsed sent then Initiate else Idle
     | None \<Rightarrow>
         if rekey_due now (tn_timers t) then Initiate
         else if keepalive_due now (tn_timers t) then Keepalive else Idle)"

text \<open>The tunnel after the first part of \<open>update_timers\<close>: the current time is set, sessions older than
  180 seconds are dropped and a cookie older than 120 seconds is forgotten.\<close>

definition drop_old :: "duration \<Rightarrow> tunn \<Rightarrow> tunn" where
  "drop_old now t = t\<lparr>
     tn_timers := (timers_index_mut (tn_timers t) TimeCurrent now)\<lparr> tm_session_timers :=
       map (\<lambda>d. if from_secs 180 < now - d then now else d) (tm_session_timers (tn_timers t)) \<rparr>,
     tn_sessions := map2 (\<lambda>d s. if from_secs 180 < now - d then None else s)
       (tm_session_timers (tn_timers t)) (tn_sessions t) \<rparr>"

definition drop_cookie :: "duration \<Rightarrow> tunn \<Rightarrow> tunn" where
  "drop_cookie now t =
    (if has_cookie (tn_handshake t) \<and> from_secs 120 \<le> now - timers_index (tn_timers t) TimeCookieReceived
     then t\<lparr> tn_handshake := clear_cookie (tn_handshake t) \<rparr> else t)"

lemma clear_cookie_frame [simp]:
  "handshake_timer (clear_cookie h) = handshake_timer h" "is_expired (clear_cookie h) = is_expired h"
  "hs_params (clear_cookie h) = hs_params h" "hs_stamper (clear_cookie h) = hs_stamper h"
  by (simp_all add: clear_cookie_def handshake_timer_def is_expired_def)

lemma drop_cookie_frame [simp]:
  "tn_timers (drop_cookie now t) = tn_timers t" "tn_sessions (drop_cookie now t) = tn_sessions t"
  "handshake_timer (tn_handshake (drop_cookie now t)) = handshake_timer (tn_handshake t)"
  "hs_params (tn_handshake (drop_cookie now t)) = hs_params (tn_handshake t)"
  "hs_stamper (tn_handshake (drop_cookie now t)) = hs_stamper (tn_handshake t)"
  by (simp_all add: drop_cookie_def)

lemma drop_old_frame [simp]:
  "tn_handshake (drop_old now t) = tn_handshake t" "tn_packet_queue (drop_old now t) = tn_packet_queue t"
  by (simp_all add: drop_old_def)

lemma bind_Pair: "Option.bind m (\<lambda>(a, b). Some (h, a, b)) = map_option (Pair h) m"
  by (cases m) auto

lemma update_timers_cases:
  assumes "tunn_wf T t" and "clock_between T rd T'"
  defines "now \<equiv> duration_since (rd_time rd) (tm_time_started (tn_timers t))"
  shows "\<exists>heap' tm. same_times (tn_timers (drop_old now t)) tm \<and> update_timers pq c rd heap t dst =
    (case timer_decision (rd_elapsed rd) now (drop_old now t) of
       Expired \<Rightarrow> Some (heap', drop_old now t, Err ConnectionExpired)
     | Expire \<Rightarrow> Some (heap', clear_all ((drop_cookie now (drop_old now t))\<lparr> tn_handshake :=
         set_expired (tn_handshake (drop_cookie now (drop_old now t))) \<rparr>) (rd_clear rd), Err ConnectionExpired)
     | Initiate \<Rightarrow> map_option (Pair heap')
         (tunn_format_handshake_initiation pq c rd ((drop_cookie now (drop_old now t))\<lparr> tn_timers := tm \<rparr>) dst True)
     | Keepalive \<Rightarrow> map_option (Pair heap')
         (encapsulate pq c rd ((drop_cookie now (drop_old now t))\<lparr> tn_timers := tm \<rparr>) [] dst)
     | Idle \<Rightarrow> Some (heap', (drop_cookie now (drop_old now t))\<lparr> tn_timers := tm \<rparr>, Done))"
proof -
  let ?t1 = "t\<lparr> tn_timers := timers_index_mut (tn_timers t) TimeCurrent now \<rparr>"
  let ?t2 = "drop_old now t" let ?t3 = "drop_cookie now ?t2"
  have le: "duration_since T (tm_time_started (tn_timers t)) \<le> now"
    using assms(1,2) unfolding now_def by (intro duration_since_mono) (auto simp: tunn_wf_def clock_inv_def clock_between_def)
  have up: "timers_upto now (tn_timers ?t1)"
    using assms(1) timers_upto_mono [OF _ le] by (auto simp: tunn_wf_def clock_inv_def intro!: timers_upto_index_mut)
  have len: "length (tm_session_timers (tn_timers ?t1)) = length (tn_sessions ?t1)"
    using assms(1) by (simp add: tunn_wf_def ring_inv_def)
  have u: "update_session_timers ?t1 now = Some ?t2"
    unfolding update_session_timers_eq [OF len, of now] using up
    by (simp add: timers_upto_def drop_old_def REJECT_AFTER_TIME_def)
  have up2: "timers_upto now (tn_timers ?t2)"
    using up by (auto simp: drop_old_def timers_upto_def)
  obtain tm where same: "same_times (tn_timers ?t2) tm" and idle: "update_timers_idle ?t3 now = Some (?t3\<lparr> tn_timers := tm \<rparr>, rekey_due now (tn_timers ?t2),
      \<not> rekey_due now (tn_timers ?t2) \<and> keepalive_due now (tn_timers ?t2))"
    using update_timers_idle_eq [of now ?t3] up2 by auto
  define heap' where "heap' = (if tm_should_reset_rr (tn_timers t)
    then rl_store heap (tn_rate_limiter t) (reset_count (rlh_at heap (tn_rate_limiter t)) (rd_reset rd)) else heap)"
  define tm' where "tm' = (if handshake_timer (tn_handshake t) = None then tm else tn_timers ?t3)"
  have cookie: "(if has_cookie (tn_handshake t) \<and> COOKIE_EXPIRATION_TIME \<le> now - timers_index (tn_timers ?t2) TimeCookieReceived
      then ?t2\<lparr> tn_handshake := clear_cookie (tn_handshake t) \<rparr> else ?t2) = ?t3"
    by (simp add: drop_cookie_def COOKIE_EXPIRATION_TIME_def)
  have start: "update_timers pq c rd heap t dst =
    (if is_expired (tn_handshake t) then Some (heap', ?t2, Err ConnectionExpired)
     else if from_secs 540 \<le> now - timers_index (tn_timers ?t2) TimeSessionEstablished \<or>
       handshake_timer (tn_handshake t) \<noteq> None \<and>
         from_secs 90 \<le> now - timers_index (tn_timers ?t2) TimeLastHandshakeStarted
     then Some (heap', clear_all (?t3\<lparr> tn_handshake := set_expired (tn_handshake ?t3) \<rparr>) (rd_clear rd), Err ConnectionExpired)
     else do {
       (self, handshake_initiation_required, keepalive_required) \<leftarrow>
         (case handshake_timer (tn_handshake t) of
            Some time_init_sent \<Rightarrow> Some (?t3, REKEY_TIMEOUT \<le> duration_since (rd_elapsed rd) time_init_sent, False)
          | None \<Rightarrow> update_timers_idle ?t3 now);
       if handshake_initiation_required then do {
         (self, r) \<leftarrow> tunn_format_handshake_initiation pq c rd self dst True;
         Some (heap', self, r)
       } else if keepalive_required then do {
         (self, r) \<leftarrow> encapsulate pq c rd self [] dst;
         Some (heap', self, r)
       } else Some (heap', self, Done)
     })"
    unfolding update_timers_def Let_def now_def [symmetric] heap'_def [symmetric] u bind.bind_lunit elapsed_upto [OF up2]
      and_also_Some cookie drop_cookie_frame drop_old_frame
    by (cases "handshake_timer (tn_handshake t)") (simp_all add: time_consts)
  have keep: "?t3\<lparr> tn_timers := tn_timers ?t2 \<rparr> = ?t3" by (simp add: drop_cookie_def)
  have "same_times (tn_timers ?t2) tm'" using same by (simp add: tm'_def same_times_def)
  then show ?thesis
    by (intro exI [of _ heap'] exI [of _ tm'])
      (auto simp: start timer_decision_def tm'_def idle time_consts bind_Pair keep split: option.splits)
qed

lemma update_timers_returns:
  assumes "crypto_ok c" and "tunn_wf T t" and "clock_between T rd T'"
    and "stamp (hs_stamper (tn_handshake t)) (env_stamp_now (rd_env rd)) \<noteq> None" and "DATA_OVERHEAD_SZ \<le> length dst"
  shows "update_timers pq c rd heap t dst \<noteq> None"
proof -
  define now where "now = duration_since (rd_time rd) (tm_time_started (tn_timers t))"
  let ?t3 = "\<lambda>tm. (drop_cookie now (drop_old now t))\<lparr> tn_timers := tm \<rparr>"
  have pk: "length (np_static_public (hs_params (tn_handshake (?t3 tm)))) = 32" for tm
    using assms(2) by (simp add: tunn_wf_def hs_inv_def)
  have "tunn_format_handshake_initiation pq c rd (?t3 tm) dst True \<noteq> None" "encapsulate pq c rd (?t3 tm) [] dst \<noteq> None" for tm
    using tunn_format_init_returns [OF assms(1) pk, of tm rd] encapsulate_returns [OF assms(1) pk, of tm rd "[]"] assms(4,5)
    by simp_all
  then show ?thesis using update_timers_cases [OF assms(2,3), of pq c heap dst]
    by (cases "timer_decision (rd_elapsed rd) now (drop_old now t)") (auto simp: now_def [symmetric])
qed

section \<open>What a datagram may change\<close>

text \<open>The errors that can come after a change of state: a buffer that is too small for the response, and
  a message that was authentic but is not a valid IP packet or carries a malformed key.\<close>

definition late_errors :: "wireguard_error set" where
  "late_errors = {DestinationBufferTooSmall, InvalidPacket}"

lemma receive_data_error:
  assumes "receive_packet_data c s p dst = Some (s', Inl e)" and "validator_wf (receiving_key_counter s)"
  shows "s' = s"
proof (rule ccontr)
  assume "s' \<noteq> s"
  with assms(1) obtain ret x where mark: "receiving_counter_mark s (pd_counter p) = Some (s', ret)"
    and ret: "bind_result ret (\<lambda>_. Inr x) = (Inl e :: bytes wg_result)"
    by (auto simp: receive_packet_data_def Let_def bind_eq_Some_conv split: if_splits sum.splits option.splits)
  have "ret = Inl e" using ret by (cases ret) simp_all
  with receiving_counter_mark_Some [OF mark assms(2)] \<open>s' \<noteq> s\<close> show False by simp
qed

lemma handle_verified_error:
  assumes "handle_verified_packet c rd t p dst = Some (t', Err e)" and "e \<notin> late_errors" and "ring_inv t"
  shows "t' = t"
proof -
  have hs: "t\<lparr> tn_handshake := tn_handshake t \<rparr> = t" by simp
  show ?thesis
  proof (cases p)
    case (HandshakeInit q)
    with assms(1) obtain h r where r: "receive_handshake_initialization c (rd_env rd) (tn_handshake t) q dst = Some (h, r)"
      by (auto simp: handle_verified_packet_def handle_handshake_init_def bind_eq_Some_conv)
    with HandshakeInit assms(1) have "r = Inl e" "t' = t\<lparr> tn_handshake := h \<rparr>"
      by (cases r; auto simp: handle_verified_packet_def handle_handshake_init_def Let_def)+
    with receive_init_cases [OF r] assms(2) hs show ?thesis by (auto simp: resp_frame_def late_errors_def)
  next
    case (PqHandshakeInit q)
    with assms(1) obtain h r where r: "receive_pq_handshake_initialization c (rd_env rd) (tn_handshake t) q dst = Some (h, r)"
      by (auto simp: handle_verified_packet_def handle_pq_handshake_init_def bind_eq_Some_conv)
    with PqHandshakeInit assms(1) have "r = Inl e" "t' = t\<lparr> tn_handshake := h \<rparr>"
      by (cases r; auto simp: handle_verified_packet_def handle_pq_handshake_init_def Let_def)+
    with receive_pq_init_cases [OF r] assms(2) hs show ?thesis by (auto simp: resp_frame_def late_errors_def)
  next
    case (HandshakeResponse q)
    with assms(1) obtain h r where r: "receive_handshake_response c (rd_env rd) (tn_handshake t) q = Some (h, r)"
      by (auto simp: handle_verified_packet_def handle_handshake_response_def bind_eq_Some_conv)
    with HandshakeResponse assms(1) have "r = Inl e" "t' = t\<lparr> tn_handshake := h \<rparr>"
      by (cases r; auto simp: handle_verified_packet_def handle_handshake_response_def Let_def bind_eq_Some_conv)+
    with receive_resp_cases [OF r] hs show ?thesis by auto
  next
    case (PqHandshakeResponse q)
    with assms(1) obtain h r where r: "receive_pq_handshake_response c (rd_env rd) (tn_handshake t) q = Some (h, r)"
      by (auto simp: handle_verified_packet_def handle_pq_handshake_response_def bind_eq_Some_conv)
    with PqHandshakeResponse assms(1) have "r = Inl e" "t' = t\<lparr> tn_handshake := h \<rparr>"
      by (cases r; auto simp: handle_verified_packet_def handle_pq_handshake_response_def Let_def bind_eq_Some_conv)+
    with receive_pq_resp_cases [OF r] hs show ?thesis by auto
  next
    case (PacketCookieReply q)
    obtain h r where r: "receive_cookie_reply c (tn_handshake t) q = (h, r)" by fastforce
    with PacketCookieReply assms(1) have "r = Inl e" "t' = t\<lparr> tn_handshake := h \<rparr>"
      by (cases r; auto simp: handle_verified_packet_def handle_cookie_reply_def Let_def)+
    with receive_cookie_cases [OF r] hs show ?thesis by auto
  next
    case (PacketData q)
    show ?thesis
    proof (cases "tn_sessions t ! (unat (pd_receiver_idx q) mod N_SESSIONS)")
      case None
      with PacketData assms(1) show ?thesis by (auto simp: handle_verified_packet_def handle_data_def)
    next
      case (Some s)
      with PacketData assms(1) obtain s' r where r: "receive_packet_data c s q dst = Some (s', r)"
        by (auto simp: handle_verified_packet_def handle_data_def Let_def bind_eq_Some_conv)
      show ?thesis
      proof (cases r)
        case (Inl e')
        with PacketData Some r assms(1) have "e' = e"
          and t': "t' = t\<lparr> tn_sessions := (tn_sessions t)[unat (pd_receiver_idx q) mod N_SESSIONS := Some s'] \<rparr>"
          by (auto simp: handle_verified_packet_def handle_data_def Let_def)
        have "validator_wf (receiving_key_counter s)"
          using assms(3) Some mod_less_divisor [OF N_SESSIONS_pos] unfolding ring_inv_def by blast
        then have "s' = s" using receive_data_error r Inl by blast
        then have "(tn_sessions t)[unat (pd_receiver_idx q) mod N_SESSIONS := Some s'] = tn_sessions t"
          using Some by (metis list_update_id)
        then show ?thesis by (simp add: t')
      next
        case (Inr d)
        with PacketData Some r assms(1) have "e = InvalidPacket"
          by (auto simp: handle_verified_packet_def handle_data_def validate_decapsulated_packet_def Let_def
              split: list.splits if_splits ip_addr.splits)
        with assms(2) show ?thesis by (simp add: late_errors_def)
      qed
    qed
  qed
qed

text \<open>Using a tunnel to send does not create sessions.\<close>

lemma tunn_format_init_cases:
  assumes "tunn_format_handshake_initiation pq c rd t dst force = Some (t', r)"
  shows "(is_in_progress (tn_handshake t) \<and> \<not> force \<and> t' = t \<and> r = Done) \<or>
    (\<not> (is_in_progress (tn_handshake t) \<and> \<not> force) \<and>
     (\<exists>res. format_any_init c (rd_env rd) (tn_handshake t) pq dst = Some (tn_handshake t', res) \<and>
       r = (case res of Inr m \<Rightarrow> WriteToNetwork m | Inl e \<Rightarrow> Err e) \<and> tn_sessions t' = tn_sessions t \<and>
       tn_packet_queue t' = tn_packet_queue t \<and> tn_current t' = tn_current t))"
proof (cases "is_in_progress (tn_handshake t) \<and> \<not> force")
  case True
  with assms show ?thesis by (auto simp: tunn_format_handshake_initiation_def)
next
  case False
  from assms tunn_format_init_eq [OF False, of pq c rd dst] obtain h res where
    h: "format_any_init c (rd_env rd) (tn_handshake t) pq dst = Some (h, res)"
    by (cases "format_any_init c (rd_env rd) (tn_handshake t) pq dst") auto
  with assms tunn_format_init_eq [OF False, of pq c rd dst] False show ?thesis
    by (cases res; cases "is_in_progress (tn_handshake t)") (auto simp: Let_def)
qed

lemma format_init_sessions:
  "tunn_format_handshake_initiation pq c rd t dst force = Some (t', r) \<Longrightarrow> tn_sessions t' = tn_sessions t"
  using tunn_format_init_cases by blast

lemma encapsulate_sessions:
  assumes "encapsulate pq c rd t src dst = Some (t', r)" and "tn_sessions t' ! i = Some s"
    and "length (tn_sessions t) = N_SESSIONS"
  shows "\<exists>s0. tn_sessions t ! i = Some s0 \<and> session_step s0 s"
proof (cases "tn_sessions t ! (tn_current t mod N_SESSIONS)")
  case None
  with assms(1) have "tn_sessions t' = tn_sessions t"
    using format_init_sessions [of pq c rd "queue_packet t src" dst False t' r] by (simp add: encapsulate_def Let_def)
  with assms(2) show ?thesis by auto
next
  case (Some s1)
  with assms(1) obtain s2 out where f: "format_packet_data c s1 src dst = Some (s2, out)"
    and t': "tn_sessions t' = (tn_sessions t)[tn_current t mod N_SESSIONS := Some s2]"
    by (auto simp: encapsulate_def Let_def bind_eq_Some_conv split: if_splits)
  show ?thesis
  proof (cases "i = tn_current t mod N_SESSIONS")
    case True
    with assms(2,3) t' have "s = s2" by simp
    with True Some format_packet_data_step [OF f] show ?thesis by (simp add: session_step_def)
  next
    case False
    with assms(2) t' show ?thesis by simp
  qed
qed

section \<open>A concrete tunnel\<close>

definition demo_new :: new_readings where
  "demo_new = \<lparr> nr_system_time = Some 0, nr_stamper_now = demo_instant, nr_timers_now = demo_instant,
     nr_secret_key = [], nr_nonce_key = [], nr_start_time = demo_instant, nr_last_reset = demo_instant \<rparr>"

definition demo_rd :: "byte \<Rightarrow> int \<Rightarrow> readings" where
  "demo_rd x s = (let i = \<lparr> tv_sec = s, tv_nsec = 0 \<rparr> in
     \<lparr> rd_env = demo_env x, rd_time = i, rd_reset = i, rd_clear = i, rd_elapsed = i, rd_cookie = i \<rparr>)"

definition demo_heap :: rl_heap where
  "demo_heap = \<lparr> rlh_next = 1, rlh_at = (\<lambda>_. demo_limiter 10) \<rparr>"

definition demo_tunn :: "bytes \<Rightarrow> bytes \<Rightarrow> u32 \<Rightarrow> tunn" where
  "demo_tunn sk peer idx = \<lparr> tn_handshake = demo_handshake sk peer (push_bit 8 idx), tn_sessions = replicate N_SESSIONS None,
     tn_current = 0, tn_packet_queue = [], tn_timers = timers_new demo_instant None False, tn_tx_bytes = 0, tn_rx_bytes = 0,
     tn_rate_limiter = 0 \<rparr>"

lemma demo_tunn_new:
  "tunn_new plain_crypto demo_new demo_heap sk (x25519_public plain_crypto peer) (Some (replicate 32 9)) None idx (Some 0) =
     Some (demo_heap, demo_tunn sk peer idx)"
  by (simp add: tunn_new_def demo_handshake_new demo_new_def demo_tunn_def)

lemma demo_clock:
  "instant_wf demo_instant" "0 \<le> s \<Longrightarrow> clock_between demo_instant (demo_rd x s) \<lparr> tv_sec = s, tv_nsec = 0 \<rparr>"
  by (simp_all add: clock_between_def demo_rd_def demo_instant_def instant_wf_def to_ns_def NANOSECOND_def Let_def)

lemma demo_reach: "tunn_reach pq plain_crypto demo_instant (demo_tunn sk peer idx)"
  unfolding tunn_reach_def using demo_tunn_new [of sk peer idx] demo_clock(1)
  by (intro exI conjI) (auto simp: demo_new_def)

section \<open>Properties\<close>

text \<open>C18: in every state that any sequence of operations can reach, the queue has at most 256
  packets, there are eight session slots, each session is in the slot of its local index and has a
  well-formed replay filter, and no recorded time is later than the clock.\<close>
theorem tunnel_well_formed:
  assumes "tunn_reach pq c T t" and "crypto_ok c"
  shows "length (tn_packet_queue t) \<le> 256 \<and> length (tn_sessions t) = 8 \<and>
    (\<forall>i < 8. \<forall>s. tn_sessions t ! i = Some s \<longrightarrow>
       session_local_index s mod 8 = i \<and> validator_wf (receiving_key_counter s)) \<and>
    timers_upto (duration_since T (tm_time_started (tn_timers t))) (tn_timers t)"
  using tunn_reach_wf [OF assms] by (auto simp: tunn_wf_def ring_inv_def clock_inv_def MAX_QUEUE_DEPTH_def N_SESSIONS_def)

theorem tunnel_well_formed_witness:
  "length (tn_packet_queue (demo_tunn [2] [3] 1)) \<le> 256 \<and> length (tn_sessions (demo_tunn [2] [3] 1)) = 8"
  using tunnel_well_formed [OF demo_reach plain_crypto_ok, of "[2]" "[3]" 1] by simp

text \<open>C17: no operation of a tunnel panics, in every reachable state, for every datagram and packet, as
  long as the buffer has room for the packet at hand and for a cookie reply, and the clock does not
  go back and does not leave the range of a timestamp.\<close>
theorem tunnel_never_panics:
  assumes "tunn_reach pq c T t" and "crypto_ok c" and "clock_between T rd T'"
    and "stamp (hs_stamper (tn_handshake t)) (env_stamp_now (rd_env rd)) \<noteq> None"
    and "\<forall>p\<in>set (src # tn_packet_queue t). length p + 32 \<le> length dst" and "64 \<le> length dst" and "length d \<le> length dst"
  shows "encapsulate pq c rd t src dst \<noteq> None \<and> decapsulate pq c rd heap t a d dst \<noteq> None \<and>
    update_timers pq c rd heap t dst \<noteq> None \<and> tunn_format_handshake_initiation pq c rd t dst force \<noteq> None \<and>
    time_since_last_handshake t T' \<noteq> None"
proof -
  have wf: "tunn_wf T t" using tunn_reach_wf [OF assms(1,2)] .
  then have i: "ring_inv t" "length (np_static_public (hs_params (tn_handshake t))) = 32"
    "timers_upto (duration_since T (tm_time_started (tn_timers t))) (tn_timers t)" "instant_wf (tm_time_started (tn_timers t))"
    by (auto simp: tunn_wf_def hs_inv_def clock_inv_def)
  have "encapsulate pq c rd t src dst \<noteq> None"
    using assms(5) encapsulate_returns [OF assms(2) i(2) assms(4)] by (simp add: size_consts)
  moreover have "decapsulate pq c rd heap t a d dst \<noteq> None"
    using assms(5,6,7) decapsulate_returns [OF assms(2) i(1,2) assms(4)] by (simp add: size_consts)
  moreover have "update_timers pq c rd heap t dst \<noteq> None"
    using assms(6) update_timers_returns [OF assms(2) wf assms(3,4)] by (simp add: size_consts)
  moreover have "time_since_last_handshake t T' \<noteq> None"
    using i(3,4) assms(3) duration_since_mono [of T T' "tm_time_started (tn_timers t)"]
    by (auto simp: time_since_last_handshake_def duration_sub_def timers_upto_def clock_between_def intro: le_trans)
  ultimately show ?thesis using tunn_format_init_returns [OF assms(2) i(2) assms(4)] by blast
qed

theorem tunnel_never_panics_witness:
  "decapsulate True plain_crypto (demo_rd 1 7) demo_heap (demo_tunn [2] [3] 1) None (replicate 2000 1) (replicate 2000 0) \<noteq> None \<and>
   update_timers True plain_crypto (demo_rd 1 7) demo_heap (demo_tunn [2] [3] 1) (replicate 2000 0) \<noteq> None"
proof -
  have "stamp (hs_stamper (tn_handshake (demo_tunn [2] [3] 1))) (env_stamp_now (rd_env (demo_rd 1 7))) \<noteq> None"
    using demo_handshake_facts(2) by (simp add: demo_tunn_def demo_rd_def Let_def)
  moreover have "\<forall>p\<in>set ([] # tn_packet_queue (demo_tunn [2] [3] 1)). length p + 32 \<le> length (replicate 2000 (0 :: byte))"
    by (simp add: demo_tunn_def)
  ultimately show ?thesis
    using tunnel_never_panics [OF demo_reach plain_crypto_ok demo_clock(2), of 7 "[2]" "[3]" 1 1 "[]" "replicate 2000 0" "replicate 2000 1"]
    by simp
qed



text \<open>C19: what a tick of the timers does is what the rules of the protocol decide from the times (a
  handshake after 120 seconds of a session we initiated and sent on, or 165 when we only received, or
  after 15 seconds without an answer; a keepalive after 10 seconds without one of our own or when the
  persistent one is due; a new initiation every 5 seconds; giving up after 90 seconds of attempts or
  540 seconds without a session), applied to the tunnel without its sessions older than 180 seconds
  and without a cookie older than 120 seconds.\<close>
theorem timers_follow_protocol:
  assumes "tunn_reach pq' c' T t" and "crypto_ok c'" and "clock_between T rd T'"
    and "now = duration_since (rd_time rd) (tm_time_started (tn_timers t))"
  shows "\<exists>heap' tm. same_times (tn_timers (drop_old now t)) tm \<and> update_timers pq c rd heap t dst =
    (case timer_decision (rd_elapsed rd) now (drop_old now t) of
       Expired \<Rightarrow> Some (heap', drop_old now t, Err ConnectionExpired)
     | Expire \<Rightarrow> Some (heap', clear_all ((drop_cookie now (drop_old now t))\<lparr> tn_handshake :=
         set_expired (tn_handshake (drop_cookie now (drop_old now t))) \<rparr>) (rd_clear rd), Err ConnectionExpired)
     | Initiate \<Rightarrow> map_option (Pair heap')
         (tunn_format_handshake_initiation pq c rd ((drop_cookie now (drop_old now t))\<lparr> tn_timers := tm \<rparr>) dst True)
     | Keepalive \<Rightarrow> map_option (Pair heap')
         (encapsulate pq c rd ((drop_cookie now (drop_old now t))\<lparr> tn_timers := tm \<rparr>) [] dst)
     | Idle \<Rightarrow> Some (heap', (drop_cookie now (drop_old now t))\<lparr> tn_timers := tm \<rparr>, Done))"
  using update_timers_cases [OF tunn_reach_wf [OF assms(1,2)] assms(3)] unfolding assms(4) .

theorem timers_follow_protocol_witness:
  "\<exists>heap' t'. update_timers True plain_crypto (demo_rd 1 540) demo_heap (demo_tunn [2] [3] 1) [] =
     Some (heap', t', Err ConnectionExpired)"
proof -
  define now where "now = duration_since (rd_time (demo_rd 1 540)) (tm_time_started (tn_timers (demo_tunn [2] [3] 1)))"
  have n: "now = from_secs 540"
    by (simp add: now_def demo_rd_def demo_tunn_def Let_def timers_new_def duration_since_def checked_duration_since_def
        demo_instant_def duration_new_def from_secs_def)
  have "timer_decision (rd_elapsed (demo_rd 1 540)) now (drop_old now (demo_tunn [2] [3] 1)) = Expire"
    by (simp add: timer_decision_def drop_old_def demo_tunn_def is_expired_def demo_handshake_facts n)
  with timers_follow_protocol [OF demo_reach plain_crypto_ok demo_clock(2) now_def, of True plain_crypto demo_heap "[]"]
  show ?thesis by auto
qed

end
