(* ===== verification/Tunnel_Flow.thy ===== *)
theory Tunnel_Flow
  imports Tunnel_Safety
begin

text \<open>
  Two tunnels together: a packet that one end is given without a session is queued, the handshake
  the two ends run over the network establishes a session, and the queued packet comes out of the
  other end. Also the life of the sessions and the queue over time.
\<close>

section \<open>The handshake, whichever kind\<close>

definition kem_agrees :: "bool \<Rightarrow> crypto \<Rightarrow> env \<Rightarrow> env \<Rightarrow> bool" where
  "kem_agrees pq c ea eb \<longleftrightarrow> (pq \<longrightarrow> (case mlkem_keygen c (env_kem ea) of (dk, ek) \<Rightarrow>
     case mlkem_encaps c ek (env_kem eb) of (ct, ss) \<Rightarrow> mlkem_decaps c dk ct = Some ss))"

lemma agreement:
  assumes ok: "crypto_ok c"
    and pa: "hs_params ha = noise_params_new c sa (x25519_public c sa) (x25519_public c sb) psk"
    and pb: "hs_params hb = noise_params_new c sb (x25519_public c sb) (x25519_public c sa) psk"
    and ts: "stamp (hs_stamper ha) (env_stamp_now ea) = Some ts" "tai64n_parse ts = Inr t"
    and fresh: "after t (hs_last_handshake_timestamp hb)"
    and kem: "kem_agrees pq c ea eb"
    and bufs: "PQ_HANDSHAKE_INIT_SZ \<le> length d1" "PQ_HANDSHAKE_RESP_SZ \<le> length d2"
  shows "\<exists>ha1 m1 p hb1 m2 q i j k1 k2 s.
    format_any_init c ea ha pq d1 = Some (ha1, Inr m1) \<and> parse_incoming_packet pq m1 = Inr p \<and> is_handshake p \<and>
    receive_any_init c eb hb p d2 = Some (hb1, Inr (m2, session_new j i k1 k2)) \<and>
    parse_incoming_packet pq m2 = Inr q \<and> is_handshake q \<and> hs_params ha1 = hs_params ha \<and>
    receive_any_response c ea' ha1 q = Some (response_taken ea' s False ha1, Inr (session_new i j k2 k1))"
proof (cases pq)
  case False
  have "HANDSHAKE_INIT_SZ \<le> length d1" "HANDSHAKE_RESP_SZ \<le> length d2" using bufs by (simp_all add: size_consts)
  from classical_agreement [OF ok pa pb ts fresh this, of False eb ea'] obtain ha1 m1 p hb1 m2 q i j k1 k2 s where a:
    "format_handshake_initiation c ea ha d1 = Some (ha1, Inr m1)" "parse_incoming_packet False m1 = Inr (HandshakeInit p)"
    "receive_handshake_initialization c eb hb p d2 = Some (hb1, Inr (m2, session_new j i k1 k2))"
    "parse_incoming_packet False m2 = Inr (HandshakeResponse q)" "hs_params ha1 = hs_params ha" "awaiting ha1 i = Some (s, False)"
    "\<forall>ha' b. hs_params ha' = hs_params ha \<longrightarrow> awaiting ha' i = Some (s, b) \<longrightarrow>
      receive_handshake_response c ea' ha' q = Some (response_taken ea' s b ha', Inr (session_new i j k2 k1))" by metis
  have "receive_handshake_response c ea' ha1 q = Some (response_taken ea' s False ha1, Inr (session_new i j k2 k1))"
    using a(5,6,7) by blast
  with a(1-5) False show ?thesis
    by (intro exI [of _ ha1] exI [of _ m1] exI [of _ "HandshakeInit p"] exI [of _ hb1] exI [of _ m2]
        exI [of _ "HandshakeResponse q"] exI [of _ i] exI [of _ j] exI [of _ k1] exI [of _ k2] exI [of _ s])
      (simp add: format_any_init_def receive_any_init_def receive_any_response_def is_handshake_def)
next
  case True
  obtain dk ek ct ss where k: "mlkem_keygen c (env_kem ea) = (dk, ek)" "mlkem_encaps c ek (env_kem eb) = (ct, ss)"
    "mlkem_decaps c dk ct = Some ss" using kem True by (auto simp: kem_agrees_def split: prod.splits)
  from pq_agreement [OF ok pa pb ts fresh k bufs, of ea'] obtain ha1 m1 p hb1 m2 q i j k1 k2 s where a:
    "format_pq_handshake_initiation c ea ha d1 = Some (ha1, Inr m1)" "parse_incoming_packet True m1 = Inr (PqHandshakeInit p)"
    "receive_pq_handshake_initialization c eb hb p d2 = Some (hb1, Inr (m2, session_new j i k1 k2))"
    "parse_incoming_packet True m2 = Inr (PqHandshakeResponse q)" "hs_params ha1 = hs_params ha" "awaiting ha1 i = Some (s, False)"
    "\<forall>ha' b. hs_params ha' = hs_params ha \<longrightarrow> awaiting ha' i = Some (s, b) \<longrightarrow>
      receive_pq_handshake_response c ea' ha' q = Some (response_taken ea' s b ha', Inr (session_new i j k2 k1))" by metis
  have "receive_pq_handshake_response c ea' ha1 q = Some (response_taken ea' s False ha1, Inr (session_new i j k2 k1))"
    using a(5,6,7) by blast
  with a(1-5) True show ?thesis
    by (intro exI [of _ ha1] exI [of _ m1] exI [of _ "PqHandshakeInit p"] exI [of _ hb1] exI [of _ m2]
        exI [of _ "PqHandshakeResponse q"] exI [of _ i] exI [of _ j] exI [of _ k1] exI [of _ k2] exI [of _ s])
      (simp add: format_any_init_def receive_any_init_def receive_any_response_def is_handshake_def)
qed

text \<open>The response carries the MAC its addressee asks for.\<close>

lemma format_resp_macs:
  assumes "crypto_ok c" and "format_handshake_response c e h d = Some (h', Inr (m, s))"
  shows "\<exists>k body. m = with_macs c (hs_params h) k body"
proof -
  from assms(2) obtain hash ck pe i ek where st: "hs_state h = InitReceived hash ck pe i ek" and "HANDSHAKE_RESP_SZ \<le> length d"
    by (auto simp: format_handshake_response_def split: handshake_state.splits if_splits)
  from format_resp_eq [OF assms(1) this, of e] assms(2) show ?thesis by auto
qed

lemma format_pq_resp_macs:
  assumes "crypto_ok c" and "format_pq_handshake_response c e h d = Some (h', Inr (m, s))"
  shows "\<exists>k body. m = with_macs c (hs_params h) k body"
proof -
  from assms(2) obtain hash ck pe i ek where st: "hs_state h = InitReceived hash ck pe i (Some ek)"
    and sz: "PQ_HANDSHAKE_RESP_SZ \<le> length d"
    by (auto simp: format_pq_handshake_response_def split: handshake_state.splits if_splits Option.bind_splits)
  have len: "length ek = MLKEM768_PK_SIZE"
    using assms(2) sz by (auto simp: format_pq_handshake_response_def st inc_index_eq Let_def split: if_splits)
  have ek: "mlkem_ek_ok c ek"
    using assms(2) sz len by (auto simp: format_pq_handshake_response_def st inc_index_eq Let_def split: if_splits)
  obtain ct ss where "mlkem_encaps c ek (env_kem e) = (ct, ss)" by fastforce
  from format_pq_resp_eq [OF assms(1) st sz len ek this] assms(2) show ?thesis by auto
qed

lemma response_mac1:
  assumes "crypto_ok c" and "receive_any_init c e h pkt d = Some (h', Inr (m, s))"
    and "limiter_for c (np_peer_static_public (hs_params h)) rl"
    and "np_sending_mac1_key (hs_params h) = b2s_hash c LABEL_MAC1 (np_peer_static_public (hs_params h))"
  shows "mac1_ok c rl m"
proof -
  have "\<exists>k body. m = with_macs c (hs_params h) k body"
    using assms(2) format_resp_macs [OF assms(1)] format_pq_resp_macs [OF assms(1)]
    by (cases pkt) (fastforce simp: receive_any_init_def receive_init_open receive_pq_init_open take_init_def
        split: Option.bind_splits sum.splits if_splits)+
  then show ?thesis using assms(3,4) by (auto simp: mac1_ok_def with_macs_parts [OF assms(1)] limiter_for_def)
qed

lemma init_mac1:
  assumes "crypto_ok c" and "hs_params h = noise_params_new c sa (x25519_public c sa) pb psk"
    and "format_any_init c e h b d = Some (h', Inr m)" and "limiter_for c pb rl"
  shows "mac1_ok c rl m"
  using format_any_init_wire [OF assms(1-3)] assms(2,4)
  by (metis limiter_for_def mac1_ok_def noise_params_new_sel(5) with_macs_parts(1,2) [OF assms(1)])

section \<open>The operations of the tunnel on good messages\<close>

lemma decapsulate_handshake:
  assumes "parse_incoming_packet pq d = Inr p" and "is_handshake p" and "crypto_ok c"
    and "mac1_ok c (rlh_at heap (tn_rate_limiter t)) d"
    and "rl_count (rlh_at heap (tn_rate_limiter t)) < rl_limit (rlh_at heap (tn_rate_limiter t))"
    and "handle_verified_packet c rd t p dst = Some (t', r)"
  shows "\<exists>heap'. decapsulate pq c rd heap t a d dst = Some (heap', t', r)"
proof -
  have "d \<noteq> []" using assms(1) by (auto simp: parse_incoming_packet_def)
  then show ?thesis using verify_packet_handshake [OF assms(1,2,3)] assms(4-6) by (simp add: decapsulate_def Let_def)
qed

lemma decapsulate_data:
  assumes "parse_incoming_packet pq d = Inr (PacketData p)" and "handle_data c t p dst = Some (t', Inr r)"
  shows "\<exists>heap'. decapsulate pq c rd heap t a d dst = Some (heap', t', r)"
proof -
  have "d \<noteq> []" using assms(1) by (auto simp: parse_incoming_packet_def)
  moreover have "\<not> is_handshake (PacketData p)" by (simp add: is_handshake_def)
  ultimately show ?thesis using verify_packet_not_handshake [OF assms(1)] assms(2)
    by (simp add: decapsulate_def Let_def handle_verified_packet_def)
qed

lemma set_current_frame [simp]:
  "tn_sessions (set_current_session t k) = tn_sessions t" "tn_handshake (set_current_session t k) = tn_handshake t"
  "tn_packet_queue (set_current_session t k) = tn_packet_queue t" "tn_timers (set_current_session t k) = tn_timers t"
  "tn_rate_limiter (set_current_session t k) = tn_rate_limiter t"
  by (simp_all add: set_current_session_def Let_def)

lemma handle_init_ok:
  assumes "receive_any_init c (rd_env rd) (tn_handshake t) p dst = Some (h, Inr (m, s))"
  shows "\<exists>t'. handle_verified_packet c rd t p dst = Some (t', WriteToNetwork m) \<and> tn_handshake t' = h \<and>
    tn_sessions t' = (tn_sessions t)[session_local_index s mod N_SESSIONS := Some s] \<and>
    tn_packet_queue t' = tn_packet_queue t \<and> tn_current t' = tn_current t"
  using assms
  by (cases p) (simp_all add: receive_any_init_def handle_verified_packet_def handle_handshake_init_def
      handle_pq_handshake_init_def Let_def)

lemma handle_response_ok:
  assumes "receive_any_response c (rd_env rd) (tn_handshake t) p = Some (h, Inr s)" and "DATA_OVERHEAD_SZ \<le> length dst"
    and "length (tn_sessions t) = N_SESSIONS"
  defines "s' \<equiv> s\<lparr> sending_key_counter := sending_key_counter s + 1 \<rparr>"
  shows "\<exists>t'. handle_verified_packet c rd t p dst = Some (t', WriteToNetwork (wire_body (PacketData (data_packet_of c s [])))) \<and>
    tn_handshake t' = h \<and> tn_sessions t' = (tn_sessions t)[session_local_index s mod N_SESSIONS := Some s'] \<and>
    tn_packet_queue t' = tn_packet_queue t \<and>
    (tn_sessions t ! (tn_current t mod N_SESSIONS) = None \<longrightarrow> tn_current t' mod N_SESSIONS = session_local_index s mod N_SESSIONS)"
proof -
  have f: "format_packet_data c s [] dst = Some (s', wire_body (PacketData (data_packet_of c s [])))"
    unfolding s'_def using assms(2) by (intro format_packet_data_Some) simp
  have i: "session_local_index s' = session_local_index s" by (simp add: s'_def session_local_index_def)
  have cur: "tn_current (set_current_session t k) mod N_SESSIONS = k mod N_SESSIONS"
    if "tn_sessions t ! (tn_current t mod N_SESSIONS) = None \<or> tn_current t mod N_SESSIONS = k mod N_SESSIONS" for t :: tunn and k
    using that by (auto simp: set_current_session_def Let_def)
  show ?thesis using assms(1) f i
    by (cases p) (auto simp: receive_any_response_def handle_verified_packet_def handle_handshake_response_def
        handle_pq_handshake_response_def Let_def nth_list_update assms(3) simp del: wire_body.simps intro!: cur)
qed

lemma handle_data_ok:
  assumes "crypto_ok c" and "sender sa = receiver sb" and "sending_index sa = receiving_index sb"
    and "replay_rel (receiving_key_counter sb) (A, n)" and "counter_ok (sending_key_counter sa)"
    and "unat (sending_key_counter sa) \<notin> A" and "n \<le> unat (sending_key_counter sa) + 1024"
    and "length src + 16 \<le> length dst"
    and "tn_sessions t ! (session_local_index sb mod N_SESSIONS) = Some sb" and "length (tn_sessions t) = N_SESSIONS"
  shows "\<exists>t1 t' sb' n' r. validate_decapsulated_packet t1 src = (t', r) \<and> handle_data c t (data_packet_of c sa src) dst = Some (t', Inr r) \<and>
    tn_sessions t1 = (tn_sessions t)[session_local_index sb mod N_SESSIONS := Some sb'] \<and>
    receiver sb' = receiver sb \<and> receiving_index sb' = receiving_index sb \<and>
    replay_rel (receiving_key_counter sb') (insert (unat (sending_key_counter sa)) A, n') \<and> n' = max n (unat (sending_key_counter sa) + 1)"
proof -
  have "spec_mark (A, n) (unat (sending_key_counter sa)) = Some (insert (unat (sending_key_counter sa)) A, max n (unat (sending_key_counter sa) + 1))"
    using assms(6,7) by (simp add: spec_mark_def)
  with receive_data_packet_of [OF assms(1-5) assms(8)] obtain v' where
    r: "receive_packet_data c sb (data_packet_of c sa src) dst = Some (sb\<lparr> receiving_key_counter := v' \<rparr>, Inr src)"
      "replay_rel v' (insert (unat (sending_key_counter sa)) A, max n (unat (sending_key_counter sa) + 1))" by auto
  have idx: "unat (pd_receiver_idx (data_packet_of c sa src)) = session_local_index sb"
    using assms(3) by (simp add: data_packet_of_def session_local_index_def)
  let ?t1 = "timer_tick (set_current_session (t\<lparr> tn_sessions := (tn_sessions t)[session_local_index sb mod N_SESSIONS :=
    Some (sb\<lparr> receiving_key_counter := v' \<rparr>)] \<rparr>) (session_local_index sb)) TimeLastPacketReceived"
  obtain t' x where v: "validate_decapsulated_packet ?t1 src = (t', x)" by fastforce
  show ?thesis
    by (rule exI [of _ ?t1], rule exI [of _ t'], rule exI [of _ "sb\<lparr> receiving_key_counter := v' \<rparr>"])
      (use r v assms(9) in \<open>simp add: handle_data_def idx Let_def\<close>)
qed

text \<open>A complete IP packet, and its delivery to the tunnel interface.\<close>

definition ip_source :: "bytes \<Rightarrow> ip_addr option" where
  "ip_source src = (case src of
     [] \<Rightarrow> None
   | b # _ \<Rightarrow>
     if drop_bit 4 b = 4 \<and> 20 \<le> length src \<and> unat (of_be_bytes (slice_of 2 4 src) :: u16) = length src
     then Some (IpV4 (slice_of 12 16 src))
     else if drop_bit 4 b = 6 \<and> 40 \<le> length src \<and> unat (of_be_bytes (slice_of 4 6 src) :: u16) + 40 = length src
     then Some (IpV6 (slice_of 8 24 src))
     else None)"

fun to_tunnel :: "bytes \<Rightarrow> ip_addr \<Rightarrow> tunn_result" where
  "to_tunnel p (IpV4 a) = WriteToTunnelV4 p a"
| "to_tunnel p (IpV6 a) = WriteToTunnelV6 p a"

lemma validate_ip: "ip_source src = Some a \<Longrightarrow> snd (validate_decapsulated_packet t src) = to_tunnel src a"
  by (auto simp: ip_source_def validate_decapsulated_packet_def ip_consts Let_def split: list.splits if_splits)

lemma validate_frame:
  "validate_decapsulated_packet t p = (t', r) \<Longrightarrow> tn_sessions t' = tn_sessions t"
  by (auto simp: validate_decapsulated_packet_def Let_def split: list.splits if_splits ip_addr.splits)

lemma encapsulate_queues:
  assumes "tn_sessions t ! (tn_current t mod N_SESSIONS) = None" and "\<not> is_in_progress (tn_handshake t)"
    and "format_any_init c (rd_env rd) (tn_handshake t) pq dst = Some (h, Inr m)" and "length (tn_packet_queue t) < MAX_QUEUE_DEPTH"
  shows "\<exists>t'. encapsulate pq c rd t src dst = Some (t', WriteToNetwork m) \<and> tn_handshake t' = h \<and>
    tn_sessions t' = tn_sessions t \<and> tn_packet_queue t' = tn_packet_queue t @ [src] \<and> tn_current t' = tn_current t \<and>
    tn_rate_limiter t' = tn_rate_limiter t"
  using assms
  by (simp add: encapsulate_def Let_def tunn_format_init_eq start_clear_def queue_packet_def)

lemma encapsulate_session:
  assumes "tn_sessions t ! (tn_current t mod N_SESSIONS) = Some s" and "length src + DATA_OVERHEAD_SZ \<le> length dst"
  shows "\<exists>t'. encapsulate pq c rd t src dst = Some (t', WriteToNetwork (wire_body (PacketData (data_packet_of c s src)))) \<and>
    tn_packet_queue t' = tn_packet_queue t \<and> tn_current t' = tn_current t \<and>
    tn_sessions t' = (tn_sessions t)[tn_current t mod N_SESSIONS := Some (s\<lparr> sending_key_counter := sending_key_counter s + 1 \<rparr>)]"
  using assms by (simp add: encapsulate_def Let_def format_packet_data_Some del: wire_body.simps)

lemma send_queued_session:
  assumes "tn_packet_queue t = p # q" and "tn_sessions t ! (tn_current t mod N_SESSIONS) = Some s"
    and "length p + DATA_OVERHEAD_SZ \<le> length dst"
  shows "\<exists>t'. decapsulate pq c rd heap t a [] dst = Some (heap, t', WriteToNetwork (wire_body (PacketData (data_packet_of c s p)))) \<and>
    tn_packet_queue t' = q \<and> tn_current t' = tn_current t \<and>
    tn_sessions t' = (tn_sessions t)[tn_current t mod N_SESSIONS := Some (s\<lparr> sending_key_counter := sending_key_counter s + 1 \<rparr>)]"
  using encapsulate_session [of "t\<lparr> tn_packet_queue := q \<rparr>" s p dst pq c rd] assms
  by (auto simp: decapsulate_def send_queued_packet_def dequeue_packet_def simp del: wire_body.simps)

lemma send_queued_empty:
  "tn_packet_queue t = [] \<Longrightarrow> decapsulate pq c rd heap t a [] dst = Some (heap, t, Done)"
  by (simp add: decapsulate_def send_queued_packet_def dequeue_packet_def)

section \<open>Two tunnels\<close>

text \<open>Two tunnels that are set up for each other: mirrored keys, limiters that are not under load, and no
  session or handshake at the first one.\<close>

definition tunnels_for_each_other ::
  "crypto \<Rightarrow> bytes \<Rightarrow> bytes \<Rightarrow> bytes option \<Rightarrow> rl_heap \<Rightarrow> tunn \<Rightarrow> rl_heap \<Rightarrow> tunn \<Rightarrow> bool" where
  "tunnels_for_each_other c sa sb psk ga ta gb tb \<longleftrightarrow>
     hs_params (tn_handshake ta) = noise_params_new c sa (x25519_public c sa) (x25519_public c sb) psk \<and>
     hs_params (tn_handshake tb) = noise_params_new c sb (x25519_public c sb) (x25519_public c sa) psk \<and>
     (let la = rlh_at ga (tn_rate_limiter ta) in limiter_for c (x25519_public c sa) la \<and> rl_count la < rl_limit la) \<and>
     (let lb = rlh_at gb (tn_rate_limiter tb) in limiter_for c (x25519_public c sb) lb \<and> rl_count lb < rl_limit lb) \<and>
     ring_inv ta \<and> ring_inv tb \<and>
     tn_packet_queue ta = [] \<and> tn_sessions ta ! (tn_current ta mod N_SESSIONS) = None \<and> \<not> is_in_progress (tn_handshake ta)"

definition fresh_stamp :: "env \<Rightarrow> tunn \<Rightarrow> tunn \<Rightarrow> bool" where
  "fresh_stamp e ta tb \<longleftrightarrow> (case stamp (hs_stamper (tn_handshake ta)) (env_stamp_now e) of
     Some ts \<Rightarrow> (case tai64n_parse ts of Inr t \<Rightarrow> after t (hs_last_handshake_timestamp (tn_handshake tb)) | _ \<Rightarrow> False)
   | None \<Rightarrow> False)"

lemma handshake_establishes:
  assumes ok: "crypto_ok c" and pair: "tunnels_for_each_other c sa sb psk ga ta gb tb"
    and stamp: "fresh_stamp (rd_env r1) ta tb" and kem: "kem_agrees pq c (rd_env r1) (rd_env r2)"
    and dst: "PQ_HANDSHAKE_INIT_SZ \<le> length dst"
  shows "\<exists>ta1 m1 gb1 tb1 m2 ga2 ta2 i j k1 k2.
    encapsulate pq c r1 ta src dst = Some (ta1, WriteToNetwork m1) \<and>
    decapsulate pq c r2 gb tb a m1 dst = Some (gb1, tb1, WriteToNetwork m2) \<and>
    decapsulate pq c r3 ga ta1 a' m2 dst =
      Some (ga2, ta2, WriteToNetwork (wire_body (PacketData (data_packet_of c (session_new i j k2 k1) [])))) \<and>
    length (tn_sessions tb1) = N_SESSIONS \<and> tn_sessions tb1 ! (unat j mod N_SESSIONS) = Some (session_new j i k1 k2) \<and>
    tn_sessions ta2 ! (tn_current ta2 mod N_SESSIONS) = Some ((session_new i j k2 k1)\<lparr> sending_key_counter := 1 \<rparr>) \<and>
    tn_packet_queue ta2 = [src]"
proof -
  have pa: "hs_params (tn_handshake ta) = noise_params_new c sa (x25519_public c sa) (x25519_public c sb) psk"
    and pb: "hs_params (tn_handshake tb) = noise_params_new c sb (x25519_public c sb) (x25519_public c sa) psk"
    and la: "limiter_for c (x25519_public c sa) (rlh_at ga (tn_rate_limiter ta))"
      "rl_count (rlh_at ga (tn_rate_limiter ta)) < rl_limit (rlh_at ga (tn_rate_limiter ta))"
    and lb: "limiter_for c (x25519_public c sb) (rlh_at gb (tn_rate_limiter tb))"
      "rl_count (rlh_at gb (tn_rate_limiter tb)) < rl_limit (rlh_at gb (tn_rate_limiter tb))"
    and len: "length (tn_sessions ta) = N_SESSIONS" "length (tn_sessions tb) = N_SESSIONS"
    and idle: "tn_packet_queue ta = []" "tn_sessions ta ! (tn_current ta mod N_SESSIONS) = None" "\<not> is_in_progress (tn_handshake ta)"
    using pair by (auto simp: tunnels_for_each_other_def ring_inv_def Let_def)
  have dst': "PQ_HANDSHAKE_RESP_SZ \<le> length dst" "DATA_OVERHEAD_SZ \<le> length dst" using dst by (simp_all add: size_consts)
  obtain ts tm where ts: "stamp (hs_stamper (tn_handshake ta)) (env_stamp_now (rd_env r1)) = Some ts" "tai64n_parse ts = Inr tm"
      "after tm (hs_last_handshake_timestamp (tn_handshake tb))"
    using stamp by (auto simp: fresh_stamp_def split: option.splits sum.splits)
  from agreement [OF ok pa pb ts kem dst dst'(1), of "rd_env r3"] obtain ha1 m1 p hb1 m2 q i j k1 k2 s where a:
    "format_any_init c (rd_env r1) (tn_handshake ta) pq dst = Some (ha1, Inr m1)" "parse_incoming_packet pq m1 = Inr p" "is_handshake p"
    "receive_any_init c (rd_env r2) (tn_handshake tb) p dst = Some (hb1, Inr (m2, session_new j i k1 k2))"
    "parse_incoming_packet pq m2 = Inr q" "is_handshake q"
    "receive_any_response c (rd_env r3) ha1 q = Some (response_taken (rd_env r3) s False ha1, Inr (session_new i j k2 k1))" by metis
  let ?sa = "session_new i j k2 k1" and ?sb = "session_new j i k1 k2"
  have new: "session_local_index ?sa = unat i" "session_local_index ?sb = unat j" "sending_key_counter ?sa = 0"
    by (simp_all add: session_local_index_def session_new_def)
  have q0: "length (tn_packet_queue ta) < MAX_QUEUE_DEPTH" using idle(1) by (simp add: MAX_QUEUE_DEPTH_def)
  from encapsulate_queues [OF idle(2,3) a(1) q0, of src] idle(1) obtain ta1 where
    ta1: "encapsulate pq c r1 ta src dst = Some (ta1, WriteToNetwork m1)"
    "tn_handshake ta1 = ha1" "tn_sessions ta1 = tn_sessions ta" "tn_packet_queue ta1 = [src]" "tn_current ta1 = tn_current ta"
    "tn_rate_limiter ta1 = tn_rate_limiter ta" by auto
  from handle_init_ok [OF a(4)] obtain tb1 where tb1: "handle_verified_packet c r2 tb p dst = Some (tb1, WriteToNetwork m2)"
    "tn_sessions tb1 = (tn_sessions tb)[unat j mod N_SESSIONS := Some ?sb]" by (auto simp: new)
  from decapsulate_handshake [OF a(2,3) ok init_mac1 [OF ok pa a(1) lb(1)] lb(2) tb1(1)] obtain gb1 where
    s2: "decapsulate pq c r2 gb tb a m1 dst = Some (gb1, tb1, WriteToNetwork m2)" by blast
  have "receive_any_response c (rd_env r3) (tn_handshake ta1) q = Some (response_taken (rd_env r3) s False ha1, Inr ?sa)"
    using a(7) ta1(2) by simp
  from handle_response_ok [OF this dst'(2)] len(1) ta1(3,4,5) idle(2) obtain ta2 where
    ta2: "handle_verified_packet c r3 ta1 q dst = Some (ta2, WriteToNetwork (wire_body (PacketData (data_packet_of c ?sa []))))"
      "tn_sessions ta2 = (tn_sessions ta)[unat i mod N_SESSIONS := Some (?sa\<lparr> sending_key_counter := 1 \<rparr>)]" "tn_packet_queue ta2 = [src]"
      "tn_current ta2 mod N_SESSIONS = unat i mod N_SESSIONS" by (auto simp: new simp del: wire_body.simps)
  have "mac1_ok c (rlh_at ga (tn_rate_limiter ta1)) m2"
    "rl_count (rlh_at ga (tn_rate_limiter ta1)) < rl_limit (rlh_at ga (tn_rate_limiter ta1))"
    using response_mac1 [OF ok a(4)] pb la ta1(6) by simp_all
  from decapsulate_handshake [OF a(5,6) ok this ta2(1)] obtain ga2 where
    "decapsulate pq c r3 ga ta1 a' m2 dst = Some (ga2, ta2, WriteToNetwork (wire_body (PacketData (data_packet_of c ?sa []))))" by blast
  with ta1(1) s2 tb1(2) ta2(2,3,4) len show ?thesis
    by (intro exI conjI) (assumption | simp del: wire_body.simps)+
qed

text \<open>Once both have the session, what one sends the other takes, and the queue is flushed.\<close>

lemma session_delivers:
  assumes ok: "crypto_ok c" and tb: "tn_sessions tb ! (unat j mod N_SESSIONS) = Some (session_new j i k1 k2)" "length (tn_sessions tb) = N_SESSIONS"
    and ta: "tn_sessions ta ! (tn_current ta mod N_SESSIONS) = Some ((session_new i j k2 k1)\<lparr> sending_key_counter := 1 \<rparr>)" "tn_packet_queue ta = [src]"
    and src: "ip_source src = Some addr" and dst: "length src + DATA_OVERHEAD_SZ \<le> length dst"
  shows "\<exists>gb2 tb2 ta3 m4 gb3 tb3.
    decapsulate pq c r4 gb tb a (wire_body (PacketData (data_packet_of c (session_new i j k2 k1) []))) dst = Some (gb2, tb2, Done) \<and>
    decapsulate pq c r5 ga ta a' [] dst = Some (ga, ta3, WriteToNetwork m4) \<and>
    decapsulate pq c r6 gb2 tb2 a m4 dst = Some (gb3, tb3, to_tunnel src addr) \<and>
    decapsulate pq c r7 ga ta3 a' [] dst = Some (ga, ta3, Done)"
proof -
  let ?sa = "session_new i j k2 k1" and ?sb = "session_new j i k1 k2"
  let ?sa1 = "?sa\<lparr> sending_key_counter := 1 \<rparr>"
  have keys: "sender ?sa = receiver ?sb" "sending_index ?sa = receiving_index ?sb" "replay_rel (receiving_key_counter ?sb) ({}, 0)"
    and idx: "session_local_index ?sb = unat j" using replay_rel_init by (simp_all add: session_new_def session_local_index_def)
  have c0: "counter_ok (sending_key_counter ?sa)" "unat (sending_key_counter ?sa) = 0" by (simp_all add: counter_ok_def session_new_def)
  from handle_data_ok [OF ok keys c0(1), of "[]" dst tb] tb dst obtain t1 tb2 sb' r where
    tb2: "validate_decapsulated_packet t1 [] = (tb2, r)" "handle_data c tb (data_packet_of c ?sa []) dst = Some (tb2, Inr r)"
      "tn_sessions t1 = (tn_sessions tb)[unat j mod N_SESSIONS := Some sb']"
      "receiver sb' = receiver ?sb" "receiving_index sb' = receiving_index ?sb" "replay_rel (receiving_key_counter sb') ({0}, 1)"
    by (auto simp: idx c0(2) size_consts)
  have "r = Done" "tb2 = t1" using tb2(1) by (simp_all add: validate_decapsulated_packet_def)
  with decapsulate_data [OF data_packet_of_parse [OF ok] tb2(2)] obtain gb2 where
    s4: "decapsulate pq c r4 gb tb a (wire_body (PacketData (data_packet_of c ?sa []))) dst = Some (gb2, tb2, Done)" by blast
  from send_queued_session [OF ta(2,1) dst] obtain ta3 where
    s5: "decapsulate pq c r5 ga ta a' [] dst = Some (ga, ta3, WriteToNetwork (wire_body (PacketData (data_packet_of c ?sa1 src))))"
      "tn_packet_queue ta3 = []" by blast
  have keys': "sender ?sa1 = receiver sb'" "sending_index ?sa1 = receiving_index sb'" using keys(1,2) tb2(4,5) by simp_all
  have c1: "counter_ok (sending_key_counter ?sa1)" "unat (sending_key_counter ?sa1) = 1" by (simp_all add: counter_ok_def)
  have "session_local_index sb' = unat j" using tb2(5) by (simp add: session_local_index_def session_new_def)
  with handle_data_ok [OF ok keys' tb2(6) c1(1), of src dst tb2] tb2(3) \<open>tb2 = t1\<close> tb(2) dst obtain t2 tb3 r' where
    tb3: "validate_decapsulated_packet t2 src = (tb3, r')" "handle_data c tb2 (data_packet_of c ?sa1 src) dst = Some (tb3, Inr r')"
    by (auto simp: c1(2) size_consts)
  have "r' = to_tunnel src addr" using validate_ip [OF src, of t2] tb3(1) by simp
  with decapsulate_data [OF data_packet_of_parse [OF ok] tb3(2)] obtain gb3 where
    s6: "decapsulate pq c r6 gb2 tb2 a (wire_body (PacketData (data_packet_of c ?sa1 src))) dst = Some (gb3, tb3, to_tunnel src addr)" by blast
  show ?thesis by (intro exI conjI, rule s4, rule s5(1), rule s6, rule send_queued_empty [OF s5(2)])
qed

section \<open>Properties\<close>

text \<open>C20: the first packet of a conversation arrives. One end, without a session, is given an IP
  packet: it queues it and sends an initiation. Handing each message to the other end, and asking
  for queued packets as the documentation says, gives a response, a keepalive, and the packet
  itself: the other end confirms the session and hands exactly the packet, with its source address,
  to the tunnel interface; nothing is left in the queue. This holds for the classical and for the
  hybrid handshake, for tunnels in any state without a session or a handshake in progress at the
  initiator, as long as the limiters are not under load.\<close>
theorem first_packet_delivered:
  assumes "crypto_ok c" and "tunnels_for_each_other c sa sb psk ga ta gb tb"
    and "fresh_stamp (rd_env r1) ta tb" and "kem_agrees pq c (rd_env r1) (rd_env r2)"
    and "ip_source src = Some addr"
    and "PQ_HANDSHAKE_INIT_SZ \<le> length dst" and "length src + DATA_OVERHEAD_SZ \<le> length dst"
  shows "\<exists>ta1 m1 gb1 tb1 m2 ga2 ta2 m3 gb2 tb2 ta3 m4 gb3 tb3.
    encapsulate pq c r1 ta src dst = Some (ta1, WriteToNetwork m1) \<and>
    decapsulate pq c r2 gb tb a m1 dst = Some (gb1, tb1, WriteToNetwork m2) \<and>
    decapsulate pq c r3 ga ta1 a' m2 dst = Some (ga2, ta2, WriteToNetwork m3) \<and>
    decapsulate pq c r4 gb1 tb1 a m3 dst = Some (gb2, tb2, Done) \<and>
    decapsulate pq c r5 ga2 ta2 a' [] dst = Some (ga2, ta3, WriteToNetwork m4) \<and>
    decapsulate pq c r6 gb2 tb2 a m4 dst = Some (gb3, tb3, to_tunnel src addr) \<and>
    decapsulate pq c r7 ga2 ta3 a' [] dst = Some (ga2, ta3, Done)"
proof -
  from handshake_establishes [OF assms(1-4,6), of src a r3 a'] obtain ta1 m1 gb1 tb1 m2 ga2 ta2 i j k1 k2 where
    h: "encapsulate pq c r1 ta src dst = Some (ta1, WriteToNetwork m1)"
    "decapsulate pq c r2 gb tb a m1 dst = Some (gb1, tb1, WriteToNetwork m2)"
    "decapsulate pq c r3 ga ta1 a' m2 dst =
      Some (ga2, ta2, WriteToNetwork (wire_body (PacketData (data_packet_of c (session_new i j k2 k1) []))))"
    and s: "length (tn_sessions tb1) = N_SESSIONS" "tn_sessions tb1 ! (unat j mod N_SESSIONS) = Some (session_new j i k1 k2)"
      "tn_sessions ta2 ! (tn_current ta2 mod N_SESSIONS) = Some ((session_new i j k2 k1)\<lparr> sending_key_counter := 1 \<rparr>)"
      "tn_packet_queue ta2 = [src]" by metis
  from session_delivers [OF assms(1) s(2,1,3,4) assms(5,7), of pq r4 gb1 a r5 ga2 a' r6 r7] obtain gb2 tb2 ta3 m4 gb3 tb3 where
    d: "decapsulate pq c r4 gb1 tb1 a (wire_body (PacketData (data_packet_of c (session_new i j k2 k1) []))) dst = Some (gb2, tb2, Done)"
    "decapsulate pq c r5 ga2 ta2 a' [] dst = Some (ga2, ta3, WriteToNetwork m4)"
    "decapsulate pq c r6 gb2 tb2 a m4 dst = Some (gb3, tb3, to_tunnel src addr)"
    "decapsulate pq c r7 ga2 ta3 a' [] dst = Some (ga2, ta3, Done)" by metis
  show ?thesis by (intro exI conjI, rule h(1), rule h(2), rule h(3), rule d(1), rule d(2), rule d(3), rule d(4))
qed

definition demo_heap_for :: "bytes \<Rightarrow> rl_heap" where
  "demo_heap_for sk = \<lparr> rlh_next = 1, rlh_at = (\<lambda>_. rate_limiter_new plain_crypto (replicate 16 7) (replicate 32 8)
     demo_instant demo_instant (x25519_public plain_crypto sk) 10) \<rparr>"

definition demo_packet :: bytes where
  "demo_packet = [0x45, 0, 0, 20, 0, 0, 0, 0, 64, 17, 0, 0, 10, 0, 0, 1, 10, 0, 0, 2]"

lemma demo_packet_source: "ip_source demo_packet = Some (IpV4 [10, 0, 0, 1])"
  by code_simp

lemma demo_pair:
  "tunnels_for_each_other plain_crypto [2] [3] (Some (replicate 32 9)) (demo_heap_for [2]) (demo_tunn [2] [3] 1)
     (demo_heap_for [3]) (demo_tunn [3] [2] 2)"
  "fresh_stamp (demo_env x) (demo_tunn [2] [3] 1) (demo_tunn [3] [2] 2)"
  "kem_agrees pq plain_crypto (demo_env x) (demo_env y)"
proof -
  have "ring_inv (demo_tunn sk peer idx)" for sk peer idx
    using tunn_reach_wf [OF demo_reach plain_crypto_ok] by (auto simp: tunn_wf_def)
  moreover have "limiter_for plain_crypto (x25519_public plain_crypto sk) (rlh_at (demo_heap_for sk) n)"
    "rl_count (rlh_at (demo_heap_for sk) n) < rl_limit (rlh_at (demo_heap_for sk) n)" for sk n
    by (simp_all add: demo_heap_for_def limiter_for_new) (simp add: rate_limiter_new_def)
  ultimately show "tunnels_for_each_other plain_crypto [2] [3] (Some (replicate 32 9)) (demo_heap_for [2]) (demo_tunn [2] [3] 1)
     (demo_heap_for [3]) (demo_tunn [3] [2] 2)"
    by (simp add: tunnels_for_each_other_def Let_def) (simp add: demo_tunn_def demo_handshake_facts is_in_progress_def)
  show "fresh_stamp (demo_env x) (demo_tunn [2] [3] 1) (demo_tunn [3] [2] 2)"
    by (simp add: fresh_stamp_def demo_tunn_def demo_handshake_facts)
  show "kem_agrees pq plain_crypto (demo_env x) (demo_env y)" by (simp add: kem_agrees_def plain_crypto_def)
qed

theorem first_packet_delivered_witness:
  "\<exists>ta1 m1 gb1 tb1 m2 ga2 ta2 m3 gb2 tb2 ta3 m4 gb3 tb3.
    encapsulate True plain_crypto (demo_rd 1 0) (demo_tunn [2] [3] 1) demo_packet (replicate 1500 0) = Some (ta1, WriteToNetwork m1) \<and>
    decapsulate True plain_crypto (demo_rd 4 0) (demo_heap_for [3]) (demo_tunn [3] [2] 2) None m1 (replicate 1500 0) =
      Some (gb1, tb1, WriteToNetwork m2) \<and>
    decapsulate True plain_crypto (demo_rd 5 0) (demo_heap_for [2]) ta1 None m2 (replicate 1500 0) = Some (ga2, ta2, WriteToNetwork m3) \<and>
    decapsulate True plain_crypto (demo_rd 6 0) gb1 tb1 None m3 (replicate 1500 0) = Some (gb2, tb2, Done) \<and>
    decapsulate True plain_crypto (demo_rd 7 0) ga2 ta2 None [] (replicate 1500 0) = Some (ga2, ta3, WriteToNetwork m4) \<and>
    decapsulate True plain_crypto (demo_rd 8 0) gb2 tb2 None m4 (replicate 1500 0) =
      Some (gb3, tb3, WriteToTunnelV4 demo_packet [10, 0, 0, 1]) \<and>
    decapsulate True plain_crypto (demo_rd 9 0) ga2 ta3 None [] (replicate 1500 0) = Some (ga2, ta3, Done)"
proof -
  have rd: "rd_env (demo_rd x s) = demo_env x" for x s by (simp add: demo_rd_def Let_def)
  have b: "PQ_HANDSHAKE_INIT_SZ \<le> length (replicate 1500 (0 :: byte))"
    "length demo_packet + DATA_OVERHEAD_SZ \<le> length (replicate 1500 (0 :: byte))" by (simp_all add: size_consts demo_packet_def)
  show ?thesis
    using first_packet_delivered [OF plain_crypto_ok demo_pair(1) _ _ demo_packet_source b, where ?r1.0 = "demo_rd 1 0" and ?r2.0 = "demo_rd 4 0"
        and ?r3.0 = "demo_rd 5 0" and ?r4.0 = "demo_rd 6 0" and ?r5.0 = "demo_rd 7 0" and ?r6.0 = "demo_rd 8 0" and ?r7.0 = "demo_rd 9 0"
        and a = None and a' = None and pq = True, unfolded rd, OF demo_pair(2,3)] by simp
qed

text \<open>C31: after a tick of the timers, a session that is still there was established at most 180
  seconds ago, and it is a session that was in the same slot before.\<close>
theorem old_sessions_dropped:
  assumes "tunn_reach pq' c' T t" and "crypto_ok c'" and "clock_between T rd T'"
    and "update_timers pq c rd heap t dst = Some (heap', t', r)" and "i < 8" and "tn_sessions t' ! i = Some s"
  shows "\<exists>s0. tn_sessions t ! i = Some s0 \<and> session_step s0 s \<and>
    duration_since (rd_time rd) (tm_time_started (tn_timers t)) - tm_session_timers (tn_timers t) ! i \<le> from_secs 180"
proof -
  define now where "now = duration_since (rd_time rd) (tm_time_started (tn_timers t))"
  let ?t3 = "drop_cookie now (drop_old now t)"
  have wf: "tunn_wf T t" using tunn_reach_wf [OF assms(1,2)] .
  then have len: "length (tn_sessions t) = 8" "length (tm_session_timers (tn_timers t)) = 8"
    by (auto simp: tunn_wf_def ring_inv_def N_SESSIONS_def)
  have old: "tn_sessions (drop_old now t) ! i = (if from_secs 180 < now - tm_session_timers (tn_timers t) ! i then None else tn_sessions t ! i)"
    "length (tn_sessions (drop_old now t)) = N_SESSIONS"
    using len assms(5) by (simp_all add: drop_old_def N_SESSIONS_def)
  from update_timers_cases [OF wf assms(3), of pq c heap dst] obtain tm where
    "tn_sessions t' = map (\<lambda>_. None) (tn_sessions ?t3) \<or> tn_sessions t' = tn_sessions (drop_old now t) \<or>
     encapsulate pq c rd (?t3\<lparr> tn_timers := tm \<rparr>) [] dst = Some (t', r)"
    using assms(4) format_init_sessions
    by (cases "timer_decision (rd_elapsed rd) now (drop_old now t)") (fastforce simp: now_def [symmetric] clear_all_def Let_def)+
  then have "\<exists>s0. tn_sessions (drop_old now t) ! i = Some s0 \<and> session_step s0 s"
    using assms(5,6) len encapsulate_sessions [of pq c rd "?t3\<lparr> tn_timers := tm \<rparr>" "[]" dst t' r i s] old(2)
    by (auto simp: drop_old_def)
  then show ?thesis using old(1) by (auto simp: now_def [symmetric] split: if_splits)
qed

text \<open>When no time has passed, the timers do not drop anything.\<close>

lemma Some_eq_map_option_iff: "Some y = map_option f m \<longleftrightarrow> (\<exists>x. m = Some x \<and> y = f x)"
  by (cases m) auto

lemma update_timers_at_start:
  assumes "tunn_wf T t" and "clock_between T rd T'" and "duration_since (rd_time rd) (tm_time_started (tn_timers t)) = 0"
    and "update_timers pq c rd heap t dst = Some (heap', t', r)" and "length (tn_sessions t) = length (tm_session_timers (tn_timers t))"
  shows "tn_sessions t' = tn_sessions t"
proof -
  have "tn_sessions (drop_old 0 t) = tn_sessions t"
    using assms(5) by (simp add: drop_old_def list_eq_iff_nth_eq)
  moreover have "timer_decision (rd_elapsed rd) 0 (drop_old 0 t) \<notin> {Expire, Keepalive}"
    by (auto simp: timer_decision_def keepalive_due_def unacknowledged_def persistent_due_def from_secs_def split: option.splits)
  ultimately show ?thesis using update_timers_cases [OF assms(1,2), of pq c heap dst] assms(3,4)
    by (cases "timer_decision (rd_elapsed rd) 0 (drop_old 0 t)") (auto simp: Some_eq_map_option_iff dest: format_init_sessions)
qed

theorem old_sessions_dropped_witness:
  "\<exists>T t heap' t' r i s. tunn_reach True plain_crypto T t \<and>
     update_timers True plain_crypto (demo_rd 5 0) demo_heap t (replicate 1500 0) = Some (heap', t', r) \<and>
     i < 8 \<and> tn_sessions t' ! i = Some s \<and> (\<exists>s0. tn_sessions t ! i = Some s0 \<and> session_step s0 s)"
proof -
  have rd: "rd_env (demo_rd x s) = demo_env x" for x s by (simp add: demo_rd_def Let_def)
  have "PQ_HANDSHAKE_INIT_SZ \<le> length (replicate 1500 (0 :: byte))" by (simp add: size_consts)
  from handshake_establishes [OF plain_crypto_ok demo_pair(1) _ _ this, where ?r1.0 = "demo_rd 1 0" and ?r2.0 = "demo_rd 4 0"
      and pq = True, unfolded rd, OF demo_pair(2,3)] obtain m1 gb1 tb1 m2 i j k1 k2 where
    d: "decapsulate True plain_crypto (demo_rd 4 0) (demo_heap_for [3]) (demo_tunn [3] [2] 2) None m1 (replicate 1500 0) =
      Some (gb1, tb1, WriteToNetwork m2)"
    and s: "tn_sessions tb1 ! (unat j mod N_SESSIONS) = Some (session_new j i k1 k2)" by metis
  have T: "\<lparr> tv_sec = 0, tv_nsec = 0 \<rparr> = demo_instant" by (simp add: demo_instant_def)
  have clock: "clock_between demo_instant (demo_rd x 0) demo_instant" for x using demo_clock(2) [of 0 x] T by simp
  have step: "tunn_step True plain_crypto (demo_instant, demo_tunn [3] [2] 2) (demo_instant, tb1)" using tunn_step.receive [OF d clock] .
  then have reach: "tunn_reach True plain_crypto demo_instant tb1"
    using demo_reach [of True "[3]" "[2]" 2] unfolding tunn_reach_def by (meson rtranclp.rtrancl_into_rtrancl)
  have wf: "tunn_wf demo_instant tb1" using tunn_reach_wf [OF reach plain_crypto_ok] .
  have "start_inv (hs_stamper (demo_handshake [3] [2] 512)) demo_instant (demo_tunn [3] [2] 2)"
    by (simp add: start_inv_def demo_tunn_def)
  from tunn_step_start [OF step this] have f: "hs_stamper (tn_handshake tb1) = hs_stamper (demo_handshake [3] [2] 512)"
    "tm_time_started (tn_timers tb1) = demo_instant" by (simp_all add: start_inv_def)
  have st: "stamp (hs_stamper (tn_handshake tb1)) (env_stamp_now (rd_env (demo_rd 5 0))) \<noteq> None"
    by (simp add: f rd demo_handshake_facts)
  from update_timers_returns [OF plain_crypto_ok wf clock st, of "replicate 1500 0" True demo_heap] obtain heap' t' r where
    u: "update_timers True plain_crypto (demo_rd 5 0) demo_heap tb1 (replicate 1500 0) = Some (heap', t', r)"
    by (auto simp: size_consts)
  have "duration_since (rd_time (demo_rd 5 0)) (tm_time_started (tn_timers tb1)) = 0"
    by (simp add: f demo_rd_def Let_def demo_instant_def duration_since_def checked_duration_since_def duration_new_def)
  from update_timers_at_start [OF wf clock this u] wf have "tn_sessions t' = tn_sessions tb1"
    by (simp add: tunn_wf_def ring_inv_def)
  then have "tn_sessions t' ! (unat j mod 8) = Some (session_new j i k1 k2)" using s by (simp add: N_SESSIONS_def)
  with old_sessions_dropped [OF reach plain_crypto_ok clock u _ this] reach u show ?thesis
    by (intro exI [of _ demo_instant] exI [of _ tb1] exI [of _ heap'] exI [of _ t'] exI [of _ r] exI [of _ "unat j mod 8"]
        exI [of _ "session_new j i k1 k2"]) auto
qed

text \<open>C32: a connection that has had no new session for 540 seconds, or whose handshake attempts have
  failed for 90 seconds, is given up: the tick of the timers reports \<open>ConnectionExpired\<close>, drops every
  session and the queue and marks the handshake expired; and every later tick reports the same until
  something else starts a handshake.\<close>
theorem dead_connection_cleared:
  assumes "tunn_reach pq c T t" and "crypto_ok c" and "clock_between T rd T1" and "\<not> tunn_is_expired t"
    and "now = duration_since (rd_time rd) (tm_time_started (tn_timers t))"
    and "from_secs 540 \<le> now - timers_index (tn_timers t) TimeSessionEstablished \<or>
      handshake_timer (tn_handshake t) \<noteq> None \<and> from_secs 90 \<le> now - timers_index (tn_timers t) TimeLastHandshakeStarted"
  shows "\<exists>heap1 t1. update_timers pq c rd heap t dst = Some (heap1, t1, Err ConnectionExpired) \<and>
    tunn_is_expired t1 \<and> tn_sessions t1 = replicate 8 None \<and> tn_packet_queue t1 = [] \<and>
    (\<forall>rd' T2 heap' dst'. clock_between T1 rd' T2 \<longrightarrow>
      (\<exists>heap2 t2. update_timers pq c rd' heap' t1 dst' = Some (heap2, t2, Err ConnectionExpired) \<and> tunn_is_expired t2))"
proof -
  have wf: "tunn_wf T t" using tunn_reach_wf [OF assms(1,2)] .
  then have len: "length (tn_sessions t) = 8" "length (tm_session_timers (tn_timers t)) = 8" by (auto simp: tunn_wf_def ring_inv_def N_SESSIONS_def)
  have idx: "timers_index (tn_timers (drop_old now t)) n = timers_index (tn_timers t) n" if "n \<noteq> TimeCurrent" for n
    using that by (simp add: drop_old_def)
  have "timer_decision (rd_elapsed rd) now (drop_old now t) = Expire"
    using assms(4,6) by (auto simp: timer_decision_def tunn_is_expired_def idx)
  with update_timers_cases [OF wf assms(3), of pq c heap dst] obtain heap1 where
    u: "update_timers pq c rd heap t dst = Some (heap1, clear_all ((drop_cookie now (drop_old now t))\<lparr> tn_handshake :=
         set_expired (tn_handshake (drop_cookie now (drop_old now t))) \<rparr>) (rd_clear rd), Err ConnectionExpired)"
    unfolding assms(5) [symmetric] by auto
  let ?t1 = "clear_all ((drop_cookie now (drop_old now t))\<lparr> tn_handshake := set_expired (tn_handshake (drop_cookie now (drop_old now t))) \<rparr>) (rd_clear rd)"
  have wf1: "tunn_wf T1 ?t1" using tunn_step_wf [OF tunn_step.timers [OF u assms(3)] wf] .
  have t1: "tunn_is_expired ?t1" "tn_packet_queue ?t1 = []" "tn_sessions ?t1 = replicate 8 None"
    using len by (simp_all add: clear_all_def Let_def tunn_is_expired_def is_expired_def set_expired_def map_replicate_const drop_old_def)
  have "\<exists>heap2 t2. update_timers pq c rd' heap' ?t1 dst' = Some (heap2, t2, Err ConnectionExpired) \<and> tunn_is_expired t2"
    if "clock_between T1 rd' T2" for rd' T2 heap' dst'
    using update_timers_cases [OF wf1 that, of pq c heap' dst'] t1(1)
    by (auto simp: timer_decision_def tunn_is_expired_def)
  with u t1 show ?thesis by blast
qed

theorem dead_connection_cleared_witness:
  "\<exists>heap1 t1. update_timers False plain_crypto (demo_rd 1 600) demo_heap (demo_tunn [2] [3] 1) [] =
     Some (heap1, t1, Err ConnectionExpired) \<and> tn_packet_queue t1 = []"
proof -
  define now where "now = duration_since (rd_time (demo_rd 1 600)) (tm_time_started (tn_timers (demo_tunn [2] [3] 1)))"
  have n: "now = from_secs 600"
    by (simp add: now_def demo_rd_def demo_tunn_def Let_def timers_new_def duration_since_def checked_duration_since_def
        demo_instant_def duration_new_def from_secs_def)
  have "\<not> tunn_is_expired (demo_tunn [2] [3] 1)"
    by (simp add: tunn_is_expired_def is_expired_def demo_tunn_def demo_handshake_facts)
  from dead_connection_cleared [OF demo_reach plain_crypto_ok demo_clock(2) this now_def, where heap = demo_heap and dst = "[]" and pq = False] n show ?thesis
    by (simp add: demo_tunn_def) (auto simp: from_secs_def)
qed

text \<open>What a datagram makes the tunnel hand to the interface is a prefix of the decrypted payload, of
  exactly the length its IP header announces, and the address is the header's source address.\<close>
lemma delivered_packet_is_ip:
  assumes "validate_decapsulated_packet t packet = (t', WriteToTunnelV4 p a) \<or>
    validate_decapsulated_packet t packet = (t', WriteToTunnelV6 p a)"
  shows "p = take (length p) packet \<and>
    (drop_bit 4 (hd packet) = 4 \<and> 20 \<le> length packet \<and> length p = unat (of_be_bytes (slice_of 2 4 packet) :: u16) \<and>
       a = slice_of 12 16 packet \<or>
     drop_bit 4 (hd packet) = 6 \<and> 40 \<le> length packet \<and> length p = unat (of_be_bytes (slice_of 4 6 packet) :: u16) + 40 \<and>
       a = slice_of 8 24 packet)"
  using assms
  by (auto simp: validate_decapsulated_packet_def ip_consts Let_def split: list.splits if_splits ip_addr.splits)

end
