(* ===== verification/Allowed_Ips.thy ===== *)
theory Allowed_Ips
  imports Wire "HOL-Library.Sublist"
begin

text \<open>
  \<^verbatim>\<open>device/allowed_ips.rs\<close>: the table from IP networks to data. The table itself is the crate
  \<^verbatim>\<open>ip_network_table\<close> and its keys are the networks of the crate \<^verbatim>\<open>ip_network\<close>; the record
  \<open>ip_crate\<close> holds the operations the code uses and every definition takes it as an argument.
  \<open>ip_crate_ok\<close> states their documented behaviour: a table is a finite map from networks, and
  \<open>longest_match\<close> finds the most specific network that contains an address.

  A network is identified by its family and the bits of its prefix.
\<close>

record ('n, 't, 'd) ip_crate =
  net_new_truncate :: "ip_addr \<Rightarrow> byte \<Rightarrow> 'n option"
  net_address :: "'n \<Rightarrow> ip_addr"
  net_mask :: "'n \<Rightarrow> byte"
  tbl_new :: 't
  tbl_insert :: "'t \<Rightarrow> 'n \<Rightarrow> 'd \<Rightarrow> 't \<times> 'd option"
  tbl_longest_match :: "'t \<Rightarrow> ip_addr \<Rightarrow> ('n \<times> 'd) option"
  tbl_retain :: "('n \<Rightarrow> 'd \<Rightarrow> bool) \<Rightarrow> 't \<Rightarrow> 't"
  tbl_iter :: "'t \<Rightarrow> ('n \<times> 'd) list"

record allowed_ip =
  aip_addr :: ip_addr
  aip_cidr :: byte

definition allowed_ips_new :: "('n, 't, 'd) ip_crate \<Rightarrow> 't" where
  "allowed_ips_new cr = tbl_new cr"

definition allowed_ips_clear :: "('n, 't, 'd) ip_crate \<Rightarrow> 't \<Rightarrow> 't" where
  "allowed_ips_clear cr self = tbl_new cr"

text \<open>\<open>insert\<close> panics (\<open>None\<close>) when the prefix is too long for the address.\<close>

definition allowed_ips_insert ::
  "('n, 't, 'd) ip_crate \<Rightarrow> 't \<Rightarrow> ip_addr \<Rightarrow> u32 \<Rightarrow> 'd \<Rightarrow> ('t \<times> 'd option) option" where
  "allowed_ips_insert cr self key cidr data = do {
     net \<leftarrow> net_new_truncate cr key (ucast cidr);
     Some (tbl_insert cr self net data)
   }"

definition allowed_ips_find :: "('n, 't, 'd) ip_crate \<Rightarrow> 't \<Rightarrow> ip_addr \<Rightarrow> 'd option" where
  "allowed_ips_find cr self key = map_option (\<lambda>(net, data). data) (tbl_longest_match cr self key)"

definition allowed_ips_remove :: "('n, 't, 'd) ip_crate \<Rightarrow> 't \<Rightarrow> ('d \<Rightarrow> bool) \<Rightarrow> 't" where
  "allowed_ips_remove cr self predicate = tbl_retain cr (\<lambda>_ v. \<not> predicate v) self"

definition allowed_ips_iter :: "('n, 't, 'd) ip_crate \<Rightarrow> 't \<Rightarrow> ('d \<times> ip_addr \<times> byte) list" where
  "allowed_ips_iter cr self = map (\<lambda>(ipa, d). (d, net_address cr ipa, net_mask cr ipa)) (tbl_iter cr self)"

fun insert_all :: "('n, 't, 'd) ip_crate \<Rightarrow> 't \<Rightarrow> (allowed_ip \<times> 'd) list \<Rightarrow> 't option" where
  "insert_all cr allowed_ips [] = Some allowed_ips"
| "insert_all cr allowed_ips ((ip, data) # rest) = do {
     (allowed_ips, _) \<leftarrow> allowed_ips_insert cr allowed_ips (aip_addr ip) (ucast (aip_cidr ip)) data;
     insert_all cr allowed_ips rest
   }"

definition allowed_ips_from_iter :: "('n, 't, 'd) ip_crate \<Rightarrow> (allowed_ip \<times> 'd) list \<Rightarrow> 't option" where
  "allowed_ips_from_iter cr iter = insert_all cr (allowed_ips_new cr) iter"

section \<open>Networks as prefixes\<close>

definition byte_bits :: "byte \<Rightarrow> bool list" where
  "byte_bits b = map (bit b) [7, 6, 5, 4, 3, 2, 1, 0]"

fun ip_bits :: "ip_addr \<Rightarrow> bool list" where
  "ip_bits (IpV4 a) = concat (map byte_bits a)"
| "ip_bits (IpV6 a) = concat (map byte_bits a)"

fun is_v4 :: "ip_addr \<Rightarrow> bool" where
  "is_v4 (IpV4 _) = True"
| "is_v4 (IpV6 _) = False"

definition max_cidr :: "ip_addr \<Rightarrow> nat" where
  "max_cidr a = (if is_v4 a then 32 else 128)"

type_synonym net_prefix = "bool \<times> bool list"

definition prefix_of :: "ip_addr \<Rightarrow> byte \<Rightarrow> net_prefix" where
  "prefix_of a m = (is_v4 a, take (unat m) (ip_bits a))"

definition in_net :: "ip_addr \<Rightarrow> net_prefix \<Rightarrow> bool" where
  "in_net x p \<longleftrightarrow> is_v4 x = fst p \<and> prefix (snd p) (ip_bits x)"

definition net_prefix :: "('n, 't, 'd) ip_crate \<Rightarrow> 'n \<Rightarrow> net_prefix" where
  "net_prefix cr n = prefix_of (net_address cr n) (net_mask cr n)"

text \<open>The documented behaviour of the crates; \<open>routes t\<close> is the map a table holds.\<close>

definition ip_crate_ok :: "('n, 't, 'd) ip_crate \<Rightarrow> ('t \<Rightarrow> net_prefix \<rightharpoonup> 'd) \<Rightarrow> bool" where
  "ip_crate_ok cr routes \<longleftrightarrow>
     (\<forall>a m. unat m \<le> max_cidr a \<longrightarrow> (\<exists>n. net_new_truncate cr a m = Some n \<and> net_prefix cr n = prefix_of a m \<and> net_mask cr n = m)) \<and>
     (\<forall>a m. max_cidr a < unat m \<longrightarrow> net_new_truncate cr a m = None) \<and>
     routes (tbl_new cr) = Map.empty \<and>
     (\<forall>t n d. tbl_insert cr t n d = (fst (tbl_insert cr t n d), routes t (net_prefix cr n)) \<and>
        routes (fst (tbl_insert cr t n d)) = (routes t)(net_prefix cr n \<mapsto> d)) \<and>
     (\<forall>t x. case tbl_longest_match cr t x of
        None \<Rightarrow> \<forall>p\<in>dom (routes t). \<not> in_net x p
      | Some (n, d) \<Rightarrow> routes t (net_prefix cr n) = Some d \<and> in_net x (net_prefix cr n) \<and>
          (\<forall>p\<in>dom (routes t). in_net x p \<longrightarrow> length (snd p) \<le> length (snd (net_prefix cr n)))) \<and>
     (\<forall>t f. routes (tbl_retain cr (\<lambda>_. f) t) = (\<lambda>p. case routes t p of Some d \<Rightarrow> if f d then Some d else None | None \<Rightarrow> None)) \<and>
     (\<forall>t. set (map (\<lambda>(n, d). (net_prefix cr n, d)) (tbl_iter cr t)) = Map.graph (routes t))"

text \<open>The most specific entry of a map of networks for an address.\<close>

definition best_route :: "(net_prefix \<rightharpoonup> 'd) \<Rightarrow> ip_addr \<Rightarrow> net_prefix \<Rightarrow> bool" where
  "best_route R x p \<longleftrightarrow> p \<in> dom R \<and> in_net x p \<and> (\<forall>q\<in>dom R. in_net x q \<longrightarrow> length (snd q) \<le> length (snd p))"

lemma best_route_unique:
  assumes "best_route R x p" and "best_route R x q"
  shows "p = q"
proof -
  have "length (snd p) = length (snd q)" using assms unfolding best_route_def by (meson le_antisym)
  moreover have "prefix (snd p) (ip_bits x)" "prefix (snd q) (ip_bits x)" "fst p = fst q"
    using assms by (auto simp: best_route_def in_net_def)
  ultimately have "snd p = snd q" by (metis append_eq_append_conv prefixE)
  with \<open>fst p = fst q\<close> show ?thesis by (simp add: prod_eq_iff)
qed

lemma find_best_route:
  assumes "ip_crate_ok cr routes"
  shows "allowed_ips_find cr t x = Some d \<longleftrightarrow> (\<exists>p. best_route (routes t) x p \<and> routes t p = Some d)"
proof -
  have m: "case tbl_longest_match cr t x of
        None \<Rightarrow> \<forall>p\<in>dom (routes t). \<not> in_net x p
      | Some (n, d) \<Rightarrow> routes t (net_prefix cr n) = Some d \<and> in_net x (net_prefix cr n) \<and>
          (\<forall>p\<in>dom (routes t). in_net x p \<longrightarrow> length (snd p) \<le> length (snd (net_prefix cr n)))"
    using assms by (simp add: ip_crate_ok_def)
  show ?thesis
  proof (cases "tbl_longest_match cr t x")
    case None
    with m show ?thesis by (auto simp: allowed_ips_find_def best_route_def)
  next
    case (Some nd)
    then obtain n d' where nd: "tbl_longest_match cr t x = Some (n, d')" by (cases nd) auto
    with m have "best_route (routes t) x (net_prefix cr n)" "routes t (net_prefix cr n) = Some d'" by (auto simp: best_route_def)
    with nd show ?thesis by (fastforce simp: allowed_ips_find_def dest: best_route_unique)
  qed
qed

lemma find_None:
  assumes "ip_crate_ok cr routes"
  shows "allowed_ips_find cr t x = None \<longleftrightarrow> (\<forall>p\<in>dom (routes t). \<not> in_net x p)"
proof -
  have "case tbl_longest_match cr t x of
        None \<Rightarrow> \<forall>p\<in>dom (routes t). \<not> in_net x p
      | Some (n, d) \<Rightarrow> routes t (net_prefix cr n) = Some d \<and> in_net x (net_prefix cr n) \<and>
          (\<forall>p\<in>dom (routes t). in_net x p \<longrightarrow> length (snd p) \<le> length (snd (net_prefix cr n)))"
    using assms by (simp add: ip_crate_ok_def)
  then show ?thesis by (auto simp: allowed_ips_find_def split: option.splits)
qed

lemma insert_abs:
  assumes "ip_crate_ok cr routes"
  shows "allowed_ips_insert cr t a cidr d = (if unat (ucast cidr :: byte) \<le> max_cidr a
    then Some (fst (the (allowed_ips_insert cr t a cidr d)), routes t (prefix_of a (ucast cidr))) else None)"
    and "unat (ucast cidr :: byte) \<le> max_cidr a \<Longrightarrow>
      routes (fst (the (allowed_ips_insert cr t a cidr d))) = (routes t)(prefix_of a (ucast cidr) \<mapsto> d)"
proof -
  have n: "unat (ucast cidr :: byte) \<le> max_cidr a \<Longrightarrow>
      \<exists>n. net_new_truncate cr a (ucast cidr) = Some n \<and> net_prefix cr n = prefix_of a (ucast cidr)"
    "max_cidr a < unat (ucast cidr :: byte) \<Longrightarrow> net_new_truncate cr a (ucast cidr) = None"
    using assms unfolding ip_crate_ok_def by blast+
  have i: "tbl_insert cr t n d = (fst (tbl_insert cr t n d), routes t (net_prefix cr n))"
    "routes (fst (tbl_insert cr t n d)) = (routes t)(net_prefix cr n \<mapsto> d)" for n
    using assms unfolding ip_crate_ok_def by blast+
  show "allowed_ips_insert cr t a cidr d = (if unat (ucast cidr :: byte) \<le> max_cidr a
    then Some (fst (the (allowed_ips_insert cr t a cidr d)), routes t (prefix_of a (ucast cidr))) else None)"
    using n i(1) by (auto simp: allowed_ips_insert_def not_le split: option.splits) (metis prod.collapse snd_conv)+
  show "unat (ucast cidr :: byte) \<le> max_cidr a \<Longrightarrow>
      routes (fst (the (allowed_ips_insert cr t a cidr d))) = (routes t)(prefix_of a (ucast cidr) \<mapsto> d)"
    using n(1) i(2) by (auto simp: allowed_ips_insert_def)
qed

text \<open>Inserting a list of networks.\<close>

definition cidr_ok :: "allowed_ip \<Rightarrow> bool" where
  "cidr_ok ip \<longleftrightarrow> unat (aip_cidr ip) \<le> max_cidr (aip_addr ip)"

definition ip_prefix :: "allowed_ip \<Rightarrow> net_prefix" where
  "ip_prefix ip = prefix_of (aip_addr ip) (aip_cidr ip)"

lemma ucast_byte_u32 [simp]: "ucast (ucast (b :: byte) :: u32) = b"
  by (rule bit_word_eqI) (auto simp: bit_simps)

lemma insert_all_abs:
  assumes "ip_crate_ok cr routes" and "\<forall>(ip, d)\<in>set xs. cidr_ok ip"
  shows "\<exists>t'. insert_all cr t xs = Some t' \<and> routes t' = routes t ++ map_of (rev (map (\<lambda>(ip, d). (ip_prefix ip, d)) xs))"
  using assms(2)
proof (induction xs arbitrary: t)
  case Nil
  then show ?case by simp
next
  case (Cons x xs)
  obtain ip d where x: "x = (ip, d)" by (cases x)
  with Cons.prems have ok: "unat (ucast (ucast (aip_cidr ip) :: u32) :: byte) \<le> max_cidr (aip_addr ip)" by (simp add: cidr_ok_def)
  let ?r = "allowed_ips_insert cr t (aip_addr ip) (ucast (aip_cidr ip)) d"
  from insert_abs(1) [OF assms(1), of t "aip_addr ip" "ucast (aip_cidr ip)" d] ok have r: "?r = Some (fst (the ?r), routes t (ip_prefix ip))"
    by (simp add: ip_prefix_def)
  have a: "routes (fst (the ?r)) = (routes t)(ip_prefix ip \<mapsto> d)"
    using insert_abs(2) [OF assms(1) ok] by (simp add: ip_prefix_def)
  from Cons.IH [of "fst (the ?r)"] Cons.prems obtain t' where t': "insert_all cr (fst (the ?r)) xs = Some t'"
    "routes t' = routes (fst (the ?r)) ++ map_of (rev (map (\<lambda>(ip, d). (ip_prefix ip, d)) xs))" by auto
  have "insert_all cr t (x # xs) = Some t'" using t'(1) by (simp add: x) (subst r, simp)
  with t'(2) a x show ?case by (simp add: map_add_upd_left)
qed

section \<open>A concrete table\<close>

text \<open>A list of networks with different prefixes, for the witnesses.\<close>

definition entry_prefix :: "(ip_addr \<times> byte) \<times> 'd \<Rightarrow> net_prefix" where
  "entry_prefix e = prefix_of (fst (fst e)) (snd (fst e))"

typedef 'd net_list = "{t :: ((ip_addr \<times> byte) \<times> 'd) list. distinct (map entry_prefix t)}"
  by (rule exI [of _ "[]"]) simp

definition nl_routes :: "'d net_list \<Rightarrow> net_prefix \<rightharpoonup> 'd" where
  "nl_routes t = map_of (map (\<lambda>e. (entry_prefix e, snd e)) (Rep_net_list t))"

definition nl_insert :: "'d net_list \<Rightarrow> ip_addr \<times> byte \<Rightarrow> 'd \<Rightarrow> 'd net_list" where
  "nl_insert t n d = Abs_net_list ((n, d) # filter (\<lambda>e. entry_prefix e \<noteq> prefix_of (fst n) (snd n)) (Rep_net_list t))"

definition nl_match :: "'d net_list \<Rightarrow> ip_addr \<Rightarrow> ((ip_addr \<times> byte) \<times> 'd) option" where
  "nl_match t x = (case filter (\<lambda>e. in_net x (entry_prefix e)) (Rep_net_list t) of
     [] \<Rightarrow> None
   | es \<Rightarrow> find (\<lambda>e. length (snd (entry_prefix e)) = Max (set (map (\<lambda>e. length (snd (entry_prefix e))) es))) es)"

definition nl_retain :: "(ip_addr \<times> byte \<Rightarrow> 'd \<Rightarrow> bool) \<Rightarrow> 'd net_list \<Rightarrow> 'd net_list" where
  "nl_retain f t = Abs_net_list (filter (\<lambda>e. f (fst e) (snd e)) (Rep_net_list t))"

lemma Rep_net_list_distinct: "distinct (map entry_prefix (Rep_net_list t))"
  using Rep_net_list by blast

lemma Rep_nl_insert:
  "Rep_net_list (nl_insert t n d) = (n, d) # filter (\<lambda>e. entry_prefix e \<noteq> prefix_of (fst n) (snd n)) (Rep_net_list t)"
  unfolding nl_insert_def
  by (rule Abs_net_list_inverse) (use Rep_net_list_distinct [of t] in \<open>auto simp: entry_prefix_def distinct_map_filter\<close>)

lemma Rep_nl_retain: "Rep_net_list (nl_retain f t) = filter (\<lambda>e. f (fst e) (snd e)) (Rep_net_list t)"
  unfolding nl_retain_def
  by (rule Abs_net_list_inverse) (use Rep_net_list_distinct [of t] in \<open>simp add: distinct_map_filter\<close>)

definition list_crate :: "(ip_addr \<times> byte, 'd net_list, 'd) ip_crate" where
  "list_crate = \<lparr>
     net_new_truncate = (\<lambda>a m. if unat m \<le> max_cidr a then Some (a, m) else None),
     net_address = fst, net_mask = snd, tbl_new = Abs_net_list [],
     tbl_insert = (\<lambda>t n d. (nl_insert t n d, nl_routes t (prefix_of (fst n) (snd n)))),
     tbl_longest_match = nl_match, tbl_retain = nl_retain, tbl_iter = Rep_net_list \<rparr>"

lemma list_crate_sel [simp]:
  "net_new_truncate list_crate = (\<lambda>a m. if unat m \<le> max_cidr a then Some (a, m) else None)"
  "net_address list_crate = fst" "net_mask list_crate = snd" "tbl_new list_crate = Abs_net_list []"
  "tbl_insert list_crate = (\<lambda>t n d. (nl_insert t n d, nl_routes t (prefix_of (fst n) (snd n))))"
  "tbl_longest_match list_crate = nl_match" "tbl_retain list_crate = nl_retain" "tbl_iter list_crate = Rep_net_list"
  by (simp_all add: list_crate_def)

lemma nl_insert_routes: "nl_routes (nl_insert t n d) = (nl_routes t)(prefix_of (fst n) (snd n) \<mapsto> d)"
proof -
  have "map_of (map (\<lambda>e. (entry_prefix e, snd e)) ((n, d) # filter (\<lambda>e. entry_prefix e \<noteq> prefix_of (fst n) (snd n)) xs)) p =
      ((map_of (map (\<lambda>e. (entry_prefix e, snd e)) xs))(prefix_of (fst n) (snd n) \<mapsto> d)) p" for xs p
    by (induction xs) (auto simp: entry_prefix_def)
  then show ?thesis unfolding nl_routes_def Rep_nl_insert by blast
qed

lemma nl_retain_routes:
  "nl_routes (nl_retain (\<lambda>_. f) t) = (\<lambda>p. case nl_routes t p of Some d \<Rightarrow> if f d then Some d else None | None \<Rightarrow> None)"
proof -
  have "map_of (map (\<lambda>e. (entry_prefix e, snd e)) (filter (\<lambda>e. f (snd e)) xs)) p =
      (case map_of (map (\<lambda>e. (entry_prefix e, snd e)) xs) p of Some d \<Rightarrow> if f d then Some d else None | None \<Rightarrow> None)"
    if "distinct (map entry_prefix xs)" for xs p
    using that by (induction xs) (auto split: option.splits simp: map_of_eq_None_iff image_iff)
  then show ?thesis unfolding nl_routes_def Rep_nl_retain using Rep_net_list_distinct by blast
qed

lemma nl_iter_routes: "set (map (\<lambda>(n, d). (prefix_of (fst n) (snd n), d)) (Rep_net_list t)) = Map.graph (nl_routes t)"
proof -
  have "distinct (map fst (map (\<lambda>e. (entry_prefix e, snd e)) (Rep_net_list t)))"
    using Rep_net_list_distinct [of t] by (simp add: comp_def)
  from graph_map_of_if_distinct_dom [OF this] show ?thesis
    by (auto simp: nl_routes_def entry_prefix_def case_prod_beta)
qed

lemma find_exists: "\<exists>e\<in>set xs. P e \<Longrightarrow> \<exists>e. find P xs = Some e \<and> e \<in> set xs \<and> P e"
  by (induction xs) auto

lemma nl_match_routes:
  "case nl_match t x of
     None \<Rightarrow> \<forall>p\<in>dom (nl_routes t). \<not> in_net x p
   | Some (n, d) \<Rightarrow> nl_routes t (prefix_of (fst n) (snd n)) = Some d \<and> in_net x (prefix_of (fst n) (snd n)) \<and>
       (\<forall>p\<in>dom (nl_routes t). in_net x p \<longrightarrow> length (snd p) \<le> length (snd (prefix_of (fst n) (snd n))))"
proof -
  let ?es = "filter (\<lambda>e. in_net x (entry_prefix e)) (Rep_net_list t)"
  let ?ls = "set (map (\<lambda>e. length (snd (entry_prefix e))) ?es)"
  have dom: "dom (nl_routes t) = entry_prefix ` set (Rep_net_list t)"
    by (simp add: nl_routes_def dom_map_of_conv_image_fst image_image)
  show ?thesis
  proof (cases "?es = []")
    case True
    then show ?thesis by (auto simp: nl_match_def dom filter_empty_conv)
  next
    case False
    then have m: "nl_match t x = find (\<lambda>e. length (snd (entry_prefix e)) = Max ?ls) ?es"
      unfolding nl_match_def by (cases ?es) simp_all
    have "?ls \<noteq> {}" using False unfolding set_empty map_is_Nil_conv .
    then have "Max ?ls \<in> ?ls" by (intro Max_in) simp_all
    then have "\<exists>e\<in>set ?es. length (snd (entry_prefix e)) = Max ?ls" unfolding set_map by (elim imageE) metis
    from find_exists [OF this] obtain e where e: "nl_match t x = Some e" "e \<in> set ?es" "length (snd (entry_prefix e)) = Max ?ls"
      unfolding m by blast
    have "nl_routes t (entry_prefix e) = Some (snd e)"
      unfolding nl_routes_def using Rep_net_list_distinct [of t] e(2) by (intro map_of_is_SomeI) (auto simp: comp_def)
    moreover have "length (snd p) \<le> Max ?ls" if "p \<in> dom (nl_routes t)" "in_net x p" for p
      using that by (intro Max_ge) (auto simp: dom)
    ultimately show ?thesis using e(1,2,3) by (cases e) (auto simp: entry_prefix_def)
  qed
qed

lemma list_crate_ok: "ip_crate_ok list_crate nl_routes"
proof -
  have new: "nl_routes (Abs_net_list []) = Map.empty" by (simp add: nl_routes_def Abs_net_list_inverse)
  have np: "net_prefix list_crate n = prefix_of (fst n) (snd n)" for n :: "ip_addr \<times> byte"
    by (simp add: net_prefix_def)
  have m: "\<forall>t x. case tbl_longest_match list_crate t x of
        None \<Rightarrow> \<forall>p\<in>dom (nl_routes t). \<not> in_net x p
      | Some (n, d) \<Rightarrow> nl_routes t (net_prefix list_crate n) = Some d \<and> in_net x (net_prefix list_crate n) \<and>
          (\<forall>p\<in>dom (nl_routes t). in_net x p \<longrightarrow> length (snd p) \<le> length (snd (net_prefix list_crate n)))"
    unfolding np by (intro allI) (use nl_match_routes in simp)
  have i: "\<forall>t. set (map (\<lambda>(n, d). (net_prefix list_crate n, d)) (tbl_iter list_crate t)) = Map.graph (nl_routes t)"
    unfolding np by (intro allI) (use nl_iter_routes in simp)
  show ?thesis
    unfolding ip_crate_ok_def
    by (intro conjI m i)
      (use new nl_insert_routes nl_retain_routes in \<open>auto simp: np\<close>)
qed

end
