(* ===== verification/Peer.thy ===== *)
theory Peer
  imports Tunnel_Flow Allowed_Ips
begin

text \<open>
  \<^verbatim>\<open>device/peer.rs\<close>: a peer of the device, its tunnel, its endpoint and the networks it may use.
  A connected socket is a number; what the operating system answers is an argument (the record
  \<open>os\<close>), so that the theorems hold for all of its answers. A result \<open>None\<close> is a panic.
\<close>

record socket_addr =
  sa_ip :: ip_addr
  sa_port :: u16
  sa_flowinfo :: u32
  sa_scope_id :: u32

text \<open>The answers of the operating system: a function that can fail only is \<open>True\<close> when it succeeds.
  \<open>os_register\<close> adds a handler for a socket to the event queue.\<close>

record os =
  os_socket :: "bool \<Rightarrow> nat option"
  os_set_reuse_address :: "nat \<Rightarrow> bool"
  os_bind :: "nat \<Rightarrow> ip_addr \<Rightarrow> u16 \<Rightarrow> bool"
  os_connect :: "nat \<Rightarrow> socket_addr \<Rightarrow> bool"
  os_set_nonblocking :: "nat \<Rightarrow> bool"
  os_set_mark :: "nat \<Rightarrow> u32 \<Rightarrow> bool"
  os_local_port :: "nat \<Rightarrow> u16 option"
  os_try_clone :: "nat \<Rightarrow> nat option"
  os_shutdown :: "nat \<Rightarrow> bool"
  os_register :: "nat \<Rightarrow> bool"

text \<open>\<open>f(...)?\<close> for a call without a result.\<close>

definition check :: "bool \<Rightarrow> unit option" where
  "check ok = (if ok then Some () else None)"

definition unspecified :: "bool \<Rightarrow> ip_addr" where
  "unspecified v4 = (if v4 then IpV4 (replicate 4 0) else IpV6 (replicate 16 0))"

record endpoint =
  ep_addr :: "socket_addr option"
  ep_conn :: "nat option"

record 't peer =
  pr_tunnel :: tunn
  pr_index :: u32
  pr_endpoint :: endpoint
  pr_allowed_ips :: 't
  pr_preshared_key :: "bytes option"

definition peer_new ::
  "('n, 't, unit) ip_crate \<Rightarrow> tunn \<Rightarrow> u32 \<Rightarrow> socket_addr option \<Rightarrow> allowed_ip list \<Rightarrow> bytes option \<Rightarrow> 't peer option" where
  "peer_new cr tunnel index endpoint allowed_ips preshared_key = do {
     ips \<leftarrow> allowed_ips_from_iter cr (map (\<lambda>ip. (ip, ())) allowed_ips);
     Some \<lparr> pr_tunnel = tunnel, pr_index = index, pr_endpoint = \<lparr> ep_addr = endpoint, ep_conn = None \<rparr>,
       pr_allowed_ips = ips, pr_preshared_key = preshared_key \<rparr>
   }"

definition peer_update_timers ::
  "bool \<Rightarrow> crypto \<Rightarrow> readings \<Rightarrow> rl_heap \<Rightarrow> 't peer \<Rightarrow> bytes \<Rightarrow> (rl_heap \<times> 't peer \<times> tunn_result) option" where
  "peer_update_timers pq c rd heap self dst = do {
     (heap, tunnel, r) \<leftarrow> update_timers pq c rd heap (pr_tunnel self) dst;
     Some (heap, self\<lparr> pr_tunnel := tunnel \<rparr>, r)
   }"

definition shutdown_endpoint :: "os \<Rightarrow> 't peer \<Rightarrow> 't peer option" where
  "shutdown_endpoint os self = (case ep_conn (pr_endpoint self) of
     Some conn \<Rightarrow>
       (if os_shutdown os conn then Some (self\<lparr> pr_endpoint := (pr_endpoint self)\<lparr> ep_conn := None \<rparr> \<rparr>) else None)
   | None \<Rightarrow> Some self)"

definition set_endpoint :: "os \<Rightarrow> 't peer \<Rightarrow> socket_addr \<Rightarrow> 't peer option" where
  "set_endpoint os self addr =
    (let endpoint = pr_endpoint self in
     if ep_addr endpoint \<noteq> Some addr then do {
       endpoint \<leftarrow> (case ep_conn endpoint of
           Some conn \<Rightarrow> (if os_shutdown os conn then Some (endpoint\<lparr> ep_conn := None \<rparr>) else None)
         | None \<Rightarrow> Some endpoint);
       Some (self\<lparr> pr_endpoint := endpoint\<lparr> ep_addr := Some addr \<rparr> \<rparr>)
     } else Some self)"

text \<open>The calls of \<open>connect_endpoint\<close> on the new socket, \<open>None\<close> when one of them fails.\<close>

definition connect_socket :: "os \<Rightarrow> socket_addr \<Rightarrow> u16 \<Rightarrow> u32 option \<Rightarrow> nat option" where
  "connect_socket os addr port fwmark = do {
     udp_conn \<leftarrow> os_socket os (is_v4 (sa_ip addr));
     _ \<leftarrow> check (os_set_reuse_address os udp_conn);
     _ \<leftarrow> check (os_bind os udp_conn (unspecified (is_v4 (sa_ip addr))) port);
     _ \<leftarrow> check (os_connect os udp_conn addr);
     _ \<leftarrow> check (os_set_nonblocking os udp_conn);
     _ \<leftarrow> (case fwmark of Some fwmark \<Rightarrow> check (os_set_mark os udp_conn fwmark) | None \<Rightarrow> Some ());
     Some udp_conn
   }"

text \<open>\<open>connect_endpoint\<close>: the second component is the socket, or \<open>None\<close> for an error.\<close>

definition connect_endpoint :: "os \<Rightarrow> 't peer \<Rightarrow> u16 \<Rightarrow> u32 option \<Rightarrow> ('t peer \<times> nat option) option" where
  "connect_endpoint os self port fwmark =
    (let endpoint = pr_endpoint self in
     if ep_conn endpoint \<noteq> None then Some (self, None)
     else do {
       addr \<leftarrow> ep_addr endpoint;
       (case connect_socket os addr port fwmark of
          None \<Rightarrow> Some (self, None)
        | Some udp_conn \<Rightarrow> do {
            conn \<leftarrow> os_try_clone os udp_conn;
            Some (self\<lparr> pr_endpoint := endpoint\<lparr> ep_conn := Some conn \<rparr> \<rparr>, Some udp_conn)
          })
     })"

definition is_allowed_ip :: "('n, 't, unit) ip_crate \<Rightarrow> 't peer \<Rightarrow> ip_addr \<Rightarrow> bool" where
  "is_allowed_ip cr self addr \<longleftrightarrow> allowed_ips_find cr (pr_allowed_ips self) addr \<noteq> None"

definition peer_allowed_ips :: "('n, 't, unit) ip_crate \<Rightarrow> 't peer \<Rightarrow> (ip_addr \<times> byte) list" where
  "peer_allowed_ips cr self = map (\<lambda>(u, ip, cidr). (ip, cidr)) (allowed_ips_iter cr (pr_allowed_ips self))"

definition peer_time_since_last_handshake :: "'t peer \<Rightarrow> instant \<Rightarrow> (duration option) option" where
  "peer_time_since_last_handshake self now = time_since_last_handshake (pr_tunnel self) now"

definition peer_persistent_keepalive :: "'t peer \<Rightarrow> u16 option" where
  "peer_persistent_keepalive self = persistent_keepalive (pr_tunnel self)"

section \<open>The networks of a peer\<close>

lemma peer_new_returns:
  assumes "ip_crate_ok cr routes" and "\<forall>ip\<in>set ips. cidr_ok ip"
  shows "\<exists>p. peer_new cr tunnel index endpoint ips psk = Some p \<and> pr_tunnel p = tunnel \<and> pr_index p = index \<and>
    ep_addr (pr_endpoint p) = endpoint \<and> ep_conn (pr_endpoint p) = None \<and>
    routes (pr_allowed_ips p) = map_of (rev (map (\<lambda>ip. (ip_prefix ip, ())) ips))"
proof -
  have "\<forall>(ip, d)\<in>set (map (\<lambda>ip. (ip, ())) ips). cidr_ok ip" using assms(2) by auto
  from insert_all_abs [OF assms(1) this, of "tbl_new cr"] obtain t where
    "insert_all cr (tbl_new cr) (map (\<lambda>ip. (ip, ())) ips) = Some t"
    "routes t = routes (tbl_new cr) ++ map_of (rev (map (\<lambda>(ip, d). (ip_prefix ip, d)) (map (\<lambda>ip. (ip, ())) ips)))" by blast
  moreover have "routes (tbl_new cr) = Map.empty" using assms(1) by (simp add: ip_crate_ok_def)
  ultimately show ?thesis by (simp add: peer_new_def allowed_ips_from_iter_def allowed_ips_new_def comp_def)
qed

text \<open>C39: the source check of a peer is exact: a peer created with a list of networks may send from an
  address if and only if the address is in one of them, that is, of the same family and equal in the
  bits of the prefix.\<close>
theorem is_allowed_ip_exact:
  assumes "ip_crate_ok cr routes" and "\<forall>ip\<in>set ips. cidr_ok ip"
  shows "\<exists>p. peer_new cr tunnel index endpoint ips psk = Some p \<and>
    (\<forall>x. is_allowed_ip cr p x \<longleftrightarrow> (\<exists>ip\<in>set ips. is_v4 x = is_v4 (aip_addr ip) \<and>
       prefix (take (unat (aip_cidr ip)) (ip_bits (aip_addr ip))) (ip_bits x)))"
proof -
  from peer_new_returns [OF assms] obtain p where p: "peer_new cr tunnel index endpoint ips psk = Some p"
    "routes (pr_allowed_ips p) = map_of (rev (map (\<lambda>ip. (ip_prefix ip, ())) ips))" by blast
  have "dom (routes (pr_allowed_ips p)) = ip_prefix ` set ips"
    by (simp add: p(2) dom_map_of_conv_image_fst image_image)
  then have "is_allowed_ip cr p x \<longleftrightarrow> (\<exists>ip\<in>set ips. in_net x (ip_prefix ip))" for x
    using find_None [OF assms(1), of "pr_allowed_ips p" x] by (auto simp: is_allowed_ip_def)
  with p(1) show ?thesis by (auto simp: in_net_def ip_prefix_def prefix_of_def)
qed

theorem is_allowed_ip_exact_witness:
  "\<exists>p. peer_new list_crate (demo_tunn [2] [3] 1) 1 None [\<lparr> aip_addr = IpV4 [10, 0, 0, 0], aip_cidr = 8 \<rparr>] None = Some p \<and>
     is_allowed_ip list_crate p (IpV4 [10, 1, 2, 3]) \<and> \<not> is_allowed_ip list_crate p (IpV4 [11, 1, 2, 3])"
proof -
  let ?ips = "[\<lparr> aip_addr = IpV4 [10, 0, 0, 0], aip_cidr = 8 \<rparr>]"
  have "\<forall>ip\<in>set ?ips. cidr_ok ip" by (simp add: cidr_ok_def max_cidr_def)
  from is_allowed_ip_exact [OF list_crate_ok this, of "demo_tunn [2] [3] 1" 1 None None] obtain p where
    p: "peer_new list_crate (demo_tunn [2] [3] 1) 1 None ?ips None = Some p"
    "\<And>x. is_allowed_ip list_crate p x \<longleftrightarrow> (\<exists>ip\<in>set ?ips. is_v4 x = is_v4 (aip_addr ip) \<and>
       prefix (take (unat (aip_cidr ip)) (ip_bits (aip_addr ip))) (ip_bits x))" by blast
  have "prefix (take (unat (8 :: byte)) (ip_bits (IpV4 [10, 0, 0, 0]))) (ip_bits (IpV4 [10, 1, 2, 3]))" by code_simp
  moreover have "\<not> prefix (take (unat (8 :: byte)) (ip_bits (IpV4 [10, 0, 0, 0]))) (ip_bits (IpV4 [11, 1, 2, 3]))" by code_simp
  ultimately show ?thesis using p by (simp del: ip_bits.simps)
qed

end
