(* ===== verification/Index_Lfsr.thy ===== *)
theory Index_Lfsr
  imports Prelude
begin

text \<open>
  \<^verbatim>\<open>device/mod.rs\<close>, \<open>IndexLfsr\<close>: the shift register that gives each peer a different 24-bit
  index, the upper part of the session indices its tunnel uses. The words the random number
  generator returns are an argument. \<open>None\<close> is a panic.
\<close>

unbundle bit_operations_syntax

record index_lfsr =
  lf_initial :: u32
  lf_lfsr :: u32
  lf_mask :: u32

definition LFSR_MAX :: u32 where "LFSR_MAX = 0xffffff"
definition LFSR_POLY :: u32 where "LFSR_POLY = 0xd80000"

text \<open>The loop draws words until one has a bit set in the low 24; the words not drawn are returned too.\<close>

fun random_index :: "u32 list \<Rightarrow> (u32 \<times> u32 list) option" where
  "random_index [] = None"
| "random_index (r # rs) = (let i = r AND LFSR_MAX in if 0 < i then Some (i, rs) else random_index rs)"

definition index_lfsr_next :: "index_lfsr \<Rightarrow> (index_lfsr \<times> u32) option" where
  "index_lfsr_next self =
    (if lf_lfsr self = 0 then None
     else
       let value = lf_lfsr self - 1;
           lfsr = drop_bit 1 (lf_lfsr self) XOR ((0 - (lf_lfsr self AND 1)) AND LFSR_POLY);
           self = self\<lparr> lf_lfsr := lfsr \<rparr>
       in if lf_lfsr self \<noteq> lf_initial self then Some (self, value XOR lf_mask self) else None)"

definition index_lfsr_default :: "u32 list \<Rightarrow> (index_lfsr \<times> u32 list) option" where
  "index_lfsr_default rng = do {
     (seed, rng) \<leftarrow> random_index rng;
     (mask, rng) \<leftarrow> random_index rng;
     Some (\<lparr> lf_initial = seed, lf_lfsr = seed, lf_mask = mask \<rparr>, rng)
   }"

section \<open>The register permutes the non-zero 24-bit words\<close>

definition lfsr_step :: "u32 \<Rightarrow> u32" where
  "lfsr_step x = drop_bit 1 x XOR (if odd x then LFSR_POLY else 0)"

definition in_24 :: "u32 \<Rightarrow> bool" where
  "in_24 x \<longleftrightarrow> 0 < x \<and> x < 2 ^ 24"

lemma lfsr_step_code: "drop_bit 1 x XOR ((0 - (x AND 1)) AND LFSR_POLY) = lfsr_step x"
proof (cases "odd x")
  case True
  then have "x AND 1 = 1" by (simp add: and_one_eq odd_iff_mod_2_eq_one)
  with True show ?thesis by (simp add: lfsr_step_def)
next
  case False
  then have "x AND 1 = 0" by (simp add: and_one_eq even_iff_mod_2_eq_zero)
  with False show ?thesis by (simp add: lfsr_step_def)
qed

lemma bit_poly: "bit LFSR_POLY n \<longleftrightarrow> n \<in> {19, 20, 22, 23}"
proof -
  have one: "bit (push_bit k 1 :: u32) n \<longleftrightarrow> n = k \<and> k < 32" for k by (auto simp: bit_simps)
  have "LFSR_POLY = (push_bit 19 1 OR (push_bit 20 1 OR (push_bit 22 1 OR push_bit 23 1)))"
    by (simp add: LFSR_POLY_def)
  then have "bit LFSR_POLY n \<longleftrightarrow> bit (push_bit 19 1 OR (push_bit 20 1 OR (push_bit 22 1 OR push_bit 23 1)) :: u32) n" by (rule arg_cong)
  then show ?thesis unfolding bit_or_iff one by auto
qed

lemma less_24: "(x :: u32) < 2 ^ 24 \<longleftrightarrow> take_bit 24 x = x"
  by (simp add: word_less_nat_alt word_unat_eq_iff unsigned_take_bit_eq take_bit_nat_eq_self_iff)

lemma in_24_bit: "x < 2 ^ 24 \<Longrightarrow> bit (x :: u32) n \<Longrightarrow> n < 24"
  unfolding less_24 by (metis bit_take_bit_iff)

lemma lfsr_step_bit23: "x < 2 ^ 24 \<Longrightarrow> bit (lfsr_step x) 23 \<longleftrightarrow> odd x"
  using in_24_bit [of x 24] by (auto simp: lfsr_step_def bit_simps bit_poly)

lemma lfsr_step_inj:
  assumes "x < 2 ^ 24" and "y < 2 ^ 24" and "lfsr_step x = lfsr_step y"
  shows "x = y"
proof -
  have odd: "odd x \<longleftrightarrow> odd y" using lfsr_step_bit23 assms by metis
  have "drop_bit 1 x = lfsr_step x XOR (if odd x then LFSR_POLY else 0)"
    "drop_bit 1 y = lfsr_step y XOR (if odd y then LFSR_POLY else 0)" by (simp_all add: lfsr_step_def xor.assoc)
  then have "drop_bit 1 x = drop_bit 1 y" using assms(3) odd by simp
  show ?thesis
  proof (rule bit_word_eqI)
    fix n assume "n < LENGTH(32)"
    show "bit x n \<longleftrightarrow> bit y n"
    proof (cases n)
      case 0
      then show ?thesis using odd by (simp add: bit_0)
    next
      case (Suc m)
      have "bit (drop_bit 1 x) m \<longleftrightarrow> bit (drop_bit 1 y) m" using \<open>drop_bit 1 x = drop_bit 1 y\<close> by simp
      then show ?thesis using Suc by (simp add: bit_simps)
    qed
  qed
qed

lemma lfsr_step_24:
  assumes "in_24 x"
  shows "in_24 (lfsr_step x)"
proof -
  have x: "x < 2 ^ 24" "x \<noteq> 0" using assms by (auto simp: in_24_def)
  have "take_bit 24 (lfsr_step x) = lfsr_step x"
    by (rule bit_word_eqI) (use in_24_bit [OF x(1)] in \<open>force simp: lfsr_step_def bit_simps bit_poly\<close>)
  then have lt: "lfsr_step x < 2 ^ 24" by (simp only: less_24)
  have "lfsr_step 0 = 0" by (simp add: lfsr_step_def)
  then have "lfsr_step x \<noteq> 0" using lfsr_step_inj [of x 0] x by auto
  with lt show ?thesis by (simp add: in_24_def word_gt_0)
qed

section \<open>The indices that are handed out\<close>

text \<open>The indices of \<open>n\<close> successive calls; \<open>None\<close> when one of them panics.\<close>

fun draw_indices :: "nat \<Rightarrow> index_lfsr \<Rightarrow> (index_lfsr \<times> u32 list) option" where
  "draw_indices 0 self = Some (self, [])"
| "draw_indices (Suc n) self = do {
     (self, i) \<leftarrow> index_lfsr_next self;
     (self, is) \<leftarrow> draw_indices n self;
     Some (self, i # is)
   }"

lemma index_lfsr_next_eq:
  "index_lfsr_next l = (if lf_lfsr l = 0 \<or> lfsr_step (lf_lfsr l) = lf_initial l then None
     else Some (l\<lparr> lf_lfsr := lfsr_step (lf_lfsr l) \<rparr>, (lf_lfsr l - 1) XOR lf_mask l))"
  unfolding index_lfsr_next_def lfsr_step_code Let_def by simp

lemma draw_indices_eq:
  assumes "draw_indices n l = Some (l', is)"
  shows "l' = l\<lparr> lf_lfsr := (lfsr_step ^^ n) (lf_lfsr l) \<rparr> \<and>
    is = map (\<lambda>k. ((lfsr_step ^^ k) (lf_lfsr l) - 1) XOR lf_mask l) [0..<n] \<and>
    (\<forall>k < n. (lfsr_step ^^ Suc k) (lf_lfsr l) \<noteq> lf_initial l)"
  using assms
proof (induction n arbitrary: l "is")
  case 0
  then show ?case by simp
next
  case (Suc n)
  let ?l1 = "l\<lparr> lf_lfsr := lfsr_step (lf_lfsr l) \<rparr>"
  from Suc.prems obtain js where j: "draw_indices n ?l1 = Some (l', js)" "is = ((lf_lfsr l - 1) XOR lf_mask l) # js"
    and ne: "lfsr_step (lf_lfsr l) \<noteq> lf_initial l"
    by (auto simp: index_lfsr_next_eq bind_eq_Some_conv split: if_splits)
  from Suc.IH [OF j(1)] have ih: "l' = ?l1\<lparr> lf_lfsr := (lfsr_step ^^ n) (lfsr_step (lf_lfsr l)) \<rparr>"
    "js = map (\<lambda>k. ((lfsr_step ^^ k) (lfsr_step (lf_lfsr l)) - 1) XOR lf_mask l) [0..<n]"
    "\<And>k. k < n \<Longrightarrow> (lfsr_step ^^ Suc k) (lfsr_step (lf_lfsr l)) \<noteq> lf_initial l" by simp_all
  have sh: "(lfsr_step ^^ k) (lfsr_step x) = (lfsr_step ^^ Suc k) x" for k x by (simp add: funpow_swap1)
  have "(lfsr_step ^^ Suc k) (lf_lfsr l) \<noteq> lf_initial l" if "k < Suc n" for k
    using ih(3) [of "k - 1"] ne that sh by (cases k) simp_all
  with ih(1,2) j(2) show ?case
    by (simp add: sh map_upt_Suc del: upt_Suc funpow.simps(2))
qed

lemma random_index_24: "random_index rs = Some (i, rs') \<Longrightarrow> in_24 i"
proof (induction rs)
  case (Cons r rs)
  have "LFSR_MAX = mask 24" by (simp add: LFSR_MAX_def mask_eq_exp_minus_1)
  then have "r AND LFSR_MAX = take_bit 24 r" by (simp add: take_bit_eq_mask)
  then have "take_bit 24 (r AND LFSR_MAX) = r AND LFSR_MAX" by simp
  then have "r AND LFSR_MAX < 2 ^ 24" by (simp only: less_24)
  with Cons show ?case by (auto simp: Let_def in_24_def split: if_splits)
qed simp

lemma funpow_24: "in_24 x \<Longrightarrow> in_24 ((lfsr_step ^^ k) x)"
  by (induction k) (simp_all add: lfsr_step_24)

lemma funpow_step_cancel:
  assumes "in_24 x" and "(lfsr_step ^^ i) x = (lfsr_step ^^ (i + d)) x"
  shows "x = (lfsr_step ^^ d) x"
  using assms(2)
proof (induction i)
  case (Suc i)
  have "(lfsr_step ^^ i) x < 2 ^ 24" "(lfsr_step ^^ (i + d)) x < 2 ^ 24"
    using funpow_24 [OF assms(1)] by (simp_all add: in_24_def)
  with Suc show ?case using lfsr_step_inj by simp
qed simp

lemma orbit_distinct:
  assumes "in_24 x" and "\<And>k. k < n \<Longrightarrow> (lfsr_step ^^ Suc k) x \<noteq> x"
  shows "distinct (map (\<lambda>k. ((lfsr_step ^^ k) x - 1) XOR m) [0..<n])"
proof -
  have ne: "(lfsr_step ^^ i) x \<noteq> (lfsr_step ^^ j) x" if "i < j" "j < n" for i j
  proof
    assume "(lfsr_step ^^ i) x = (lfsr_step ^^ j) x"
    then have "x = (lfsr_step ^^ (j - i)) x" using funpow_step_cancel [OF assms(1), of i "j - i"] that by simp
    moreover have k: "j - i = Suc (j - i - 1)" "j - i - 1 < n" using that by simp_all
    ultimately show False using assms(2) [OF k(2)] by metis
  qed
  have "(lfsr_step ^^ i) x = (lfsr_step ^^ j) x"
    if "((lfsr_step ^^ i) x - 1) XOR m = ((lfsr_step ^^ j) x - 1) XOR m" for i j
  proof -
    from that have "(((lfsr_step ^^ i) x - 1) XOR m) XOR m = (((lfsr_step ^^ j) x - 1) XOR m) XOR m" by simp
    then show ?thesis by (simp add: xor.assoc)
  qed
  then show ?thesis unfolding distinct_map inj_on_def using ne by (metis atLeastLessThan_iff distinct_upt linorder_neqE_nat set_upt)
qed

lemma index_small:
  assumes "in_24 x" and "in_24 m"
  shows "(x - 1) XOR m < 2 ^ 24"
proof -
  have "x \<noteq> 0" "x < 2 ^ 24" using assms(1) by (auto simp: in_24_def)
  then have "x - 1 < 2 ^ 24" by (simp add: word_less_nat_alt unat_minus_one)
  then have "take_bit 24 (x - 1) = x - 1" "take_bit 24 m = m" using assms(2) unfolding less_24 in_24_def by simp_all
  then have "take_bit 24 ((x - 1) XOR m) = (x - 1) XOR m" by (simp add: take_bit_xor)
  then show ?thesis unfolding less_24 .
qed

lemma push_bit_8_inj: "inj_on (push_bit 8) {i :: u32. i < 2 ^ 24}"
proof (rule inj_onI)
  fix a b :: u32 assume ab: "a \<in> {i. i < 2 ^ 24}" "b \<in> {i. i < 2 ^ 24}" "push_bit 8 a = push_bit 8 b"
  have "take_bit 24 w = drop_bit 8 (push_bit 8 w)" for w :: u32
    by (rule bit_word_eqI) (auto simp: bit_simps)
  then have "take_bit 24 a = take_bit 24 b" using ab(3) by simp
  moreover have "take_bit 24 a = a" "take_bit 24 b = b" using ab(1,2) unfolding mem_Collect_eq less_24 by blast+
  ultimately show "a = b" by metis
qed

lemma drawn_indices:
  assumes "index_lfsr_default rng = Some (l, rng')" and "draw_indices n l = Some (l', is)"
  shows "distinct is" and "length is = n" and "\<forall>i\<in>set is. i < 2 ^ 24"
proof -
  from assms(1) have init: "lf_initial l = lf_lfsr l" "in_24 (lf_lfsr l)" "in_24 (lf_mask l)"
    by (auto simp: index_lfsr_default_def bind_eq_Some_conv dest: random_index_24)
  have is_eq: "is = map (\<lambda>k. ((lfsr_step ^^ k) (lf_lfsr l) - 1) XOR lf_mask l) [0..<n]"
    and ne: "\<And>k. k < n \<Longrightarrow> (lfsr_step ^^ Suc k) (lf_lfsr l) \<noteq> lf_lfsr l"
    using draw_indices_eq [OF assms(2)] init(1) by simp_all
  show "distinct is" unfolding is_eq using init(2) ne by (rule orbit_distinct)
  show "length is = n" by (simp add: is_eq)
  show "\<forall>i\<in>set is. i < 2 ^ 24" unfolding is_eq using index_small [OF funpow_24 [OF init(2)] init(3)] by auto
qed

lemma draw_indices_snoc:
  "draw_indices n l = Some (l', is) \<Longrightarrow> index_lfsr_next l' = Some (l'', i) \<Longrightarrow> draw_indices (Suc n) l = Some (l'', is @ [i])"
proof (induction n arbitrary: l "is")
  case (Suc n)
  then show ?case by (fastforce simp: bind_eq_Some_conv)
qed simp

text \<open>C38: the indices handed out to peers are pairwise different 24-bit numbers, for every seed and mask,
  as long as the register does not panic: it panics before an index would come a second time. So the
  session indices of different peers, which have these numbers as their upper 24 bits, never clash.\<close>
theorem peer_indices_distinct:
  assumes "index_lfsr_default rng = Some (l, rng')" and "draw_indices n l = Some (l', is)"
  shows "distinct is \<and> length is = n \<and> (\<forall>i\<in>set is. i < 2 ^ 24) \<and> distinct (map (\<lambda>i. push_bit 8 i) is)"
proof -
  note d = drawn_indices [OF assms]
  have "set is \<subseteq> {i. i < 2 ^ 24}" using d(3) by auto
  with d show ?thesis using inj_on_subset [OF push_bit_8_inj] by (auto simp: distinct_map)
qed

theorem peer_indices_distinct_witness:
  "\<exists>l rng' l' is. index_lfsr_default [0, 0x1000001, 5] = Some (l, rng') \<and> draw_indices 3 l = Some (l', is) \<and> distinct is \<and> length is = 3"
proof -
  let ?l = "\<lparr> lf_initial = 1, lf_lfsr = 1, lf_mask = 5 \<rparr>"
  have l: "index_lfsr_default [0, 0x1000001, 5] = Some (?l, [])"
    by (simp add: index_lfsr_default_def LFSR_MAX_def)
  have "draw_indices 3 ?l \<noteq> None" by code_simp
  then obtain l' "is" where "draw_indices 3 ?l = Some (l', is)" by auto
  with peer_indices_distinct [OF l this] l show ?thesis by blast
qed

end
