(* ===== verification/Device.thy ===== *)
theory Device
  imports Peer Index_Lfsr
begin

text \<open>
  \<^verbatim>\<open>device/mod.rs\<close>: the device, its tables of peers, and the handlers the event loop runs.

  A peer is behind an \<open>Arc\<close> and its tables share it: an \<open>Arc\<close> is a position of the store
  \<open>dv_store\<close>, and allocating appends. Sockets are numbers. A handler takes what it receives as a list
  (the list ends where the socket or the interface has nothing more) and returns what it sends. What
  the clock, the random number generator, the buffers and the operating system hold at each step is
  an argument; so is the order in which a \<open>HashMap\<close> iterates. A result \<open>None\<close> is a panic.
\<close>

definition HANDSHAKE_RATE_LIMIT :: u64 where "HANDSHAKE_RATE_LIMIT = 100"
definition MAX_UDP_SIZE :: nat where "MAX_UDP_SIZE = 2 ^ 16 - 1"
definition MAX_ITR :: nat where "MAX_ITR = 100"

datatype action = Continue | Yield | Exit

record ('p, 'i) device =
  dv_key_pair :: "(bytes \<times> bytes) option"
  dv_listen_port :: u16
  dv_fwmark :: "u32 option"
  dv_udp4 :: "nat option"
  dv_udp6 :: "nat option"
  dv_peers :: "bytes \<rightharpoonup> nat"
  dv_peers_by_ip :: 'i
  dv_peers_by_idx :: "u32 \<rightharpoonup> nat"
  dv_next_index :: index_lfsr
  dv_use_connected_socket :: bool
  dv_mtu :: nat
  dv_rate_limiter :: "nat option"
  dv_store :: "'p peer list"
  dv_limiters :: rl_heap

text \<open>What a handler does to the outside: datagrams on a socket that is not connected and on one that
  is, packets for the interface, and the handler of a new connected socket.\<close>

datatype dev_out =
    SendTo nat bytes socket_addr
  | Send nat bytes
  | Write4 bytes
  | Write6 bytes
  | RegisterConn nat nat ip_addr

record call_env =
  ce_rd :: readings
  ce_dst :: bytes

record step_env =
  se_verify :: call_env
  se_handle :: call_env
  se_flush :: "nat \<Rightarrow> call_env"
  se_os :: os

definition put_peer :: "('p, 'i) device \<Rightarrow> nat \<Rightarrow> 'p peer \<Rightarrow> ('p, 'i) device" where
  "put_peer self a p = self\<lparr> dv_store := (dv_store self)[a := p] \<rparr>"

text \<open>\<open>peers.values()\<close>, for an iteration order of the keys.\<close>

definition peer_values :: "('p, 'i) device \<Rightarrow> bytes list \<Rightarrow> nat list" where
  "peer_values self order = List.map_filter (dv_peers self) order"

section \<open>Configuration\<close>

definition device_new :: "('m, 'i, nat) ip_crate \<Rightarrow> u32 list \<Rightarrow> rl_heap \<Rightarrow> bool \<Rightarrow> nat \<Rightarrow> ('p, 'i) device option" where
  "device_new ci rng limiters use_connected_socket mtu = do {
     (next_index, rng) \<leftarrow> index_lfsr_default rng;
     Some \<lparr> dv_key_pair = None, dv_listen_port = 0, dv_fwmark = None, dv_udp4 = None, dv_udp6 = None,
       dv_peers = Map.empty, dv_peers_by_ip = allowed_ips_new ci, dv_peers_by_idx = Map.empty,
       dv_next_index = next_index, dv_use_connected_socket = use_connected_socket, dv_mtu = mtu,
       dv_rate_limiter = None, dv_store = [], dv_limiters = limiters \<rparr>
   }"

definition device_next_index :: "('p, 'i) device \<Rightarrow> (('p, 'i) device \<times> u32) option" where
  "device_next_index self = do {
     (next_index, value) \<leftarrow> index_lfsr_next (dv_next_index self);
     Some (self\<lparr> dv_next_index := next_index \<rparr>, value)
   }"

definition remove_peer :: "('m, 'i, nat) ip_crate \<Rightarrow> os \<Rightarrow> ('p, 'i) device \<Rightarrow> bytes \<Rightarrow> ('p, 'i) device option" where
  "remove_peer ci os self pub_key =
    (case dv_peers self pub_key of
       None \<Rightarrow> Some self
     | Some peer \<Rightarrow> do {
         let self = self\<lparr> dv_peers := (dv_peers self)(pub_key := None) \<rparr>;
         p \<leftarrow> shutdown_endpoint os (dv_store self ! peer);
         let self = put_peer self peer p;
         let self = self\<lparr> dv_peers_by_idx := (dv_peers_by_idx self)(pr_index p := None) \<rparr>;
         Some (self\<lparr> dv_peers_by_ip := allowed_ips_remove ci (dv_peers_by_ip self) (\<lambda>q. peer = q) \<rparr>)
       })"

definition update_peer ::
  "('n, 'p, unit) ip_crate \<Rightarrow> ('m, 'i, nat) ip_crate \<Rightarrow> crypto \<Rightarrow> new_readings \<Rightarrow> os \<Rightarrow> ('p, 'i) device \<Rightarrow> bytes \<Rightarrow> bool \<Rightarrow> bool
     \<Rightarrow> socket_addr option \<Rightarrow> allowed_ip list \<Rightarrow> u16 option \<Rightarrow> bytes option \<Rightarrow> ('p, 'i) device option" where
  "update_peer cp ci c nr os self pub_key remove replace_ips endpoint allowed_ips keepalive preshared_key =
    (if remove then remove_peer ci os self pub_key
     else if dv_peers self pub_key \<noteq> None then None
     else do {
       (self, next_index) \<leftarrow> device_next_index self;
       device_key_pair \<leftarrow> dv_key_pair self;
       (limiters, tunn) \<leftarrow> tunn_new c nr (dv_limiters self) (fst device_key_pair) pub_key preshared_key keepalive next_index None;
       p \<leftarrow> peer_new cp tunn next_index endpoint allowed_ips preshared_key;
       let peer = length (dv_store self);
       let self = self\<lparr> dv_limiters := limiters, dv_store := dv_store self @ [p] \<rparr>;
       let self = self\<lparr> dv_peers := (dv_peers self)(pub_key \<mapsto> peer) \<rparr>;
       let self = self\<lparr> dv_peers_by_idx := (dv_peers_by_idx self)(next_index \<mapsto> peer) \<rparr>;
       peers_by_ip \<leftarrow> insert_all ci (dv_peers_by_ip self) (map (\<lambda>ip. (ip, peer)) allowed_ips);
       Some (self\<lparr> dv_peers_by_ip := peers_by_ip \<rparr>)
     })"

text \<open>The loops over the peers that close their connected sockets and that change their key.\<close>

fun shutdown_endpoints :: "os \<Rightarrow> ('p, 'i) device \<Rightarrow> nat list \<Rightarrow> ('p, 'i) device option" where
  "shutdown_endpoints os self [] = Some self"
| "shutdown_endpoints os self (peer # peers) = do {
     p \<leftarrow> shutdown_endpoint os (dv_store self ! peer);
     shutdown_endpoints os (put_peer self peer p) peers
   }"

fun set_static_privates :: "crypto \<Rightarrow> new_readings \<Rightarrow> ('p, 'i) device \<Rightarrow> bytes \<Rightarrow> bytes \<Rightarrow> nat \<Rightarrow> nat list \<Rightarrow> ('p, 'i) device option" where
  "set_static_privates c nr self private_key public_key rate_limiter [] = Some self"
| "set_static_privates c nr self private_key public_key rate_limiter (peer # peers) = do {
     let p = dv_store self ! peer;
     (limiters, tunnel) \<leftarrow> tunn_set_static_private c nr (dv_limiters self) (pr_tunnel p) private_key public_key (Some rate_limiter);
     let self = put_peer (self\<lparr> dv_limiters := limiters \<rparr>) peer (p\<lparr> pr_tunnel := tunnel \<rparr>);
     set_static_privates c nr self private_key public_key rate_limiter peers
   }"

text \<open>The sockets \<open>open_listen_socket\<close> creates: the outer option is a panic of \<open>try_clone().unwrap()\<close>, the
  inner one an error. The two handlers are registered for clones of the sockets.\<close>

definition listen_socket :: "os \<Rightarrow> bool \<Rightarrow> u16 \<Rightarrow> nat option" where
  "listen_socket os v4 port = do {
     s \<leftarrow> os_socket os v4;
     _ \<leftarrow> check (os_set_reuse_address os s);
     _ \<leftarrow> check (os_bind os s (unspecified v4) port);
     _ \<leftarrow> check (os_set_nonblocking os s);
     Some s
   }"

definition listen_sockets :: "os \<Rightarrow> u16 \<Rightarrow> (nat \<times> nat \<times> u16) option" where
  "listen_sockets os port = do {
     udp_sock4 \<leftarrow> listen_socket os True port;
     port \<leftarrow> (if port = 0 then os_local_port os udp_sock4 else Some port);
     udp_sock6 \<leftarrow> listen_socket os False port;
     Some (udp_sock4, udp_sock6, port)
   }"

text \<open>\<open>open_listen_socket\<close>: the flag tells \<open>Ok\<close> from an error.\<close>

definition open_listen_socket :: "os \<Rightarrow> bytes list \<Rightarrow> ('p, 'i) device \<Rightarrow> u16 \<Rightarrow> (('p, 'i) device \<times> bool) option" where
  "open_listen_socket os order self port = do {
     let self = self\<lparr> dv_udp4 := None \<rparr>;
     let self = self\<lparr> dv_udp6 := None \<rparr>;
     self \<leftarrow> shutdown_endpoints os self (peer_values self order);
     (case listen_sockets os port of
        None \<Rightarrow> Some (self, False)
      | Some (udp_sock4, udp_sock6, port) \<Rightarrow> do {
          h4 \<leftarrow> os_try_clone os udp_sock4;
          if \<not> os_register os h4 then Some (self, False) else do {
            h6 \<leftarrow> os_try_clone os udp_sock6;
            if \<not> os_register os h6 then Some (self, False)
            else Some (self\<lparr> dv_udp4 := Some udp_sock4, dv_udp6 := Some udp_sock6, dv_listen_port := port \<rparr>, True)
          }
        })
   }"

definition set_key :: "crypto \<Rightarrow> new_readings \<Rightarrow> bytes list \<Rightarrow> ('p, 'i) device \<Rightarrow> bytes \<Rightarrow> ('p, 'i) device option" where
  "set_key c nr order self private_key =
    (let public_key = x25519_public c private_key;
         key_pair = Some (private_key, public_key)
     in if Some public_key = map_option snd (dv_key_pair self) then Some self
        else do {
          let (limiters, rate_limiter) = rl_alloc (dv_limiters self) (rate_limiter_new c (nr_secret_key nr) (nr_nonce_key nr)
            (nr_start_time nr) (nr_last_reset nr) public_key HANDSHAKE_RATE_LIMIT);
          let self = self\<lparr> dv_limiters := limiters \<rparr>;
          self \<leftarrow> set_static_privates c nr self private_key public_key rate_limiter (peer_values self order);
          Some (self\<lparr> dv_key_pair := key_pair, dv_rate_limiter := Some rate_limiter \<rparr>)
        })"

fun set_marks :: "os \<Rightarrow> u32 \<Rightarrow> nat option list \<Rightarrow> bool" where
  "set_marks os mark [] \<longleftrightarrow> True"
| "set_marks os mark (None # socks) \<longleftrightarrow> set_marks os mark socks"
| "set_marks os mark (Some sock # socks) \<longleftrightarrow> os_set_mark os sock mark \<and> set_marks os mark socks"

definition set_fwmark :: "os \<Rightarrow> bytes list \<Rightarrow> ('p, 'i) device \<Rightarrow> u32 \<Rightarrow> ('p, 'i) device \<times> bool" where
  "set_fwmark os order self mark =
    (let self = self\<lparr> dv_fwmark := Some mark \<rparr>
     in (self, set_marks os mark (dv_udp4 self # dv_udp6 self #
          map (\<lambda>peer. ep_conn (pr_endpoint (dv_store self ! peer))) (peer_values self order))))"

definition clear_peers :: "('m, 'i, nat) ip_crate \<Rightarrow> ('p, 'i) device \<Rightarrow> ('p, 'i) device" where
  "clear_peers ci self =
    (let self = self\<lparr> dv_peers := Map.empty \<rparr>;
         self = self\<lparr> dv_peers_by_idx := Map.empty \<rparr>
     in self\<lparr> dv_peers_by_ip := allowed_ips_clear ci (dv_peers_by_ip self) \<rparr>)"

section \<open>Timers\<close>

definition limiter_timer :: "('p, 'i) device \<Rightarrow> instant \<Rightarrow> ('p, 'i) device \<times> action" where
  "limiter_timer d now =
    (case dv_rate_limiter d of
       Some r \<Rightarrow> (d\<lparr> dv_limiters := rl_store (dv_limiters d) r (reset_count (rlh_at (dv_limiters d) r) now) \<rparr>, Continue)
     | None \<Rightarrow> (d, Continue))"

text \<open>The periodic check of \<^verbatim>\<open>register_monitor\<close> in \<^verbatim>\<open>device/api.rs\<close>: whether the control socket still
  exists, and the MTU of the interface when it can be read.\<close>

definition monitor_timer :: "('p, 'i) device \<Rightarrow> bool \<Rightarrow> nat option \<Rightarrow> ('p, 'i) device \<times> action" where
  "monitor_timer d exists iface_mtu =
    (if \<not> exists then (d, Exit)
     else case iface_mtu of
       Some mtu \<Rightarrow> (d\<lparr> dv_mtu := mtu \<rparr>, Continue)
     | None \<Rightarrow> (d, Continue))"

definition tick_peer ::
  "bool \<Rightarrow> crypto \<Rightarrow> step_env \<Rightarrow> nat \<Rightarrow> nat \<Rightarrow> ('p, 'i) device \<Rightarrow> nat \<Rightarrow> (('p, 'i) device \<times> dev_out list) option" where
  "tick_peer pq c se udp4 udp6 d peer =
    (let p = dv_store d ! peer in
     case ep_addr (pr_endpoint p) of
       None \<Rightarrow> Some (d, [])
     | Some endpoint_addr \<Rightarrow> do {
         (limiters, p, r) \<leftarrow> peer_update_timers pq c (ce_rd (se_handle se)) (dv_limiters d) p (ce_dst (se_handle se));
         let d = d\<lparr> dv_limiters := limiters \<rparr>;
         (case r of
            Done \<Rightarrow> Some (put_peer d peer p, [])
          | Err ConnectionExpired \<Rightarrow> do {
              p \<leftarrow> shutdown_endpoint (se_os se) p;
              Some (put_peer d peer p, [])
            }
          | Err e \<Rightarrow> Some (put_peer d peer p, [])
          | WriteToNetwork packet \<Rightarrow>
              Some (put_peer d peer p, [SendTo (if is_v4 (sa_ip endpoint_addr) then udp4 else udp6) packet endpoint_addr])
          | _ \<Rightarrow> None)
       })"

fun tick_peers ::
  "bool \<Rightarrow> crypto \<Rightarrow> (nat \<Rightarrow> step_env) \<Rightarrow> nat \<Rightarrow> nat \<Rightarrow> ('p, 'i) device \<Rightarrow> nat list \<Rightarrow> (('p, 'i) device \<times> dev_out list) option" where
  "tick_peers pq c envs udp4 udp6 d [] = Some (d, [])"
| "tick_peers pq c envs udp4 udp6 d (peer # peers) = do {
     (d, out) \<leftarrow> tick_peer pq c (envs peer) udp4 udp6 d peer;
     (d, outs) \<leftarrow> tick_peers pq c envs udp4 udp6 d peers;
     Some (d, out @ outs)
   }"

definition peers_timer ::
  "bool \<Rightarrow> crypto \<Rightarrow> (nat \<Rightarrow> step_env) \<Rightarrow> bytes list \<Rightarrow> ('p, 'i) device \<Rightarrow> (('p, 'i) device \<times> dev_out list \<times> action) option" where
  "peers_timer pq c envs order d =
    (case (dv_udp4 d, dv_udp6 d) of
       (Some udp4, Some udp6) \<Rightarrow> do {
         (d, outs) \<leftarrow> tick_peers pq c envs udp4 udp6 d (peer_values d order);
         Some (d, outs, Continue)
       }
     | _ \<Rightarrow> Some (d, [], Continue))"

section \<open>Datagrams\<close>

text \<open>The loop that sends the packets that waited for a session: it ends at the first result that is not
  a datagram.\<close>

partial_function (option) flush_queue ::
  "bool \<Rightarrow> crypto \<Rightarrow> (nat \<Rightarrow> call_env) \<Rightarrow> nat \<Rightarrow> rl_heap \<Rightarrow> tunn \<Rightarrow> (rl_heap \<times> tunn \<times> bytes list) option" where
  "flush_queue pq c envs n limiters tunnel = do {
     (limiters, tunnel, r) \<leftarrow> decapsulate pq c (ce_rd (envs n)) limiters tunnel None [] (ce_dst (envs n));
     (case r of
        WriteToNetwork packet \<Rightarrow> do {
          (limiters, tunnel, packets) \<leftarrow> flush_queue pq c envs (n + 1) limiters tunnel;
          Some (limiters, tunnel, packet # packets)
        }
      | _ \<Rightarrow> Some (limiters, tunnel, []))
   }"

definition peer_of_packet :: "crypto \<Rightarrow> ('p, 'i) device \<Rightarrow> bytes \<Rightarrow> bytes \<Rightarrow> packet \<Rightarrow> nat option option" where
  "peer_of_packet c d private_key public_key parsed_packet =
    (case parsed_packet of
       HandshakeInit p \<Rightarrow> map_option (case_sum (\<lambda>_. None) (\<lambda>hh. dv_peers d (hh_peer_static_public hh)))
         (parse_handshake_anon c private_key public_key p)
     | PqHandshakeInit p \<Rightarrow> map_option (case_sum (\<lambda>_. None) (\<lambda>hh. dv_peers d (hh_peer_static_public hh)))
         (parse_pq_handshake_anon c private_key public_key p)
     | PqHandshakeResponse p \<Rightarrow> Some (dv_peers_by_idx d (drop_bit 8 (pqr_receiver_idx p)))
     | HandshakeResponse p \<Rightarrow> Some (dv_peers_by_idx d (drop_bit 8 (hr_receiver_idx p)))
     | PacketCookieReply p \<Rightarrow> Some (dv_peers_by_idx d (drop_bit 8 (cr_receiver_idx p)))
     | PacketData p \<Rightarrow> Some (dv_peers_by_idx d (drop_bit 8 (pd_receiver_idx p))))"

text \<open>What a handler writes to the interface.\<close>

definition to_iface :: "('n, 'p, unit) ip_crate \<Rightarrow> 'p peer \<Rightarrow> tunn_result \<Rightarrow> dev_out list" where
  "to_iface cp p r =
    (case r of
       WriteToTunnelV4 packet addr \<Rightarrow> if is_allowed_ip cp p (IpV4 addr) then [Write4 packet] else []
     | WriteToTunnelV6 packet addr \<Rightarrow> if is_allowed_ip cp p (IpV6 addr) then [Write6 packet] else []
     | _ \<Rightarrow> [])"

text \<open>The end of an iteration of the loop of the handler of a listening socket, for a datagram that the
  tunnel accepted with the result \<open>r\<close>: the answer, the packets that waited, the endpoint and its
  connected socket.\<close>

definition udp_finish ::
  "bool \<Rightarrow> crypto \<Rightarrow> ('n, 'p, unit) ip_crate \<Rightarrow> step_env \<Rightarrow> nat \<Rightarrow> socket_addr \<Rightarrow> ('p, 'i) device \<Rightarrow> nat \<Rightarrow> 'p peer \<Rightarrow> tunn_result
     \<Rightarrow> (('p, 'i) device \<times> dev_out list) option" where
  "udp_finish pq c cp se udp addr d peer p r = do {
     let out = (case r of WriteToNetwork packet \<Rightarrow> [SendTo udp packet addr] | _ \<Rightarrow> to_iface cp p r);
     (limiters, tunnel, flushed) \<leftarrow>
       (case r of WriteToNetwork _ \<Rightarrow> flush_queue pq c (se_flush se) 0 (dv_limiters d) (pr_tunnel p)
        | _ \<Rightarrow> Some (dv_limiters d, pr_tunnel p, []));
     let p = p\<lparr> pr_tunnel := tunnel \<rparr>;
     p \<leftarrow> set_endpoint (se_os se) p addr;
     (p, sock) \<leftarrow> (if dv_use_connected_socket d
       then connect_endpoint (se_os se) p (dv_listen_port d) (dv_fwmark d) else Some (p, None));
     registered \<leftarrow> (case sock of
         None \<Rightarrow> Some []
       | Some sock \<Rightarrow> if os_register (se_os se) sock then Some [RegisterConn peer sock (sa_ip addr)] else None);
     Some (put_peer (d\<lparr> dv_limiters := limiters \<rparr>) peer p,
       out @ map (\<lambda>packet. SendTo udp packet addr) flushed @ registered)
   }"

text \<open>One iteration of that loop. The flag tells whether the iteration reached its end, where the
  number of remaining iterations decreases: the \<open>continue\<close>s before it do not count.\<close>

definition udp_step ::
  "bool \<Rightarrow> crypto \<Rightarrow> ('n, 'p, unit) ip_crate \<Rightarrow> step_env \<Rightarrow> nat \<Rightarrow> bytes \<Rightarrow> bytes \<Rightarrow> nat \<Rightarrow> ('p, 'i) device \<Rightarrow> bytes \<Rightarrow> socket_addr
     \<Rightarrow> (('p, 'i) device \<times> dev_out list \<times> bool) option" where
  "udp_step pq c cp se udp private_key public_key rate_limiter d packet addr =
    (let (rl, verified) = verify_packet pq c (rlh_at (dv_limiters d) rate_limiter) (rd_cookie (ce_rd (se_verify se)))
           (Some (sa_ip addr)) packet (ce_dst (se_verify se));
         d = d\<lparr> dv_limiters := rl_store (dv_limiters d) rate_limiter rl \<rparr>
     in case verified of
          Inl (WriteToNetwork cookie) \<Rightarrow> Some (d, [SendTo udp cookie addr], False)
        | Inl _ \<Rightarrow> Some (d, [], False)
        | Inr parsed_packet \<Rightarrow> do {
            found \<leftarrow> peer_of_packet c d private_key public_key parsed_packet;
            (case found of
               None \<Rightarrow> Some (d, [], False)
             | Some peer \<Rightarrow> do {
                 let p = dv_store d ! peer;
                 (tunnel, r) \<leftarrow> handle_verified_packet c (ce_rd (se_handle se)) (pr_tunnel p) parsed_packet (ce_dst (se_handle se));
                 let p = p\<lparr> pr_tunnel := tunnel \<rparr>;
                 (case r of
                    Err _ \<Rightarrow> Some (put_peer d peer p, [], False)
                  | _ \<Rightarrow> do {
                      (d, out) \<leftarrow> udp_finish pq c cp se udp addr d peer p r;
                      Some (d, out, True)
                    })
               })
          })"

fun udp_loop ::
  "bool \<Rightarrow> crypto \<Rightarrow> ('n, 'p, unit) ip_crate \<Rightarrow> nat \<Rightarrow> bytes \<Rightarrow> bytes \<Rightarrow> nat \<Rightarrow> nat \<Rightarrow> ('p, 'i) device
     \<Rightarrow> (step_env \<times> bytes \<times> socket_addr) list \<Rightarrow> (('p, 'i) device \<times> dev_out list) option" where
  "udp_loop pq c cp udp private_key public_key rate_limiter iter d [] = Some (d, [])"
| "udp_loop pq c cp udp private_key public_key rate_limiter iter d ((se, packet, addr) # input) = do {
     (d, out, handled) \<leftarrow> udp_step pq c cp se udp private_key public_key rate_limiter d (take MAX_UDP_SIZE packet) addr;
     let iter = (if handled then iter - 1 else iter);
     if handled \<and> iter = 0 then Some (d, out)
     else do {
       (d, outs) \<leftarrow> udp_loop pq c cp udp private_key public_key rate_limiter iter d input;
       Some (d, out @ outs)
     }
   }"

definition udp_handler ::
  "bool \<Rightarrow> crypto \<Rightarrow> ('n, 'p, unit) ip_crate \<Rightarrow> nat \<Rightarrow> ('p, 'i) device \<Rightarrow> (step_env \<times> bytes \<times> socket_addr) list
     \<Rightarrow> (('p, 'i) device \<times> dev_out list \<times> action) option" where
  "udp_handler pq c cp udp d input = do {
     (private_key, public_key) \<leftarrow> dv_key_pair d;
     rate_limiter \<leftarrow> dv_rate_limiter d;
     (d, outs) \<leftarrow> udp_loop pq c cp udp private_key public_key rate_limiter MAX_ITR d input;
     Some (d, outs, Continue)
   }"

text \<open>The handler of a connected socket, which belongs to one peer.\<close>

definition conn_step ::
  "bool \<Rightarrow> crypto \<Rightarrow> ('n, 'p, unit) ip_crate \<Rightarrow> step_env \<Rightarrow> nat \<Rightarrow> nat \<Rightarrow> ip_addr \<Rightarrow> ('p, 'i) device \<Rightarrow> bytes
     \<Rightarrow> (('p, 'i) device \<times> dev_out list) option" where
  "conn_step pq c cp se peer udp peer_addr d packet = do {
     let p = dv_store d ! peer;
     (limiters, tunnel, r) \<leftarrow> decapsulate pq c (ce_rd (se_handle se)) (dv_limiters d) (pr_tunnel p) (Some peer_addr) packet
       (ce_dst (se_handle se));
     let d = d\<lparr> dv_limiters := limiters \<rparr>;
     let p = p\<lparr> pr_tunnel := tunnel \<rparr>;
     let out = (case r of WriteToNetwork packet \<Rightarrow> [Send udp packet] | _ \<Rightarrow> to_iface cp p r);
     (limiters, tunnel, flushed) \<leftarrow>
       (case r of WriteToNetwork _ \<Rightarrow> flush_queue pq c (se_flush se) 0 (dv_limiters d) (pr_tunnel p)
        | _ \<Rightarrow> Some (dv_limiters d, pr_tunnel p, []));
     let d = d\<lparr> dv_limiters := limiters \<rparr>;
     let p = p\<lparr> pr_tunnel := tunnel \<rparr>;
     Some (put_peer d peer p, out @ map (Send udp) flushed)
   }"

fun conn_loop ::
  "bool \<Rightarrow> crypto \<Rightarrow> ('n, 'p, unit) ip_crate \<Rightarrow> nat \<Rightarrow> nat \<Rightarrow> ip_addr \<Rightarrow> nat \<Rightarrow> ('p, 'i) device
     \<Rightarrow> (step_env \<times> bytes) list \<Rightarrow> (('p, 'i) device \<times> dev_out list) option" where
  "conn_loop pq c cp peer udp peer_addr iter d [] = Some (d, [])"
| "conn_loop pq c cp peer udp peer_addr iter d ((se, packet) # input) = do {
     (d, out) \<leftarrow> conn_step pq c cp se peer udp peer_addr d (take MAX_UDP_SIZE packet);
     let iter = iter - 1;
     if iter = 0 then Some (d, out)
     else do {
       (d, outs) \<leftarrow> conn_loop pq c cp peer udp peer_addr iter d input;
       Some (d, out @ outs)
     }
   }"

definition conn_handler ::
  "bool \<Rightarrow> crypto \<Rightarrow> ('n, 'p, unit) ip_crate \<Rightarrow> nat \<Rightarrow> nat \<Rightarrow> ip_addr \<Rightarrow> ('p, 'i) device \<Rightarrow> (step_env \<times> bytes) list
     \<Rightarrow> (('p, 'i) device \<times> dev_out list \<times> action) option" where
  "conn_handler pq c cp peer udp peer_addr d input = do {
     (d, outs) \<leftarrow> conn_loop pq c cp peer udp peer_addr MAX_ITR d input;
     Some (d, outs, Continue)
   }"

section \<open>Packets of the interface\<close>

text \<open>What a read of the interface returns: a packet, an interruption or nothing to read, or another error.\<close>

datatype iface_read = IfacePacket bytes | IfaceBlock | IfaceError

definition iface_step ::
  "bool \<Rightarrow> crypto \<Rightarrow> ('m, 'i, nat) ip_crate \<Rightarrow> step_env \<Rightarrow> nat \<Rightarrow> nat \<Rightarrow> ('p, 'i) device \<Rightarrow> bytes
     \<Rightarrow> (('p, 'i) device \<times> dev_out list) option" where
  "iface_step pq c ci se udp4 udp6 d src =
    (case dst_address src of
       None \<Rightarrow> Some (d, [])
     | Some dst_addr \<Rightarrow>
       (case allowed_ips_find ci (dv_peers_by_ip d) dst_addr of
          None \<Rightarrow> Some (d, [])
        | Some peer \<Rightarrow> do {
            let p = dv_store d ! peer;
            (tunnel, r) \<leftarrow> encapsulate pq c (ce_rd (se_handle se)) (pr_tunnel p) src (ce_dst (se_handle se));
            let d = put_peer d peer (p\<lparr> pr_tunnel := tunnel \<rparr>);
            (case r of
               Done \<Rightarrow> Some (d, [])
             | Err e \<Rightarrow> Some (d, [])
             | WriteToNetwork packet \<Rightarrow>
                 (case ep_conn (pr_endpoint p) of
                    Some conn \<Rightarrow> Some (d, [Send conn packet])
                  | None \<Rightarrow>
                    (case ep_addr (pr_endpoint p) of
                       Some addr \<Rightarrow> Some (d, [SendTo (if is_v4 (sa_ip addr) then udp4 else udp6) packet addr])
                     | None \<Rightarrow> Some (d, [])))
             | _ \<Rightarrow> None)
          }))"

fun iface_loop ::
  "bool \<Rightarrow> crypto \<Rightarrow> ('m, 'i, nat) ip_crate \<Rightarrow> nat \<Rightarrow> nat \<Rightarrow> nat \<Rightarrow> ('p, 'i) device \<Rightarrow> (step_env \<times> iface_read) list
     \<Rightarrow> (('p, 'i) device \<times> dev_out list \<times> action) option" where
  "iface_loop pq c ci udp4 udp6 0 d input = Some (d, [], Continue)"
| "iface_loop pq c ci udp4 udp6 (Suc n) d [] = Some (d, [], Continue)"
| "iface_loop pq c ci udp4 udp6 (Suc n) d ((se, r) # input) =
    (if MAX_UDP_SIZE < dv_mtu d then None
     else case r of
       IfaceBlock \<Rightarrow> Some (d, [], Continue)
     | IfaceError \<Rightarrow> Some (d, [], Exit)
     | IfacePacket src \<Rightarrow> do {
         (d, out) \<leftarrow> iface_step pq c ci se udp4 udp6 d (take (dv_mtu d) src);
         (d, outs, a) \<leftarrow> iface_loop pq c ci udp4 udp6 n d input;
         Some (d, out @ outs, a)
       })"

definition iface_handler ::
  "bool \<Rightarrow> crypto \<Rightarrow> ('m, 'i, nat) ip_crate \<Rightarrow> ('p, 'i) device \<Rightarrow> (step_env \<times> iface_read) list
     \<Rightarrow> (('p, 'i) device \<times> dev_out list \<times> action) option" where
  "iface_handler pq c ci d input = do {
     udp4 \<leftarrow> dv_udp4 d;
     udp6 \<leftarrow> dv_udp6 d;
     iface_loop pq c ci udp4 udp6 MAX_ITR d input
   }"

end
