(* ===== verification/Device_Invariants.thy ===== *)
theory Device_Invariants
  imports Device
begin

text \<open>
  Invariants of a device. The handlers change the tunnels of the peers only through the operations of
  a tunnel, so every invariant of the interface \<open>tunnel_invariant\<close> is kept for every peer; the tables
  of the peers stay consistent.
\<close>

section \<open>What the handlers leave alone\<close>

definition tunnel_at :: "('p, 'i) device \<Rightarrow> nat \<Rightarrow> tunn" where
  "tunnel_at d a = pr_tunnel (dv_store d ! a)"

definition peer_frame :: "'p peer \<Rightarrow> 'p peer \<Rightarrow> bool" where
  "peer_frame p p' \<longleftrightarrow> pr_index p' = pr_index p \<and> pr_allowed_ips p' = pr_allowed_ips p \<and> pr_preshared_key p' = pr_preshared_key p"

text \<open>A change of peers and limiters only, that keeps the invariant \<open>I\<close> of each tunnel.\<close>

definition keeps :: "(tunn \<Rightarrow> bool) \<Rightarrow> ('p, 'i) device \<Rightarrow> ('p, 'i) device \<Rightarrow> bool" where
  "keeps I d d' \<longleftrightarrow> d' = d\<lparr> dv_store := dv_store d', dv_limiters := dv_limiters d' \<rparr> \<and>
     length (dv_store d') = length (dv_store d) \<and>
     (\<forall>a < length (dv_store d). peer_frame (dv_store d ! a) (dv_store d' ! a) \<and> (I (tunnel_at d a) \<longrightarrow> I (tunnel_at d' a)))"

lemma peer_frame_simps [simp]:
  "peer_frame p p" "peer_frame p (p'\<lparr> pr_tunnel := t \<rparr>) \<longleftrightarrow> peer_frame p p'" "peer_frame p (p'\<lparr> pr_endpoint := e \<rparr>) \<longleftrightarrow> peer_frame p p'"
  by (simp_all add: peer_frame_def)

lemma keeps_refl [simp]: "keeps I d d"
  by (simp add: keeps_def)

lemma keeps_trans [trans]:
  assumes "keeps I d d'" and "keeps I d' d''"
  shows "keeps I d d''"
proof -
  have "d'' = d'\<lparr> dv_store := dv_store d'', dv_limiters := dv_limiters d'' \<rparr>"
    "d' = d\<lparr> dv_store := dv_store d', dv_limiters := dv_limiters d' \<rparr>" using assms by (simp_all add: keeps_def)
  then have "d'' = d\<lparr> dv_store := dv_store d'', dv_limiters := dv_limiters d'' \<rparr>" by (cases d; cases d'; cases d'') simp
  with assms show ?thesis by (auto simp: keeps_def peer_frame_def)
qed

lemma keeps_fields:
  assumes "keeps I d d'"
  shows "dv_mtu d' = dv_mtu d" "dv_peers d' = dv_peers d" "dv_peers_by_idx d' = dv_peers_by_idx d" "dv_peers_by_ip d' = dv_peers_by_ip d"
    "dv_next_index d' = dv_next_index d" "dv_key_pair d' = dv_key_pair d" "dv_rate_limiter d' = dv_rate_limiter d"
    "length (dv_store d') = length (dv_store d)" "dv_udp4 d' = dv_udp4 d" "dv_udp6 d' = dv_udp6 d"
    "dv_use_connected_socket d' = dv_use_connected_socket d"
proof -
  have e: "d' = d\<lparr> dv_store := dv_store d', dv_limiters := dv_limiters d' \<rparr>" using assms by (simp add: keeps_def)
  show "dv_mtu d' = dv_mtu d" "dv_peers d' = dv_peers d" "dv_peers_by_idx d' = dv_peers_by_idx d" "dv_peers_by_ip d' = dv_peers_by_ip d"
    "dv_next_index d' = dv_next_index d" "dv_key_pair d' = dv_key_pair d" "dv_rate_limiter d' = dv_rate_limiter d"
    "dv_udp4 d' = dv_udp4 d" "dv_udp6 d' = dv_udp6 d" "dv_use_connected_socket d' = dv_use_connected_socket d"
    by (subst e, simp)+
  show "length (dv_store d') = length (dv_store d)" using assms by (simp add: keeps_def)
qed

lemma keeps_index: "keeps I d d' \<Longrightarrow> map pr_index (dv_store d') = map pr_index (dv_store d)"
  by (auto simp: keeps_def peer_frame_def intro!: nth_equalityI)

lemma nth_update_cases: "xs[a := p] ! b = (if a = b \<and> a < length xs then p else xs ! b)"
  by (cases "a < length xs") (simp_all add: nth_list_update list_update_beyond)

lemma keeps_put:
  assumes "peer_frame (dv_store d ! a) p" and "I (tunnel_at d a) \<Longrightarrow> I (pr_tunnel p)"
  shows "keeps I d (put_peer (d\<lparr> dv_limiters := h \<rparr>) a p)" and "keeps I d (put_peer d a p)"
  using assms by (auto simp: keeps_def put_peer_def tunnel_at_def nth_update_cases)

lemma keeps_limiters: "keeps I d (d\<lparr> dv_limiters := h \<rparr>)"
  by (simp add: keeps_def tunnel_at_def)

lemma shutdown_endpoint_frame: "shutdown_endpoint os p = Some p' \<Longrightarrow> peer_frame p p' \<and> pr_tunnel p' = pr_tunnel p"
  by (auto simp: shutdown_endpoint_def split: option.splits if_splits)

lemma set_endpoint_frame: "set_endpoint os p a = Some p' \<Longrightarrow> peer_frame p p' \<and> pr_tunnel p' = pr_tunnel p"
  by (auto simp: set_endpoint_def Let_def bind_eq_Some_conv split: option.splits if_splits)

lemma connect_endpoint_frame: "connect_endpoint os p port m = Some (p', s) \<Longrightarrow> peer_frame p p' \<and> pr_tunnel p' = pr_tunnel p"
  by (auto simp: connect_endpoint_def Let_def bind_eq_Some_conv split: option.splits if_splits)

lemma shutdown_endpoints_keeps: "shutdown_endpoints os d as = Some d' \<Longrightarrow> keeps I d d'"
proof (induction as arbitrary: d)
  case (Cons a as)
  then obtain p where p: "shutdown_endpoint os (dv_store d ! a) = Some p" "shutdown_endpoints os (put_peer d a p) as = Some d'"
    by (auto simp: bind_eq_Some_conv)
  have "keeps I d (put_peer d a p)"
    using shutdown_endpoint_frame [OF p(1)] by (intro keeps_put(2)) (auto simp: tunnel_at_def)
  with Cons.IH [OF p(2)] show ?case by (rule keeps_trans [rotated])
qed simp

text \<open>Induction over the iterations of a flush that ends.\<close>

lemma flush_queue_induct [consumes 1, case_names stop send]:
  assumes "flush_queue pq c envs n h t = Some (h', t', ps)"
    and stop: "\<And>n h t h1 t1 r. decapsulate pq c (ce_rd (envs n)) h t None [] (ce_dst (envs n)) = Some (h1, t1, r) \<Longrightarrow>
      \<forall>p. r \<noteq> WriteToNetwork p \<Longrightarrow> P n h t h1 t1 []"
    and send: "\<And>n h t h1 t1 p h2 t2 ps. decapsulate pq c (ce_rd (envs n)) h t None [] (ce_dst (envs n)) = Some (h1, t1, WriteToNetwork p) \<Longrightarrow>
      P (n + 1) h1 t1 h2 t2 ps \<Longrightarrow> P n h t h2 t2 (p # ps)"
  shows "P n h t h' t' ps"
proof -
  let ?Q = "\<lambda>pq' c' envs' n h t y. pq' = pq \<and> c' = c \<and> envs' = envs \<longrightarrow> (case y of (h', t', ps) \<Rightarrow> P n h t h' t' ps)"
  have "?Q pq c envs n h t (h', t', ps)"
  proof (rule flush_queue.raw_induct [where P = ?Q, OF _ assms(1)])
    fix flush pq' c' envs' n h t y
    assume ih: "\<And>pq' c' envs' n h t y. flush pq' c' envs' n h t = Some y \<Longrightarrow> ?Q pq' c' envs' n h t y"
      and b: "Option.bind (decapsulate pq' c' (ce_rd (envs' n)) h t None [] (ce_dst (envs' n))) (\<lambda>(h, t, r). case r of
          WriteToNetwork p \<Rightarrow> Option.bind (flush pq' c' envs' (n + 1) h t) (\<lambda>(h, t, ps). Some (h, t, p # ps))
        | _ \<Rightarrow> Some (h, t, [])) = Some y"
    show "?Q pq' c' envs' n h t y"
    proof (intro impI)
      assume e: "pq' = pq \<and> c' = c \<and> envs' = envs"
      with b obtain h1 t1 r where d: "decapsulate pq c (ce_rd (envs n)) h t None [] (ce_dst (envs n)) = Some (h1, t1, r)"
        by (auto simp: bind_eq_Some_conv)
      show "case y of (h', t', ps) \<Rightarrow> P n h t h' t' ps"
      proof (cases "\<exists>p. r = WriteToNetwork p")
        case True
        then obtain p where r: "r = WriteToNetwork p" by blast
        with b d e obtain h2 t2 ps where f: "flush pq c envs (n + 1) h1 t1 = Some (h2, t2, ps)" "y = (h2, t2, p # ps)"
          by (auto simp: bind_eq_Some_conv)
        with ih [OF f(1)] send [OF d [unfolded r]] show ?thesis by simp
      next
        case False
        with b d e have "y = (h1, t1, [])" by (cases r) auto
        with stop [OF d] False show ?thesis by simp
      qed
    qed
  qed
  then show ?thesis by simp
qed

text \<open>The readings of a step are admissible for the invariant.\<close>

definition env_ok :: "(instant \<Rightarrow> bool) \<Rightarrow> step_env \<Rightarrow> bool" where
  "env_ok ok se \<longleftrightarrow> ok (rd_time (ce_rd (se_handle se))) \<and> ok (rd_clear (ce_rd (se_handle se))) \<and>
     (\<forall>n. ok (rd_clear (ce_rd (se_flush se n))))"

context tunnel_invariant
begin

lemma flush_inv:
  assumes "flush_queue pq c envs n heap t = Some (heap', t', ps)" and "I t" and "\<And>n. ok (rd_clear (ce_rd (envs n)))"
  shows "I t'"
  using assms(1,2)
proof (induction rule: flush_queue_induct)
  case (stop n h t h1 t1 r)
  then show ?case using decapsulate_inv assms(3) by blast
next
  case (send n h t h1 t1 p h2 t2 ps)
  then show ?case using decapsulate_inv assms(3) by blast
qed

lemma handled_keeps:
  assumes "I (tunnel_at d a) \<Longrightarrow> I t"
    and "(case r of WriteToNetwork x \<Rightarrow> flush_queue pq c (se_flush se) 0 heap t | _ \<Rightarrow> Some (heap, t, [])) = Some (heap', t', ps)"
    and "env_ok ok se"
  shows "I (tunnel_at d a) \<Longrightarrow> I t'"
  using assms by (auto simp: env_ok_def intro: flush_inv split: tunn_result.splits)

lemma conn_step_keeps:
  assumes "conn_step pq c cp se a udp ip d pkt = Some (d', out)" and "env_ok ok se"
  shows "keeps I d d'"
proof -
  from assms(1) obtain heap t r where
    d: "decapsulate pq c (ce_rd (se_handle se)) (dv_limiters d) (tunnel_at d a) (Some ip) pkt (ce_dst (se_handle se)) = Some (heap, t, r)"
    by (auto simp: conn_step_def Let_def bind_eq_Some_conv tunnel_at_def)
  with assms(1) obtain heap' t' ps where
    f: "(case r of WriteToNetwork x \<Rightarrow> flush_queue pq c (se_flush se) 0 heap t | _ \<Rightarrow> Some (heap, t, [])) = Some (heap', t', ps)"
    and d': "d' = put_peer (d\<lparr> dv_limiters := heap' \<rparr>) a ((dv_store d ! a)\<lparr> pr_tunnel := t' \<rparr>)"
    by (cases r) (auto simp: conn_step_def Let_def bind_eq_Some_conv tunnel_at_def)
  have "I (tunnel_at d a) \<Longrightarrow> I t" using decapsulate_inv [OF d] assms(2) by (auto simp: env_ok_def)
  from handled_keeps [OF this f assms(2)] show ?thesis unfolding d' by (intro keeps_put) auto
qed

lemma udp_finish_keeps:
  assumes "udp_finish pq c cp se udp addr d a p r = Some (d', out)" and "peer_frame (dv_store d ! a) p"
    and "I (tunnel_at d a) \<Longrightarrow> I (pr_tunnel p)" and "env_ok ok se"
  shows "keeps I d d'"
proof -
  from assms(1) obtain heap t ps p1 p2 sock where
    fl: "(case r of WriteToNetwork x \<Rightarrow> flush_queue pq c (se_flush se) 0 (dv_limiters d) (pr_tunnel p)
      | _ \<Rightarrow> Some (dv_limiters d, pr_tunnel p, [])) = Some (heap, t, ps)"
    and p1: "set_endpoint (se_os se) (p\<lparr> pr_tunnel := t \<rparr>) addr = Some p1"
    and p2: "(if dv_use_connected_socket d then connect_endpoint (se_os se) p1 (dv_listen_port d) (dv_fwmark d) else Some (p1, None)) = Some (p2, sock)"
    and d': "d' = put_peer (d\<lparr> dv_limiters := heap \<rparr>) a p2"
    by (auto simp: udp_finish_def Let_def bind_eq_Some_conv)
  have "peer_frame p1 p2 \<and> pr_tunnel p2 = pr_tunnel p1"
    using p2 by (auto dest: connect_endpoint_frame split: if_splits)
  then have fr: "peer_frame (dv_store d ! a) p2" "pr_tunnel p2 = t"
    using set_endpoint_frame [OF p1] assms(2) by (auto simp: peer_frame_def)
  have "I (tunnel_at d a) \<Longrightarrow> I t" using handled_keeps [OF assms(3) fl assms(4)] .
  with fr show ?thesis unfolding d' by (intro keeps_put) auto
qed

lemma udp_step_keeps:
  assumes "udp_step pq c cp se udp sk pk rl d pkt addr = Some (d', out, b)" and "env_ok ok se"
  shows "keeps I d d'"
proof -
  obtain rl' v where v: "verify_packet pq c (rlh_at (dv_limiters d) rl) (rd_cookie (ce_rd (se_verify se))) (Some (sa_ip addr)) pkt
    (ce_dst (se_verify se)) = (rl', v)" by fastforce
  define d1 where "d1 = d\<lparr> dv_limiters := rl_store (dv_limiters d) rl rl' \<rparr>"
  have k1: "keeps I d d1" by (simp add: d1_def keeps_limiters)
  note u = assms(1) [unfolded udp_step_def v Let_def prod.case, folded d1_def]
  show ?thesis
  proof (cases v)
    case (Inl e)
    with u k1 show ?thesis by (cases e) auto
  next
    case (Inr p)
    with u obtain found where f: "peer_of_packet c d1 sk pk p = Some found" by (auto simp: bind_eq_Some_conv)
    show ?thesis
    proof (cases found)
      case None
      with u Inr f k1 show ?thesis by simp
    next
      case (Some a)
      with u Inr f obtain t r where h: "handle_verified_packet c (ce_rd (se_handle se)) (tunnel_at d1 a) p (ce_dst (se_handle se)) = Some (t, r)"
        by (auto simp: bind_eq_Some_conv tunnel_at_def)
      have i: "I (tunnel_at d1 a) \<Longrightarrow> I t" using handle_verified_inv [OF h] .
      show ?thesis
      proof (cases "\<exists>e. r = Err e")
        case True
        with u Inr f Some h have "d' = put_peer d1 a ((dv_store d1 ! a)\<lparr> pr_tunnel := t \<rparr>)" by (auto simp: tunnel_at_def)
        with i have "keeps I d1 d'" by (auto intro!: keeps_put)
        with k1 show ?thesis by (rule keeps_trans)
      next
        case False
        with u Inr f Some h have "udp_finish pq c cp se udp addr d1 a ((dv_store d1 ! a)\<lparr> pr_tunnel := t \<rparr>) r = Some (d', out)"
          by (cases r) (auto simp: bind_eq_Some_conv tunnel_at_def)
        from udp_finish_keeps [OF this _ _ assms(2)] i have "keeps I d1 d'" by simp
        with k1 show ?thesis by (rule keeps_trans)
      qed
    qed
  qed
qed

lemma iface_step_keeps:
  assumes "iface_step pq c ci se udp4 udp6 d src = Some (d', out)" and "env_ok ok se" and "fits src"
  shows "keeps I d d'"
proof (cases "dst_address src")
  case None
  with assms(1) show ?thesis by (simp add: iface_step_def)
next
  case (Some x)
  show ?thesis
  proof (cases "allowed_ips_find ci (dv_peers_by_ip d) x")
    case None
    with assms(1) Some show ?thesis by (simp add: iface_step_def)
  next
    case (Some a)
    with assms(1) \<open>dst_address src = Some x\<close> obtain t r where
      e: "encapsulate pq c (ce_rd (se_handle se)) (tunnel_at d a) src (ce_dst (se_handle se)) = Some (t, r)"
      by (auto simp: iface_step_def Let_def bind_eq_Some_conv tunnel_at_def)
    with assms(1) \<open>dst_address src = Some x\<close> Some have d': "d' = put_peer d a ((dv_store d ! a)\<lparr> pr_tunnel := t \<rparr>)"
      by (cases r) (auto simp: iface_step_def Let_def tunnel_at_def split: option.splits)
    have "I (tunnel_at d a) \<Longrightarrow> I t" using encapsulate_inv [OF e] assms(2,3) by (auto simp: env_ok_def)
    then show ?thesis unfolding d' by (intro keeps_put) auto
  qed
qed

lemma tick_peer_keeps:
  assumes "tick_peer pq c se udp4 udp6 d a = Some (d', out)" and "env_ok ok se"
  shows "keeps I d d'"
proof (cases "ep_addr (pr_endpoint (dv_store d ! a))")
  case None
  with assms(1) show ?thesis by (simp add: tick_peer_def)
next
  case (Some x)
  with assms(1) obtain heap t r where
    u: "update_timers pq c (ce_rd (se_handle se)) (dv_limiters d) (tunnel_at d a) (ce_dst (se_handle se)) = Some (heap, t, r)"
    by (auto simp: tick_peer_def peer_update_timers_def Let_def bind_eq_Some_conv tunnel_at_def)
  have i: "I (tunnel_at d a) \<Longrightarrow> I t" using update_timers_inv [OF u] assms(2) by (auto simp: env_ok_def)
  let ?p = "(dv_store d ! a)\<lparr> pr_tunnel := t \<rparr>"
  have "\<exists>p. d' = put_peer (d\<lparr> dv_limiters := heap \<rparr>) a p \<and> peer_frame ?p p \<and> pr_tunnel p = t"
    using assms(1) Some u
    by (auto simp: tick_peer_def peer_update_timers_def Let_def bind_eq_Some_conv tunnel_at_def
        split: tunn_result.splits wireguard_error.splits dest!: shutdown_endpoint_frame)
  then obtain p where "d' = put_peer (d\<lparr> dv_limiters := heap \<rparr>) a p" "peer_frame (dv_store d ! a) p" "pr_tunnel p = t"
    by (auto simp: peer_frame_def)
  with i show ?thesis by (auto intro!: keeps_put)
qed

lemma udp_loop_keeps:
  "udp_loop pq c cp udp sk pk rl n d input = Some (d', outs) \<Longrightarrow> \<forall>(se, x)\<in>set input. env_ok ok se \<Longrightarrow> keeps I d d'"
proof (induction input arbitrary: n d outs)
  case (Cons x input)
  obtain se pkt addr where x: "x = (se, pkt, addr)" by (cases x)
  with Cons.prems(1) obtain d1 out h where u: "udp_step pq c cp se udp sk pk rl d (take MAX_UDP_SIZE pkt) addr = Some (d1, out, h)"
    by (auto simp: bind_eq_Some_conv)
  have k: "keeps I d d1" using udp_step_keeps [OF u] Cons.prems(2) x by simp
  show ?case
  proof (cases "h \<and> n - 1 = 0")
    case True
    with Cons.prems(1) x u k show ?thesis by simp
  next
    case False
    with Cons.prems(1) x u obtain outs' m where "udp_loop pq c cp udp sk pk rl m d1 input = Some (d', outs')"
      by (auto simp: bind_eq_Some_conv Let_def split: if_splits)
    from Cons.IH [OF this] Cons.prems(2) k show ?thesis by (auto intro: keeps_trans)
  qed
qed simp

lemma conn_loop_keeps:
  "conn_loop pq c cp a udp ip n d input = Some (d', outs) \<Longrightarrow> \<forall>(se, x)\<in>set input. env_ok ok se \<Longrightarrow> keeps I d d'"
proof (induction input arbitrary: n d outs)
  case (Cons x input)
  obtain se pkt where x: "x = (se, pkt)" by (cases x)
  with Cons.prems(1) obtain d1 out where u: "conn_step pq c cp se a udp ip d (take MAX_UDP_SIZE pkt) = Some (d1, out)"
    by (auto simp: bind_eq_Some_conv)
  have k: "keeps I d d1" using conn_step_keeps [OF u] Cons.prems(2) x by simp
  show ?case
  proof (cases "n - 1 = 0")
    case True
    with Cons.prems(1) x u k show ?thesis by simp
  next
    case False
    with Cons.prems(1) x u obtain outs' where "conn_loop pq c cp a udp ip (n - 1) d1 input = Some (d', outs')"
      by (auto simp: bind_eq_Some_conv)
    from Cons.IH [OF this] Cons.prems(2) k show ?thesis by (auto intro: keeps_trans)
  qed
qed simp

lemma iface_loop_keeps:
  "iface_loop pq c ci udp4 udp6 n d input = Some (d', outs, act) \<Longrightarrow> \<forall>(se, x)\<in>set input. env_ok ok se \<Longrightarrow>
    (\<And>src. fits (take (dv_mtu d) src)) \<Longrightarrow> keeps I d d'"
proof (induction input arbitrary: n d outs act)
  case Nil
  then show ?case by (cases n) simp_all
next
  case (Cons x input)
  obtain se r where x: "x = (se, r)" by (cases x)
  show ?case
  proof (cases "n = 0 \<or> r = IfaceBlock \<or> r = IfaceError")
    case True
    with Cons.prems(1) x show ?thesis by (cases n) (auto split: if_splits)
  next
    case False
    then obtain m src where n: "n = Suc m" "r = IfacePacket src" by (cases n; cases r) auto
    with Cons.prems(1) x obtain d1 out outs' act' where
      u: "iface_step pq c ci se udp4 udp6 d (take (dv_mtu d) src) = Some (d1, out)"
      "iface_loop pq c ci udp4 udp6 m d1 input = Some (d', outs', act')"
      by (auto simp: bind_eq_Some_conv split: if_splits)
    have k: "keeps I d d1" using iface_step_keeps [OF u(1)] Cons.prems(2,3) x by simp
    then have "dv_mtu d1 = dv_mtu d" by (rule keeps_fields)
    with Cons.IH [OF u(2)] Cons.prems(2,3) k show ?thesis by (auto intro: keeps_trans)
  qed
qed

lemma tick_peers_keeps:
  "tick_peers pq c envs udp4 udp6 d as = Some (d', outs) \<Longrightarrow> \<forall>a\<in>set as. env_ok ok (envs a) \<Longrightarrow> keeps I d d'"
proof (induction as arbitrary: d outs)
  case (Cons a as)
  then obtain d1 out outs' where t: "tick_peer pq c (envs a) udp4 udp6 d a = Some (d1, out)"
    "tick_peers pq c envs udp4 udp6 d1 as = Some (d', outs')" by (auto simp: bind_eq_Some_conv)
  have "keeps I d d1" using tick_peer_keeps [OF t(1)] Cons.prems(2) by simp
  with Cons.IH [OF t(2)] Cons.prems(2) show ?case by (auto intro: keeps_trans)
qed simp

lemma set_static_privates_keeps:
  "set_static_privates c nr d sk pk rl as = Some d' \<Longrightarrow> length pk = 32 \<Longrightarrow> keeps I d d'"
proof (induction as arbitrary: d)
  case (Cons a as)
  then obtain heap t where t: "tunn_set_static_private c nr (dv_limiters d) (tunnel_at d a) sk pk (Some rl) = Some (heap, t)"
    and d: "set_static_privates c nr (put_peer (d\<lparr> dv_limiters := heap \<rparr>) a ((dv_store d ! a)\<lparr> pr_tunnel := t \<rparr>)) sk pk rl as = Some d'"
    by (auto simp: bind_eq_Some_conv Let_def tunnel_at_def)
  have "keeps I d (put_peer (d\<lparr> dv_limiters := heap \<rparr>) a ((dv_store d ! a)\<lparr> pr_tunnel := t \<rparr>))"
    using set_static_private_inv [OF t] Cons.prems(2) by (intro keeps_put) auto
  with Cons.IH [OF d] Cons.prems(2) show ?case by (auto intro: keeps_trans)
qed simp

end

section \<open>The invariant of a device\<close>

definition peer_key :: "('p, 'i) device \<Rightarrow> nat \<Rightarrow> bytes" where
  "peer_key d a = np_peer_static_public (hs_params (tn_handshake (tunnel_at d a)))"

text \<open>The tunnels: well-formed at the time \<open>T\<close>, with queued packets of at most \<open>M\<close> bytes, and with
  session indices that have the index of the peer as their upper 24 bits.\<close>

definition tunnel_inv :: "instant \<Rightarrow> nat \<Rightarrow> u32 \<Rightarrow> bytes \<Rightarrow> tunn \<Rightarrow> bool" where
  "tunnel_inv T M n k t \<longleftrightarrow> tunn_wf T t \<and> queue_inv M t \<and> own_inv n k t"

text \<open>The indices of the peers are the numbers drawn from the register so far.\<close>

definition index_inv :: "('p, 'i) device \<Rightarrow> bool" where
  "index_inv d \<longleftrightarrow> (\<exists>rng l rng'. index_lfsr_default rng = Some (l, rng') \<and>
     draw_indices (length (dv_store d)) l = Some (dv_next_index d, map pr_index (dv_store d)))"

text \<open>The tables: every key leads to a peer with this key, the table of indices has exactly the
  peers of the table of keys under their indices, and routes lead to peers of the table of keys.\<close>

definition tables_inv :: "('i \<Rightarrow> net_prefix \<rightharpoonup> nat) \<Rightarrow> ('p, 'i) device \<Rightarrow> bool" where
  "tables_inv routes d \<longleftrightarrow>
     (\<forall>k a. dv_peers d k = Some a \<longrightarrow> a < length (dv_store d) \<and> peer_key d a = k) \<and>
     (\<forall>i a. dv_peers_by_idx d i = Some a \<longleftrightarrow> a \<in> ran (dv_peers d) \<and> pr_index (dv_store d ! a) = i) \<and>
     ran (routes (dv_peers_by_ip d)) \<subseteq> ran (dv_peers d) \<and>
     (dv_rate_limiter d = None \<longleftrightarrow> dv_key_pair d = None)"

definition dev_wf :: "('i \<Rightarrow> net_prefix \<rightharpoonup> nat) \<Rightarrow> nat \<Rightarrow> instant \<Rightarrow> ('p, 'i) device \<Rightarrow> bool" where
  "dev_wf routes M T d \<longleftrightarrow> instant_wf T \<and> dv_mtu d \<le> M \<and> index_inv d \<and> tables_inv routes d \<and>
     (\<forall>a < length (dv_store d). tunnel_inv T M (pr_index (dv_store d ! a)) (peer_key d a) (tunnel_at d a))"

definition later :: "instant \<Rightarrow> instant \<Rightarrow> bool" where
  "later T T' \<longleftrightarrow> instant_wf T' \<and> to_ns T \<le> to_ns T'"

definition keeps_all :: "nat \<Rightarrow> instant \<Rightarrow> ('p, 'i) device \<Rightarrow> ('p, 'i) device \<Rightarrow> bool" where
  "keeps_all M T d d' \<longleftrightarrow> keeps ring_inv d d' \<and> keeps hs_inv d d' \<and> keeps (clock_inv T) d d' \<and> keeps (queue_inv M) d d' \<and>
     (\<forall>n k. keeps (own_inv n k) d d')"

lemma tunn_wf_mono: "tunn_wf T t \<Longrightarrow> later T T' \<Longrightarrow> tunn_wf T' t"
  using clock_inv_mono by (auto simp: tunn_wf_def later_def)

lemma keepsD:
  "keeps I d d' \<Longrightarrow> a < length (dv_store d) \<Longrightarrow> I (tunnel_at d a) \<Longrightarrow> I (tunnel_at d' a)"
  by (simp add: keeps_def)

lemma keeps_all_tunnel:
  assumes "keeps_all M T' d d'" and "a < length (dv_store d)" and "later T T'" and "tunnel_inv T M n k (tunnel_at d a)"
  shows "tunnel_inv T' M n k (tunnel_at d' a)"
proof -
  have k: "keeps ring_inv d d'" "keeps hs_inv d d'" "keeps (clock_inv T') d d'" "keeps (queue_inv M) d d'" "keeps (own_inv n k) d d'"
    using assms(1) by (simp_all add: keeps_all_def)
  have t: "tunn_wf T' (tunnel_at d a)" "queue_inv M (tunnel_at d a)" "own_inv n k (tunnel_at d a)"
    using assms(3,4) tunn_wf_mono by (auto simp: tunnel_inv_def)
  show ?thesis
    using t k [THEN keepsD, OF assms(2)] by (auto simp: tunnel_inv_def tunn_wf_def)
qed

lemma tunnel_inv_key: "tunnel_inv T M n k t \<Longrightarrow> np_peer_static_public (hs_params (tn_handshake t)) = k"
  by (simp add: tunnel_inv_def own_inv_def)

lemma keeps_all_wf:
  assumes "keeps_all M T' d d'" and "dev_wf routes M T d" and "later T T'"
  shows "dev_wf routes M T' d'"
proof -
  have k: "keeps ring_inv d d'" using assms(1) by (simp add: keeps_all_def)
  note f = keeps_fields [OF k]
  have idx: "pr_index (dv_store d' ! a) = pr_index (dv_store d ! a)" if "a < length (dv_store d)" for a
    using k that by (simp add: keeps_def peer_frame_def)
  have t: "tunnel_inv T' M (pr_index (dv_store d ! a)) (peer_key d a) (tunnel_at d' a)" if "a < length (dv_store d)" for a
    using keeps_all_tunnel [OF assms(1) that assms(3)] assms(2) that by (simp add: dev_wf_def)
  have key: "peer_key d' a = peer_key d a" if "a < length (dv_store d)" for a
    using tunnel_inv_key [OF t [OF that]] by (simp add: peer_key_def)
  have lt: "\<And>a. a \<in> ran (dv_peers d) \<Longrightarrow> a < length (dv_store d)"
    using assms(2) by (auto simp: dev_wf_def tables_inv_def ran_def)
  have "tables_inv routes d'"
    using assms(2) idx key lt unfolding dev_wf_def tables_inv_def f by auto
  moreover have "index_inv d'" using assms(2) keeps_index [OF k] f by (simp add: dev_wf_def index_inv_def)
  ultimately show ?thesis using assms(2,3) t idx key f by (simp add: dev_wf_def later_def)
qed

lemma env_ok_True: "env_ok (\<lambda>_. True) se"
  by (simp add: env_ok_def)

lemma keeps_all_refl [simp]: "keeps_all M T d d"
  by (simp add: keeps_all_def)

lemma keeps_all_trans: "keeps_all M T d d' \<Longrightarrow> keeps_all M T d' d'' \<Longrightarrow> keeps_all M T d d''"
  unfolding keeps_all_def by (meson keeps_trans)

lemma keeps_all_limiters: "keeps_all M T d (d\<lparr> dv_limiters := h \<rparr>)"
  by (simp add: keeps_all_def keeps_limiters)

lemma shutdown_endpoints_all: "shutdown_endpoints os d as = Some d' \<Longrightarrow> keeps_all M T d d'"
  by (simp add: keeps_all_def shutdown_endpoints_keeps)

lemma udp_handler_all:
  assumes "udp_handler pq c cp udp d input = Some (d', outs, act)" and "\<forall>(se, x)\<in>set input. env_ok (not_later T) se"
  shows "keeps_all M T d d'"
proof -
  from assms(1) obtain sk pk rl where u: "udp_loop pq c cp udp sk pk rl MAX_ITR d input = Some (d', outs)"
    by (auto simp: udp_handler_def bind_eq_Some_conv)
  show ?thesis unfolding keeps_all_def
    using ring.udp_loop_keeps [OF u] hsk.udp_loop_keeps [OF u] clk.udp_loop_keeps [OF u assms(2)] que.udp_loop_keeps [OF u]
      own.udp_loop_keeps [OF u] by (simp add: env_ok_True split_def)
qed

lemma conn_handler_all:
  assumes "conn_handler pq c cp a udp ip d input = Some (d', outs, act)" and "\<forall>(se, x)\<in>set input. env_ok (not_later T) se"
  shows "keeps_all M T d d'"
proof -
  from assms(1) have u: "conn_loop pq c cp a udp ip MAX_ITR d input = Some (d', outs)"
    by (auto simp: conn_handler_def bind_eq_Some_conv)
  show ?thesis unfolding keeps_all_def
    using ring.conn_loop_keeps [OF u] hsk.conn_loop_keeps [OF u] clk.conn_loop_keeps [OF u assms(2)] que.conn_loop_keeps [OF u]
      own.conn_loop_keeps [OF u] by (simp add: env_ok_True split_def)
qed

lemma iface_handler_all:
  assumes "iface_handler pq c ci d input = Some (d', outs, act)" and "\<forall>(se, x)\<in>set input. env_ok (not_later T) se"
    and "dv_mtu d \<le> M"
  shows "keeps_all M T d d'"
proof -
  from assms(1) obtain udp4 udp6 where u: "iface_loop pq c ci udp4 udp6 MAX_ITR d input = Some (d', outs, act)"
    by (auto simp: iface_handler_def bind_eq_Some_conv)
  show ?thesis unfolding keeps_all_def
    using ring.iface_loop_keeps [OF u] hsk.iface_loop_keeps [OF u] clk.iface_loop_keeps [OF u assms(2)]
      que.iface_loop_keeps [OF u] own.iface_loop_keeps [OF u] assms(3) by (simp add: env_ok_True split_def)
qed

lemma peers_timer_all:
  assumes "peers_timer pq c envs order d = Some (d', outs, act)" and "\<forall>a. env_ok (not_later T) (envs a)"
  shows "keeps_all M T d d'"
proof (cases "dv_udp4 d = None \<or> dv_udp6 d = None")
  case True
  with assms(1) show ?thesis by (auto simp: peers_timer_def split: option.splits)
next
  case False
  with assms(1) obtain udp4 udp6 as where u: "tick_peers pq c envs udp4 udp6 d as = Some (d', outs)"
    by (auto simp: peers_timer_def bind_eq_Some_conv)
  show ?thesis unfolding keeps_all_def
    using ring.tick_peers_keeps [OF u] hsk.tick_peers_keeps [OF u] clk.tick_peers_keeps [OF u] que.tick_peers_keeps [OF u]
      own.tick_peers_keeps [OF u] assms(2) by (simp add: env_ok_True)
qed

lemma set_static_privates_all:
  assumes "set_static_privates c nr d sk pk rl as = Some d'" and "length pk = 32"
  shows "keeps_all M T d d'"
  unfolding keeps_all_def
  using ring.set_static_privates_keeps [OF assms] hsk.set_static_privates_keeps [OF assms] clk.set_static_privates_keeps [OF assms]
    que.set_static_privates_keeps [OF assms] own.set_static_privates_keeps [OF assms] by blast

section \<open>Configuration\<close>

lemma dev_wf_facts:
  assumes "dev_wf routes M T d"
  shows "tables_inv routes d" "index_inv d" "instant_wf T" "dv_mtu d \<le> M"
    "\<And>a. a < length (dv_store d) \<Longrightarrow> tunnel_inv T M (pr_index (dv_store d ! a)) (peer_key d a) (tunnel_at d a)"
    "\<And>k a. dv_peers d k = Some a \<Longrightarrow> a < length (dv_store d)"
    "\<And>k a. dv_peers d k = Some a \<Longrightarrow> peer_key d a = k"
  using assms by (auto simp: dev_wf_def tables_inv_def)

lemma index_inv_distinct:
  assumes "index_inv d"
  shows "distinct (map pr_index (dv_store d))" and "\<forall>p\<in>set (dv_store d). pr_index p < 2 ^ 24"
proof -
  from assms obtain rng l rng' where "index_lfsr_default rng = Some (l, rng')"
    "draw_indices (length (dv_store d)) l = Some (dv_next_index d, map pr_index (dv_store d))" by (auto simp: index_inv_def)
  from drawn_indices [OF this] show "distinct (map pr_index (dv_store d))" and "\<forall>p\<in>set (dv_store d). pr_index p < 2 ^ 24" by auto
qed

lemma insert_all_cidr:
  assumes "ip_crate_ok cr routes" and "insert_all cr t xs = Some t'"
  shows "\<forall>(ip, d)\<in>set xs. cidr_ok ip"
  using assms(2)
proof (induction xs arbitrary: t)
  case (Cons x xs)
  obtain ip d where x: "x = (ip, d)" by (cases x)
  with Cons.prems obtain t1 y where i: "allowed_ips_insert cr t (aip_addr ip) (ucast (aip_cidr ip)) d = Some (t1, y)"
    "insert_all cr t1 xs = Some t'" by (auto simp: bind_eq_Some_conv)
  from i(1) insert_abs(1) [OF assms(1), of t "aip_addr ip" "ucast (aip_cidr ip)" d] have "cidr_ok ip"
    by (simp add: cidr_ok_def split: if_splits)
  with Cons.IH [OF i(2)] x show ?case by simp
qed simp

lemma insert_all_ran:
  assumes "ip_crate_ok cr routes" and "insert_all cr t (map (\<lambda>ip. (ip, a)) ips) = Some t'"
  shows "ran (routes t') \<subseteq> insert a (ran (routes t))"
proof -
  let ?xs = "map (\<lambda>ip. (ip, a)) ips"
  from insert_all_abs [OF assms(1) insert_all_cidr [OF assms], of t] assms(2)
  have r: "routes t' = routes t ++ map_of (rev (map (\<lambda>(ip, d). (ip_prefix ip, d)) ?xs))" by simp
  have "map_of (rev (map (\<lambda>(ip, d). (ip_prefix ip, d)) ?xs)) q = Some b \<Longrightarrow> b = a" for q b
    by (drule map_of_SomeD) auto
  then show ?thesis unfolding r by (auto simp: ran_def map_add_Some_iff)
qed

lemma handshake_new_fields:
  assumes "handshake_new c st now sk pk peer idx psk = Some h"
  shows "hs_next_index h = idx" "hs_state h = HsNone" "hs_previous h = HsNone" "np_peer_static_public (hs_params h) = peer"
    "ck_last_mac1 (hs_cookies h) = None"
  using assms by (auto simp: handshake_new_def noise_params_new_def bind_eq_Some_conv)

lemma tunn_new_own:
  assumes "tunn_new c nr heap sk k psk ka idx rl = Some (heap', t)" and "idx < 2 ^ 24"
  shows "own_inv idx k t" and "queue_inv M t"
proof -
  note f = tunn_new_fields [OF assms(1)]
  have "take_bit 24 idx = idx" using assms(2) by (simp only: less_24)
  moreover have "drop_bit 8 (push_bit 8 idx) = take_bit 24 idx"
    by (rule bit_word_eqI) (auto simp: bit_simps)
  ultimately have "drop_bit 8 (push_bit 8 idx) = idx" by simp
  then show "own_inv idx k t" using f(1-3) handshake_new_fields [OF f(5)] by (simp add: own_inv_def own_indices_def)
  show "queue_inv M t" using f(3) by (simp add: queue_inv_def)
qed

lemma device_new_wf:
  assumes "device_new ci rng heap b mtu = Some d" and "ip_crate_ok ci routes" and "instant_wf T" and "mtu \<le> M"
  shows "dev_wf routes M T d"
proof -
  from assms(1) obtain l rng' where "index_lfsr_default rng = Some (l, rng')" "dv_next_index d = l"
    "dv_store d = []" "dv_peers d = Map.empty" "dv_peers_by_idx d = Map.empty" "dv_peers_by_ip d = tbl_new ci"
    "dv_rate_limiter d = None" "dv_key_pair d = None" "dv_mtu d = mtu"
    by (auto simp: device_new_def allowed_ips_new_def bind_eq_Some_conv)
  moreover have "routes (tbl_new ci) = Map.empty" using assms(2) by (simp add: ip_crate_ok_def)
  ultimately show ?thesis using assms(3,4) by (auto simp: dev_wf_def index_inv_def tables_inv_def)
qed

lemma same_peers_wf:
  assumes "dev_wf routes M T d" and "dv_store d' = dv_store d" and "dv_peers d' = dv_peers d"
    "dv_peers_by_idx d' = dv_peers_by_idx d" "dv_peers_by_ip d' = dv_peers_by_ip d" "dv_next_index d' = dv_next_index d"
    and "dv_rate_limiter d' = None \<longleftrightarrow> dv_key_pair d' = None" and "dv_mtu d' \<le> M"
  shows "dev_wf routes M T d'"
  using assms by (simp add: dev_wf_def index_inv_def tables_inv_def peer_key_def tunnel_at_def)

lemma remove_peer_wf:
  assumes "remove_peer ci os d k = Some d'" and "ip_crate_ok ci routes" and "dev_wf routes M T d"
  shows "dev_wf routes M T d'"
proof (cases "dv_peers d k")
  case None
  with assms(1,3) show ?thesis by (simp add: remove_peer_def)
next
  case (Some a)
  with assms(1) obtain p where p: "shutdown_endpoint os (dv_store d ! a) = Some p"
    and d': "d' = d\<lparr> dv_store := (dv_store d)[a := p], dv_peers := (dv_peers d)(k := None),
      dv_peers_by_idx := (dv_peers_by_idx d)(pr_index p := None),
      dv_peers_by_ip := allowed_ips_remove ci (dv_peers_by_ip d) (\<lambda>q. a = q) \<rparr>"
    by (auto simp: remove_peer_def Let_def bind_eq_Some_conv put_peer_def)
  note wf = dev_wf_facts [OF assms(3)]
  have fr: "pr_index p = pr_index (dv_store d ! a)" "pr_tunnel p = pr_tunnel (dv_store d ! a)"
    using shutdown_endpoint_frame [OF p] by (auto simp: peer_frame_def)
  have idx: "pr_index (dv_store d' ! b) = pr_index (dv_store d ! b)" "tunnel_at d' b = tunnel_at d b" "peer_key d' b = peer_key d b" for b
    using fr by (auto simp: d' nth_update_cases tunnel_at_def peer_key_def)
  have key: "q = k" if "dv_peers d q = Some a" for q using wf(7) [OF that] wf(7) [OF Some] by simp
  have ran: "ran ((dv_peers d)(k := None)) = ran (dv_peers d) - {a}"
  proof (intro equalityI subsetI)
    fix b assume "b \<in> ran (dv_peers d) - {a}"
    then obtain q where "dv_peers d q = Some b" "b \<noteq> a" by (auto simp: ran_def)
    with Some have "((dv_peers d)(k := None)) q = Some b" by auto
    then show "b \<in> ran ((dv_peers d)(k := None))" by (rule ranI)
  next
    fix b assume "b \<in> ran ((dv_peers d)(k := None))"
    then obtain q where "dv_peers d q = Some b" "q \<noteq> k" by (auto simp: ran_def split: if_splits)
    with key show "b \<in> ran (dv_peers d) - {a}" by (auto simp: ran_def)
  qed
  have uniq: "b = a" if "b \<in> ran (dv_peers d)" "pr_index (dv_store d ! b) = pr_index (dv_store d ! a)" for b
  proof -
    have "a < length (dv_store d)" "b < length (dv_store d)" using wf(6) Some that(1) by (auto simp: ran_def)
    with nth_eq_iff_index_eq [OF index_inv_distinct(1) [OF wf(2)], of b a] that(2) show ?thesis by simp
  qed
  have tbl: "routes (dv_peers_by_ip d') = (\<lambda>q. case routes (dv_peers_by_ip d) q of Some b \<Rightarrow> if b \<noteq> a then Some b else None | None \<Rightarrow> None)"
  proof -
    have "routes (tbl_retain ci (\<lambda>_. f) t) = (\<lambda>p. case routes t p of Some d \<Rightarrow> if f d then Some d else None | None \<Rightarrow> None)" for f t
      using assms(2) unfolding ip_crate_ok_def by blast
    then show ?thesis by (simp add: d' allowed_ips_remove_def eq_commute)
  qed
  have "\<forall>i b. dv_peers_by_idx d' i = Some b \<longleftrightarrow> b \<in> ran (dv_peers d') \<and> pr_index (dv_store d' ! b) = i"
  proof (intro allI)
    fix i b
    have "dv_peers_by_idx d' i = Some b \<longleftrightarrow> i \<noteq> pr_index (dv_store d ! a) \<and> dv_peers_by_idx d i = Some b"
      by (simp add: d' fr)
    also have "\<dots> \<longleftrightarrow> i \<noteq> pr_index (dv_store d ! a) \<and> b \<in> ran (dv_peers d) \<and> pr_index (dv_store d ! b) = i"
      using wf(1) by (simp add: tables_inv_def)
    also have "\<dots> \<longleftrightarrow> b \<in> ran (dv_peers d) - {a} \<and> pr_index (dv_store d ! b) = i"
      using uniq by auto
    also have "\<dots> \<longleftrightarrow> b \<in> ran (dv_peers d') \<and> pr_index (dv_store d' ! b) = i" unfolding idx using ran by (simp add: d')
    finally show "dv_peers_by_idx d' i = Some b \<longleftrightarrow> b \<in> ran (dv_peers d') \<and> pr_index (dv_store d' ! b) = i" .
  qed
  moreover have "ran (routes (dv_peers_by_ip d')) \<subseteq> ran (dv_peers d')"
  proof -
    have "ran (routes (dv_peers_by_ip d')) \<subseteq> ran (routes (dv_peers_by_ip d)) - {a}"
    proof
      fix b assume "b \<in> ran (routes (dv_peers_by_ip d'))"
      then obtain q where "routes (dv_peers_by_ip d') q = Some b" by (auto simp: ran_def)
      then have "routes (dv_peers_by_ip d) q = Some b" "b \<noteq> a" unfolding tbl by (auto split: option.splits if_splits)
      then show "b \<in> ran (routes (dv_peers_by_ip d)) - {a}" by (auto intro: ranI)
    qed
    moreover have "ran (routes (dv_peers_by_ip d)) \<subseteq> ran (dv_peers d)" using wf(1) by (simp add: tables_inv_def)
    ultimately show ?thesis using ran by (auto simp: d')
  qed
  moreover have "\<forall>k b. dv_peers d' k = Some b \<longrightarrow> b < length (dv_store d') \<and> peer_key d' b = k"
    using wf(6,7) idx(3) by (auto simp: d' split: if_splits)
  ultimately have "tables_inv routes d'" using wf(1) by (simp add: tables_inv_def d')
  moreover have "index_inv d'"
  proof -
    have "map pr_index (dv_store d') = map pr_index (dv_store d)" using idx(1) by (intro nth_equalityI) (simp_all add: d')
    then show ?thesis using wf(2) by (simp add: index_inv_def d')
  qed
  ultimately show ?thesis using wf(3-5) idx by (simp add: dev_wf_def d')
qed

lemma clear_peers_wf:
  assumes "ip_crate_ok ci routes" and "dev_wf routes M T d"
  shows "dev_wf routes M T (clear_peers ci d)"
proof -
  have "routes (tbl_new ci) = Map.empty" using assms(1) by (simp add: ip_crate_ok_def)
  with assms(2) show ?thesis
    by (simp add: clear_peers_def Let_def allowed_ips_clear_def dev_wf_def tables_inv_def index_inv_def peer_key_def tunnel_at_def)
qed

lemma update_peer_fields:
  assumes "update_peer cp ci c nr os d k False rip ep ips ka psk = Some d'"
  obtains idx sk pk heap t p tbl where "index_lfsr_next (dv_next_index d) = Some (dv_next_index d', idx)"
    "dv_peers d k = None" "dv_key_pair d = Some (sk, pk)"
    "tunn_new c nr (dv_limiters d) sk k psk ka idx None = Some (heap, t)"
    "peer_new cp t idx ep ips psk = Some p"
    "insert_all ci (dv_peers_by_ip d) (map (\<lambda>ip. (ip, length (dv_store d))) ips) = Some tbl"
    "d' = d\<lparr> dv_next_index := dv_next_index d', dv_limiters := heap, dv_store := dv_store d @ [p],
      dv_peers := (dv_peers d)(k \<mapsto> length (dv_store d)), dv_peers_by_idx := (dv_peers_by_idx d)(idx \<mapsto> length (dv_store d)),
      dv_peers_by_ip := tbl \<rparr>"
proof -
  have k: "dv_peers d k = None" using assms by (auto simp: update_peer_def split: if_splits)
  from assms k obtain lf idx sk pk heap t p tbl where
    f: "index_lfsr_next (dv_next_index d) = Some (lf, idx)" "dv_key_pair d = Some (sk, pk)"
    "tunn_new c nr (dv_limiters d) sk k psk ka idx None = Some (heap, t)"
    "peer_new cp t idx ep ips psk = Some p"
    "insert_all ci (dv_peers_by_ip d) (map (\<lambda>ip. (ip, length (dv_store d))) ips) = Some tbl"
    and d': "d' = d\<lparr> dv_next_index := lf, dv_limiters := heap, dv_store := dv_store d @ [p],
      dv_peers := (dv_peers d)(k \<mapsto> length (dv_store d)), dv_peers_by_idx := (dv_peers_by_idx d)(idx \<mapsto> length (dv_store d)),
      dv_peers_by_ip := tbl \<rparr>"
    by (auto simp: update_peer_def device_next_index_def Let_def bind_eq_Some_conv)
  have lf: "lf = dv_next_index d'" using d' by simp
  show ?thesis by (rule that [OF f(1) [unfolded lf] k f(2-5) d' [unfolded lf]])
qed

lemma update_peer_wf:
  assumes "update_peer cp ci c nr os d k rem rip ep ips ka psk = Some d'" and "ip_crate_ok ci routes" and "crypto_ok c"
    and "dev_wf routes M T d" and "instant_wf (nr_timers_now nr)" and "later (nr_timers_now nr) T'" and "later T T'"
  shows "dev_wf routes M T' d'"
proof (cases rem)
  case True
  with assms(1) have "remove_peer ci os d k = Some d'" by (simp add: update_peer_def)
  from remove_peer_wf [OF this assms(2,4)] have "dev_wf routes M T d'" .
  then show ?thesis using keeps_all_wf [OF keeps_all_refl _ assms(7)] by blast
next
  case False
  with assms(1) have "update_peer cp ci c nr os d k False rip ep ips ka psk = Some d'" by simp
  from update_peer_fields [OF this] obtain idx sk pk heap t p tbl where
    f: "index_lfsr_next (dv_next_index d) = Some (dv_next_index d', idx)" "dv_peers d k = None"
    "tunn_new c nr (dv_limiters d) sk k psk ka idx None = Some (heap, t)"
    "peer_new cp t idx ep ips psk = Some p"
    "insert_all ci (dv_peers_by_ip d) (map (\<lambda>ip. (ip, length (dv_store d))) ips) = Some tbl"
    and d': "d' = d\<lparr> dv_next_index := dv_next_index d', dv_limiters := heap, dv_store := dv_store d @ [p],
      dv_peers := (dv_peers d)(k \<mapsto> length (dv_store d)), dv_peers_by_idx := (dv_peers_by_idx d)(idx \<mapsto> length (dv_store d)),
      dv_peers_by_ip := tbl \<rparr>" by metis
  have fields: "dv_store d' = dv_store d @ [p]" "dv_peers d' = (dv_peers d)(k \<mapsto> length (dv_store d))"
    "dv_peers_by_idx d' = (dv_peers_by_idx d)(idx \<mapsto> length (dv_store d))" "dv_peers_by_ip d' = tbl" "dv_mtu d' = dv_mtu d"
    "dv_key_pair d' = dv_key_pair d" "dv_rate_limiter d' = dv_rate_limiter d"
    by (subst d', simp)+
  note wf = dev_wf_facts [OF assms(4)]
  have p: "pr_tunnel p = t" "pr_index p = idx" using f(4) by (auto simp: peer_new_def bind_eq_Some_conv)
  have index: "index_inv d'"
  proof -
    from wf(2) obtain rng l rng' where "index_lfsr_default rng = Some (l, rng')"
      "draw_indices (length (dv_store d)) l = Some (dv_next_index d, map pr_index (dv_store d))" by (auto simp: index_inv_def)
    moreover from draw_indices_snoc [OF this(2) f(1)]
    have "draw_indices (length (dv_store d')) l = Some (dv_next_index d', map pr_index (dv_store d'))"
      by (simp add: fields p del: draw_indices.simps)
    ultimately show ?thesis unfolding index_inv_def by blast
  qed
  have idx: "idx < 2 ^ 24" "idx \<notin> pr_index ` set (dv_store d)"
    using index_inv_distinct [OF index] by (auto simp: fields p)
  have new: "tunnel_inv T' M idx k t"
    using tunn_new_own [OF f(3) idx(1)] tunn_wf_mono [OF tunn_new_wf [OF f(3) assms(5,3)] assms(6)]
    by (simp add: tunnel_inv_def)
  have at: "tunnel_at d' a = (if a = length (dv_store d) then t else tunnel_at d a)"
    "pr_index (dv_store d' ! a) = (if a = length (dv_store d) then idx else pr_index (dv_store d ! a))"
    "peer_key d' a = (if a = length (dv_store d) then k else peer_key d a)" if "a < length (dv_store d')" for a
    using that p tunnel_inv_key [OF new] by (auto simp: fields tunnel_at_def peer_key_def nth_append less_Suc_eq)
  have old: "tunnel_inv T' M (pr_index (dv_store d ! a)) (peer_key d a) (tunnel_at d a)" if "a < length (dv_store d)" for a
    using keeps_all_tunnel [OF keeps_all_refl that assms(7) wf(5) [OF that]] .
  have tunnels: "tunnel_inv T' M (pr_index (dv_store d' ! a)) (peer_key d' a) (tunnel_at d' a)" if "a < length (dv_store d')" for a
    using at [OF that] that old [of a] new by (simp add: fields less_Suc_eq split: if_splits)
  have ran: "ran (dv_peers d') = insert (length (dv_store d)) (ran (dv_peers d))"
    using f(2) by (simp add: fields)
  have lt: "\<And>a. a \<in> ran (dv_peers d) \<Longrightarrow> a < length (dv_store d)" using wf(6) by (auto simp: ran_def)
  have "dv_peers_by_idx d' i = Some a \<longleftrightarrow> a \<in> ran (dv_peers d') \<and> pr_index (dv_store d' ! a) = i" for i a
  proof (cases "i = idx")
    case True
    have "a \<in> ran (dv_peers d) \<Longrightarrow> pr_index (dv_store d ! a) \<noteq> idx" using idx(2) lt nth_mem by fastforce
    then show ?thesis using True lt p by (auto simp: fields ran [unfolded fields] nth_append)
  next
    case False
    have "dv_peers_by_idx d i = Some a \<longleftrightarrow> a \<in> ran (dv_peers d) \<and> pr_index (dv_store d ! a) = i"
      using wf(1) by (simp add: tables_inv_def)
    with False show ?thesis using lt p by (auto simp: fields ran [unfolded fields] nth_append)
  qed
  moreover have "ran (routes (dv_peers_by_ip d')) \<subseteq> ran (dv_peers d')"
    using insert_all_ran [OF assms(2) f(5)] wf(1) ran by (auto simp: fields tables_inv_def)
  moreover have "a < length (dv_store d') \<and> peer_key d' a = q" if "dv_peers d' q = Some a" for q a
  proof (cases "q = k")
    case True
    with that show ?thesis using at(3) [of a] by (simp add: fields)
  next
    case False
    with that wf(6,7) show ?thesis using at(3) [of a] by (fastforce simp: fields)
  qed
  ultimately have "tables_inv routes d'" using wf(1) by (auto simp: tables_inv_def fields)
  with index tunnels show ?thesis using wf(4) assms(7) by (simp add: dev_wf_def later_def fields)
qed

lemma set_key_wf:
  assumes "set_key c nr order d sk = Some d'" and "crypto_ok c" and "dev_wf routes M T d"
  shows "dev_wf routes M T d'"
proof (cases "Some (x25519_public c sk) = map_option snd (dv_key_pair d)")
  case True
  with assms(1,3) show ?thesis by (simp add: set_key_def Let_def)
next
  case False
  with assms(1) obtain heap rl as d1 where
    s: "set_static_privates c nr (d\<lparr> dv_limiters := heap \<rparr>) sk (x25519_public c sk) rl as = Some d1"
    and d': "d' = d1\<lparr> dv_key_pair := Some (sk, x25519_public c sk), dv_rate_limiter := Some rl \<rparr>"
    by (auto simp: set_key_def Let_def bind_eq_Some_conv split: prod.splits)
  have "keeps_all M T d d1"
    using keeps_all_trans [OF keeps_all_limiters set_static_privates_all [OF s crypto_ok_lengths(7) [OF assms(2)]]] .
  moreover have "later T T" using dev_wf_facts(3) [OF assms(3)] by (simp add: later_def)
  ultimately have "dev_wf routes M T d1" using keeps_all_wf assms(3) by blast
  then show ?thesis unfolding d' by (rule same_peers_wf) (use dev_wf_facts(4) [OF \<open>dev_wf routes M T d1\<close>] in simp_all)
qed

lemma open_listen_wf:
  assumes "open_listen_socket os order d port = Some (d', ok)" and "dev_wf routes M T d"
  shows "dev_wf routes M T d'"
proof -
  let ?d0 = "d\<lparr> dv_udp4 := None, dv_udp6 := None \<rparr>"
  from assms(1) obtain d1 where s: "shutdown_endpoints os ?d0 (peer_values ?d0 order) = Some d1"
    by (auto simp: open_listen_socket_def Let_def bind_eq_Some_conv)
  have same: "dv_store d' = dv_store d1" "dv_peers d' = dv_peers d1" "dv_peers_by_idx d' = dv_peers_by_idx d1"
    "dv_peers_by_ip d' = dv_peers_by_ip d1" "dv_next_index d' = dv_next_index d1" "dv_rate_limiter d' = dv_rate_limiter d1"
    "dv_key_pair d' = dv_key_pair d1" "dv_mtu d' = dv_mtu d1"
    using assms(1) s by (auto simp: open_listen_socket_def Let_def bind_eq_Some_conv split: option.splits if_splits)
  have "dev_wf routes M T ?d0"
    using assms(2) by (rule same_peers_wf) (use dev_wf_facts(1,4) [OF assms(2)] in \<open>simp_all add: tables_inv_def\<close>)
  then have wf1: "dev_wf routes M T d1"
    using keeps_all_wf [OF shutdown_endpoints_all [OF s]] dev_wf_facts(3) [OF assms(2)] by (simp add: later_def)
  then show ?thesis by (rule same_peers_wf) (use same dev_wf_facts(1,4) [OF wf1] in \<open>simp_all add: tables_inv_def\<close>)
qed

section \<open>Steps of a device\<close>

text \<open>Every operation of the device and every event its loop handles, with readings of a clock that does
  not go back: the time of the state is not before the readings made so far. \<open>M\<close> bounds the MTU of the
  interface. The order in which a step iterates over the peers lists every key once.\<close>

definition iterates :: "('p, 'i) device \<Rightarrow> bytes list \<Rightarrow> bool" where
  "iterates d order \<longleftrightarrow> distinct order \<and> set order = dom (dv_peers d)"

inductive dev_step ::
  "bool \<Rightarrow> crypto \<Rightarrow> ('n, 'p, unit) ip_crate \<Rightarrow> ('m, 'i, nat) ip_crate \<Rightarrow> nat \<Rightarrow> instant \<times> ('p, 'i) device \<Rightarrow> instant \<times> ('p, 'i) device \<Rightarrow> bool"
  for pq c cp ci M where
  update_peer: "update_peer cp ci c nr os d k rem rip ep ips ka psk = Some d' \<Longrightarrow> instant_wf (nr_timers_now nr) \<Longrightarrow>
    later (nr_timers_now nr) T' \<Longrightarrow> later T T' \<Longrightarrow> dev_step pq c cp ci M (T, d) (T', d')"
| set_key: "set_key c nr order d sk = Some d' \<Longrightarrow> iterates d order \<Longrightarrow> dev_step pq c cp ci M (T, d) (T, d')"
| listen: "open_listen_socket os order d port = Some (d', ok) \<Longrightarrow> iterates d order \<Longrightarrow> dev_step pq c cp ci M (T, d) (T, d')"
| fwmark: "set_fwmark os order d mark = (d', ok) \<Longrightarrow> iterates d order \<Longrightarrow> dev_step pq c cp ci M (T, d) (T, d')"
| clear: "dev_step pq c cp ci M (T, d) (T, clear_peers ci d)"
| limiter: "limiter_timer d now = (d', act) \<Longrightarrow> dev_step pq c cp ci M (T, d) (T, d')"
| monitor: "monitor_timer d ex mtu = (d', act) \<Longrightarrow> (\<And>m. mtu = Some m \<Longrightarrow> m \<le> M) \<Longrightarrow> dev_step pq c cp ci M (T, d) (T, d')"
| timers: "peers_timer pq c envs order d = Some (d', outs, act) \<Longrightarrow> iterates d order \<Longrightarrow>
    \<forall>a. env_ok (not_later T') (envs a) \<Longrightarrow> later T T' \<Longrightarrow> dev_step pq c cp ci M (T, d) (T', d')"
| udp: "udp_handler pq c cp s d input = Some (d', outs, act) \<Longrightarrow>
    \<forall>(se, x)\<in>set input. env_ok (not_later T') se \<Longrightarrow> later T T' \<Longrightarrow> dev_step pq c cp ci M (T, d) (T', d')"
| conn: "conn_handler pq c cp a s ip d input' = Some (d', outs, act) \<Longrightarrow>
    \<forall>(se, x)\<in>set input'. env_ok (not_later T') se \<Longrightarrow> later T T' \<Longrightarrow> dev_step pq c cp ci M (T, d) (T', d')"
| iface: "iface_handler pq c ci d reads = Some (d', outs, act) \<Longrightarrow>
    \<forall>(se, x)\<in>set reads. env_ok (not_later T') se \<Longrightarrow> later T T' \<Longrightarrow> dev_step pq c cp ci M (T, d) (T', d')"

definition dev_reach ::
  "bool \<Rightarrow> crypto \<Rightarrow> ('n, 'p, unit) ip_crate \<Rightarrow> ('m, 'i, nat) ip_crate \<Rightarrow> nat \<Rightarrow> instant \<Rightarrow> ('p, 'i) device \<Rightarrow> bool" where
  "dev_reach pq c cp ci M T d \<longleftrightarrow> (\<exists>rng heap b mtu T0 d0. device_new ci rng heap b mtu = Some d0 \<and> mtu \<le> M \<and> instant_wf T0 \<and>
     (dev_step pq c cp ci M)\<^sup>*\<^sup>* (T0, d0) (T, d))"

lemma dev_step_wf:
  assumes "dev_step pq c cp ci M (T, d) (T', d')" and "dev_wf routes M T d" and "ip_crate_ok ci routes" and "crypto_ok c"
  shows "dev_wf routes M T' d'"
  using assms(1)
proof cases
  case (update_peer nr os k rem rip ep ips ka psk)
  then show ?thesis using update_peer_wf assms(2-4) by blast
next
  case (set_key nr order sk)
  then show ?thesis using set_key_wf assms(2,4) by blast
next
  case (listen os order port ok)
  then show ?thesis using open_listen_wf assms(2) by blast
next
  case (fwmark os order mark ok)
  then show ?thesis using same_peers_wf [OF assms(2)] dev_wf_facts(1,4) [OF assms(2)]
    by (auto simp: set_fwmark_def Let_def tables_inv_def)
next
  case clear
  then show ?thesis using clear_peers_wf assms(2,3) by blast
next
  case (limiter now act)
  then show ?thesis using same_peers_wf [OF assms(2)] dev_wf_facts(1,4) [OF assms(2)]
    by (auto simp: limiter_timer_def tables_inv_def split: option.splits)
next
  case (monitor ex mtu act)
  then show ?thesis using same_peers_wf [OF assms(2)] dev_wf_facts(1,4) [OF assms(2)]
    by (auto simp: monitor_timer_def tables_inv_def split: option.splits if_splits)
next
  case (timers envs order outs act)
  then show ?thesis using keeps_all_wf [OF peers_timer_all] assms(2) by blast
next
  case (udp s input outs act)
  then show ?thesis using keeps_all_wf [OF udp_handler_all] assms(2) by blast
next
  case (conn a s ip input outs act)
  then show ?thesis using keeps_all_wf [OF conn_handler_all] assms(2) by blast
next
  case (iface input outs act)
  then show ?thesis using keeps_all_wf [OF iface_handler_all] dev_wf_facts(4) [OF assms(2)] assms(2) by blast
qed

lemma dev_reach_wf:
  assumes "dev_reach pq c cp ci M T d" and "ip_crate_ok ci routes" and "crypto_ok c"
  shows "dev_wf routes M T d"
proof -
  from assms(1) obtain rng heap b mtu T0 d0 where n: "device_new ci rng heap b mtu = Some d0" "mtu \<le> M" "instant_wf T0"
    and s: "(dev_step pq c cp ci M)\<^sup>*\<^sup>* (T0, d0) (T, d)" by (auto simp: dev_reach_def)
  from s show ?thesis
  proof (induction rule: rtranclp_induct2)
    case refl
    show ?case using device_new_wf [OF n(1) assms(2) n(3,2)] .
  next
    case (step T d T' d')
    then show ?case using dev_step_wf assms(2,3) by blast
  qed
qed

end
