(* ===== verification/Device_Safety.thy ===== *)
theory Device_Safety
  imports Device_Invariants
begin

text \<open>
  Safety of a device in every state its operations can reach: its tables agree, no datagram and no
  packet makes a handler panic, datagrams reach the peer that owns the session, packets leave to the
  peer with the most specific route and enter only from addresses their peer may use.
\<close>

section \<open>The flush loop ends\<close>

lemma format_any_init_in_progress:
  assumes "format_any_init c e h pq dst = Some (h', Inr m)"
  shows "is_in_progress h'"
proof -
  have "init_frame e pq h h' (Inr m)"
    using assms by (auto simp: format_any_init_def dest: format_init_frame format_pq_init_frame split: if_splits)
  then show ?thesis by (auto simp: init_frame_def is_in_progress_def)
qed

lemma encapsulate_no_session:
  assumes "encapsulate pq c rd t src dst = Some (t', r)" and "tn_sessions t ! (tn_current t mod N_SESSIONS) = None"
  shows "tn_sessions t' = tn_sessions t" and "tn_current t' = tn_current t"
    and "tn_packet_queue t' = tn_packet_queue (queue_packet t src)"
    and "is_in_progress (tn_handshake t) \<Longrightarrow> r = Done"
    and "r = WriteToNetwork m \<Longrightarrow> is_in_progress (tn_handshake t')"
proof -
  have f: "tunn_format_handshake_initiation pq c rd (queue_packet t src) dst False = Some (t', r)"
    using assms by (simp add: encapsulate_def Let_def)
  note cases = tunn_format_init_cases [OF f]
  show "tn_sessions t' = tn_sessions t" and "tn_current t' = tn_current t"
    and "tn_packet_queue t' = tn_packet_queue (queue_packet t src)"
    and "is_in_progress (tn_handshake t) \<Longrightarrow> r = Done"
    using cases by auto
  show "is_in_progress (tn_handshake t')" if "r = WriteToNetwork m"
  proof -
    from cases that obtain res where res: "format_any_init c (rd_env rd) (tn_handshake t) pq dst = Some (tn_handshake t', res)"
      "r = (case res of Inr m \<Rightarrow> WriteToNetwork m | Inl e \<Rightarrow> Err e)" by auto
    with that have "res = Inr m" by (cases res) auto
    with res(1) show ?thesis using format_any_init_in_progress by blast
  qed
qed

text \<open>What every call of a flush needs: room for the queued packets and a clock in the range of a
  timestamp.\<close>

definition call_fits :: "nat \<Rightarrow> time_stamper \<Rightarrow> call_env \<Rightarrow> bool" where
  "call_fits M st ce \<longleftrightarrow> M + DATA_OVERHEAD_SZ \<le> length (ce_dst ce) \<and> stamp st (env_stamp_now (rd_env (ce_rd ce))) \<noteq> None"

definition tunnel_fits :: "nat \<Rightarrow> time_stamper \<Rightarrow> tunn \<Rightarrow> bool" where
  "tunnel_fits M st t \<longleftrightarrow> ring_inv t \<and> hs_inv t \<and> queue_inv M t \<and> hs_stamper (tn_handshake t) = st"

lemma tunnel_fits_step:
  assumes "decapsulate pq c rd heap t a x dst = Some (heap', t', r)" and "tunnel_fits M st t"
  shows "tunnel_fits M st t'"
proof -
  have i: "ring_inv t" "hs_inv t" "queue_inv M t" "start_inv st (tm_time_started (tn_timers t)) t"
    using assms(2) by (auto simp: tunnel_fits_def start_inv_def queue_inv_def)
  show ?thesis
    using ring.decapsulate_inv [OF assms(1) i(1)] hsk.decapsulate_inv [OF assms(1) i(2)] que.decapsulate_inv [OF assms(1) i(3)]
      start.decapsulate_inv [OF assms(1) i(4)] by (simp add: tunnel_fits_def start_inv_def)
qed

lemma decapsulate_fits:
  assumes "crypto_ok c" and "tunnel_fits M st t" and "call_fits M st ce"
  shows "COOKIE_REPLY_SZ \<le> length (ce_dst ce) \<Longrightarrow> length d \<le> length (ce_dst ce) \<Longrightarrow>
      decapsulate pq c (ce_rd ce) heap t a d (ce_dst ce) \<noteq> None"
    and "decapsulate pq c (ce_rd ce) heap t a [] (ce_dst ce) \<noteq> None"
proof -
  have q: "\<forall>p\<in>set (tn_packet_queue t). length p + DATA_OVERHEAD_SZ \<le> length (ce_dst ce)"
    using assms(2,3) by (fastforce simp: tunnel_fits_def queue_inv_def call_fits_def)
  note f = assms(2,3) [unfolded tunnel_fits_def call_fits_def hs_inv_def]
  show "COOKIE_REPLY_SZ \<le> length (ce_dst ce) \<Longrightarrow> length d \<le> length (ce_dst ce) \<Longrightarrow>
      decapsulate pq c (ce_rd ce) heap t a d (ce_dst ce) \<noteq> None"
    using f q by (intro decapsulate_returns [OF assms(1)]) auto
  have "send_queued_packet pq c (ce_rd ce) t (ce_dst ce) \<noteq> None"
    using f q by (intro send_queued_returns [OF assms(1)]) auto
  then show "decapsulate pq c (ce_rd ce) heap t a [] (ce_dst ce) \<noteq> None" by (auto simp: decapsulate_def)
qed

text \<open>With a current session the loop sends the queue.\<close>

fun seal_all :: "crypto \<Rightarrow> session \<Rightarrow> bytes list \<Rightarrow> bytes list" where
  "seal_all c s [] = []"
| "seal_all c s (p # q) = wire_body (PacketData (data_packet_of c s p)) # seal_all c (s\<lparr> sending_key_counter := sending_key_counter s + 1 \<rparr>) q"

lemma flush_session:
  assumes "tn_sessions t ! (tn_current t mod N_SESSIONS) = Some s" and "length (tn_sessions t) = N_SESSIONS"
    and "\<And>n p. p \<in> set (tn_packet_queue t) \<Longrightarrow> length p + DATA_OVERHEAD_SZ \<le> length (ce_dst (envs n))"
  shows "\<exists>t'. flush_queue pq c envs n heap t = Some (heap, t', seal_all c s (tn_packet_queue t)) \<and> tn_packet_queue t' = [] \<and>
    tn_current t' = tn_current t \<and> tn_sessions t' = (tn_sessions t)[tn_current t mod N_SESSIONS :=
      Some (s\<lparr> sending_key_counter := sending_key_counter s + of_nat (length (tn_packet_queue t)) \<rparr>)]"
  using assms
proof (induction "tn_packet_queue t" arbitrary: t s n)
  case Nil
  then have "tn_packet_queue t = []" by simp
  moreover have "(tn_sessions t)[tn_current t mod N_SESSIONS := Some s] = tn_sessions t"
    using Nil.prems(1) list_update_id by metis
  ultimately show ?case using send_queued_empty by (subst flush_queue.simps) simp
next
  case (Cons p q)
  have len: "length p + DATA_OVERHEAD_SZ \<le> length (ce_dst (envs n))" using Cons.prems(3) [of p n] Cons.hyps(2) by (metis list.set_intros(1))
  let ?s1 = "s\<lparr> sending_key_counter := sending_key_counter s + 1 \<rparr>"
  let ?i = "tn_current t mod N_SESSIONS"
  from send_queued_session [OF Cons.hyps(2) [symmetric] Cons.prems(1) len, of pq c "ce_rd (envs n)" heap None] obtain t1 where
    d: "decapsulate pq c (ce_rd (envs n)) heap t None [] (ce_dst (envs n)) =
      Some (heap, t1, WriteToNetwork (wire_body (PacketData (data_packet_of c s p))))"
    and t1: "tn_packet_queue t1 = q" "tn_current t1 = tn_current t" "tn_sessions t1 = (tn_sessions t)[?i := Some ?s1]" by blast
  have i: "?i < length (tn_sessions t)" using Cons.prems(2) by simp
  have "tn_sessions t1 ! (tn_current t1 mod N_SESSIONS) = Some ?s1" "length (tn_sessions t1) = N_SESSIONS"
    using t1 i Cons.prems(2) by simp_all
  moreover have "length x + DATA_OVERHEAD_SZ \<le> length (ce_dst (envs m))" if "x \<in> set (tn_packet_queue t1)" for m x
    using Cons.prems(3) [of x m] that t1(1) Cons.hyps(2) by (metis list.set_intros(2))
  ultimately obtain t2 where
    f: "flush_queue pq c envs (n + 1) heap t1 = Some (heap, t2, seal_all c ?s1 q)" "tn_packet_queue t2 = []" "tn_current t2 = tn_current t"
    "tn_sessions t2 = (tn_sessions t)[?i := Some (s\<lparr> sending_key_counter := sending_key_counter s + of_nat (length (p # q)) \<rparr>)]"
    using Cons.hyps(1) [of t1 ?s1 "n + 1"] t1 by (auto simp: algebra_simps)
  have "flush_queue pq c envs n heap t = Some (heap, t2, seal_all c s (p # q))"
    by (subst flush_queue.simps) (simp add: d f(1) [simplified] del: wire_body.simps)
  then show ?case using f(2-4) unfolding Cons.hyps(2) [symmetric] by blast
qed

text \<open>Without one it makes at most two iterations: the first may start a handshake, the second finds it
  in progress.\<close>

lemma flush_stops:
  assumes "decapsulate pq c (ce_rd (envs n)) heap t None [] (ce_dst (envs n)) = Some (heap1, t1, r)"
    and "\<And>m. r = WriteToNetwork m \<Longrightarrow> flush_queue pq c envs (n + 1) heap1 t1 \<noteq> None"
  shows "flush_queue pq c envs n heap t \<noteq> None"
  using assms by (subst flush_queue.simps) (cases r; force)

lemma send_queued_no_session:
  assumes "decapsulate pq c rd heap t a [] dst = Some (heap1, t1, r)" and "tn_sessions t ! (tn_current t mod N_SESSIONS) = None"
  shows "is_in_progress (tn_handshake t) \<Longrightarrow> \<forall>m. r \<noteq> WriteToNetwork m"
    and "r = WriteToNetwork m \<Longrightarrow> is_in_progress (tn_handshake t1) \<and> tn_sessions t1 ! (tn_current t1 mod N_SESSIONS) = None"
proof -
  have "(is_in_progress (tn_handshake t) \<longrightarrow> (\<forall>m. r \<noteq> WriteToNetwork m)) \<and>
    (r = WriteToNetwork m \<longrightarrow> is_in_progress (tn_handshake t1) \<and> tn_sessions t1 ! (tn_current t1 mod N_SESSIONS) = None)"
  proof (cases "tn_packet_queue t")
    case Nil
    with assms(1) send_queued_empty [OF Nil, of pq c rd heap a dst] show ?thesis by simp
  next
    case (Cons p q)
    let ?t0 = "t\<lparr> tn_packet_queue := q \<rparr>"
    from assms(1) Cons obtain t2 r2 where e: "encapsulate pq c rd ?t0 p dst = Some (t2, r2)"
      by (auto simp: decapsulate_def send_queued_packet_def dequeue_packet_def bind_eq_Some_conv)
    have no: "tn_sessions ?t0 ! (tn_current ?t0 mod N_SESSIONS) = None" using assms(2) by simp
    show ?thesis using assms(1,2) Cons e encapsulate_no_session [OF e no]
      by (cases r2) (auto simp: decapsulate_def send_queued_packet_def dequeue_packet_def)
  qed
  then show "is_in_progress (tn_handshake t) \<Longrightarrow> \<forall>m. r \<noteq> WriteToNetwork m"
    and "r = WriteToNetwork m \<Longrightarrow> is_in_progress (tn_handshake t1) \<and> tn_sessions t1 ! (tn_current t1 mod N_SESSIONS) = None" by blast+
qed

lemma flush_returns:
  assumes "crypto_ok c" and "tunnel_fits M st t" and "\<And>n. call_fits M st (envs n)"
  shows "flush_queue pq c envs n heap t \<noteq> None"
proof (cases "tn_sessions t ! (tn_current t mod N_SESSIONS)")
  case (Some s)
  have "length p + DATA_OVERHEAD_SZ \<le> length (ce_dst (envs n))" if "p \<in> set (tn_packet_queue t)" for p n
    using assms(2) assms(3) [of n] that by (fastforce simp: tunnel_fits_def queue_inv_def call_fits_def)
  moreover have "length (tn_sessions t) = N_SESSIONS" using assms(2) by (simp add: tunnel_fits_def ring_inv_def)
  ultimately show ?thesis using flush_session [OF Some, of envs pq c n heap] by auto
next
  case None
  note ret = decapsulate_fits(2) [OF assms(1) _ assms(3)]
  have two: "flush_queue pq c envs n heap t \<noteq> None"
    if t: "tunnel_fits M st t" "tn_sessions t ! (tn_current t mod N_SESSIONS) = None" "is_in_progress (tn_handshake t)" for n heap t
  proof -
    obtain heap1 t1 r where d: "decapsulate pq c (ce_rd (envs n)) heap t None [] (ce_dst (envs n)) = Some (heap1, t1, r)"
      using ret [OF t(1)] by (metis option.exhaust prod_cases3)
    from send_queued_no_session(1) [OF d t(2,3)] show ?thesis using flush_stops [where envs = envs, OF d] by blast
  qed
  obtain heap1 t1 r where d: "decapsulate pq c (ce_rd (envs n)) heap t None [] (ce_dst (envs n)) = Some (heap1, t1, r)"
    using ret [OF assms(2)] by (metis option.exhaust prod_cases3)
  show ?thesis
    using flush_stops [where envs = envs, OF d] two [OF tunnel_fits_step [OF d assms(2)]] send_queued_no_session(2) [OF d None] by blast
qed

section \<open>No handler panics\<close>

definition os_ok :: "os \<Rightarrow> bool" where
  "os_ok os \<longleftrightarrow> (\<forall>s. os_shutdown os s \<and> os_try_clone os s \<noteq> None \<and> os_register os s)"

text \<open>The environment of a step: full-size buffers, an operating system that can close, duplicate and
  watch its sockets, and a clock in the range of a timestamp for every peer.\<close>

definition env_fits :: "(nat \<Rightarrow> time_stamper) \<Rightarrow> step_env \<Rightarrow> bool" where
  "env_fits st se \<longleftrightarrow> os_ok (se_os se) \<and>
     (\<forall>ce. ce = se_handle se \<or> ce \<in> range (se_flush se) \<longrightarrow> length (ce_dst ce) = MAX_UDP_SIZE \<and>
       (\<forall>a. stamp (st a) (env_stamp_now (rd_env (ce_rd ce))) \<noteq> None))"

definition dev_fits :: "nat \<Rightarrow> (nat \<Rightarrow> time_stamper) \<Rightarrow> ('p, 'i) device \<Rightarrow> bool" where
  "dev_fits M st d \<longleftrightarrow> M + DATA_OVERHEAD_SZ \<le> MAX_UDP_SIZE \<and> dv_mtu d \<le> M \<and>
     (\<forall>a < length (dv_store d). tunnel_fits M (st a) (tunnel_at d a))"

lemma env_fits_call:
  assumes "env_fits st se" and "dev_fits M st' d"
  shows "call_fits M (st a) (se_handle se)" "call_fits M (st a) (se_flush se n)"
  using assms by (auto simp: env_fits_def dev_fits_def call_fits_def)

lemma keeps_tunnel_fits:
  assumes "keeps ring_inv d d'" "keeps hs_inv d d'" "keeps (queue_inv M) d d'" "\<And>st x. keeps (start_inv st x) d d'"
    and "dev_fits M st d"
  shows "dev_fits M st d'"
proof -
  note f = keeps_fields [OF assms(1)]
  have "tunnel_fits M (st a) (tunnel_at d' a)" if a: "a < length (dv_store d)" for a
  proof -
    have t: "tunnel_fits M (st a) (tunnel_at d a)" using assms(5) a by (simp add: dev_fits_def)
    then have "start_inv (st a) (tm_time_started (tn_timers (tunnel_at d a))) (tunnel_at d a)"
      by (auto simp: tunnel_fits_def start_inv_def queue_inv_def)
    with keepsD [OF assms(4) a] have "hs_stamper (tn_handshake (tunnel_at d' a)) = st a" by (simp add: start_inv_def)
    then show ?thesis using t keepsD [OF assms(1) a] keepsD [OF assms(2) a] keepsD [OF assms(3) a] by (simp add: tunnel_fits_def)
  qed
  then show ?thesis using assms(5) by (simp add: dev_fits_def f)
qed

lemma encapsulate_result:
  assumes "encapsulate pq c rd t src dst = Some (t', r)"
  shows "r = Done \<or> (\<exists>e. r = Err e) \<or> (\<exists>p. r = WriteToNetwork p)"
proof (cases "tn_sessions t ! (tn_current t mod N_SESSIONS)")
  case None
  then have "tunn_format_handshake_initiation pq c rd (queue_packet t src) dst False = Some (t', r)"
    using assms by (simp add: encapsulate_def Let_def)
  from tunn_format_init_cases [OF this] show ?thesis by (fastforce split: sum.splits)
qed (use assms in \<open>auto simp: encapsulate_def Let_def bind_eq_Some_conv\<close>)

lemma update_timers_result:
  assumes "update_timers pq c rd heap t dst = Some (heap', t', r)" and "tunn_wf T t" and "clock_between T rd T'"
  shows "r = Done \<or> (\<exists>e. r = Err e) \<or> (\<exists>p. r = WriteToNetwork p)"
proof -
  define now where "now = duration_since (rd_time rd) (tm_time_started (tn_timers t))"
  from update_timers_cases [OF assms(2,3), of pq c heap dst] obtain h tm where u: "update_timers pq c rd heap t dst =
    (case timer_decision (rd_elapsed rd) now (drop_old now t) of
       Expired \<Rightarrow> Some (h, drop_old now t, Err ConnectionExpired)
     | Expire \<Rightarrow> Some (h, clear_all ((drop_cookie now (drop_old now t))\<lparr> tn_handshake :=
         set_expired (tn_handshake (drop_cookie now (drop_old now t))) \<rparr>) (rd_clear rd), Err ConnectionExpired)
     | Initiate \<Rightarrow> map_option (Pair h)
         (tunn_format_handshake_initiation pq c rd ((drop_cookie now (drop_old now t))\<lparr> tn_timers := tm \<rparr>) dst True)
     | Keepalive \<Rightarrow> map_option (Pair h)
         (encapsulate pq c rd ((drop_cookie now (drop_old now t))\<lparr> tn_timers := tm \<rparr>) [] dst)
     | Idle \<Rightarrow> Some (h, (drop_cookie now (drop_old now t))\<lparr> tn_timers := tm \<rparr>, Done))"
    unfolding now_def by blast
  show ?thesis
  proof (cases "timer_decision (rd_elapsed rd) now (drop_old now t)")
    case Initiate
    with assms(1) u have "tunn_format_handshake_initiation pq c rd ((drop_cookie now (drop_old now t))\<lparr> tn_timers := tm \<rparr>) dst True = Some (t', r)"
      by auto
    from tunn_format_init_cases [OF this] show ?thesis by (fastforce split: sum.splits)
  next
    case Keepalive
    with assms(1) u have "encapsulate pq c rd ((drop_cookie now (drop_old now t))\<lparr> tn_timers := tm \<rparr>) [] dst = Some (t', r)" by auto
    then show ?thesis by (rule encapsulate_result)
  qed (use assms(1) u in auto)
qed

lemma verify_packet_parsed: "verify_packet pq c rl now a src dst = (rl', Inr p) \<Longrightarrow> parse_incoming_packet pq src = Inr p"
  by (auto simp: verify_packet_def Let_def split: sum.splits option.splits packet.splits if_splits prod.splits)

lemma peer_of_packet_returns:
  assumes "crypto_ok c" and "packet_wf p"
  shows "peer_of_packet c d sk pk p \<noteq> None"
  using parse_anon_returns [OF assms(1), where sk = sk and pk = pk] assms(2) by (cases p) (auto simp: peer_of_packet_def)

lemma case_sum_None_Some: "case_sum (\<lambda>_. None) f z = Some a \<longleftrightarrow> (\<exists>x. z = Inr x \<and> f x = Some a)"
  by (cases z) auto

text \<open>The tables lead to peers of the store.\<close>

definition refs_ok :: "('i \<Rightarrow> net_prefix \<rightharpoonup> nat) \<Rightarrow> ('p, 'i) device \<Rightarrow> bool" where
  "refs_ok routes d \<longleftrightarrow> ran (dv_peers d) \<union> ran (dv_peers_by_idx d) \<union> ran (routes (dv_peers_by_ip d)) \<subseteq> {..<length (dv_store d)}"

lemma tables_refs: "tables_inv routes d \<Longrightarrow> refs_ok routes d"
proof -
  assume t: "tables_inv routes d"
  then have "ran (dv_peers d) \<subseteq> {..<length (dv_store d)}" "ran (dv_peers_by_idx d) \<subseteq> ran (dv_peers d)"
    "ran (routes (dv_peers_by_ip d)) \<subseteq> ran (dv_peers d)"
    by (auto simp: tables_inv_def ran_def)
  then show ?thesis unfolding refs_ok_def by blast
qed

lemma keeps_refs: "keeps I d d' \<Longrightarrow> refs_ok routes d \<Longrightarrow> refs_ok routes d'"
  by (simp add: refs_ok_def keeps_fields)

lemma peer_of_packet_store:
  assumes "peer_of_packet c d sk pk p = Some (Some a)" and "refs_ok routes d"
  shows "a < length (dv_store d)"
proof -
  have "a \<in> ran (dv_peers d) \<union> ran (dv_peers_by_idx d)"
    using assms(1) by (cases p) (auto simp: peer_of_packet_def case_sum_None_Some intro: ranI)
  then show ?thesis using assms(2) by (auto simp: refs_ok_def)
qed

lemma udp_finish_returns:
  assumes "crypto_ok c" and "tunnel_fits M (st a) (pr_tunnel p)" and "dev_fits M st d" and "env_fits st se"
  shows "udp_finish pq c cp se udp addr d a p r \<noteq> None"
proof -
  have "flush_queue pq c (se_flush se) 0 (dv_limiters d) (pr_tunnel p) \<noteq> None"
    using flush_returns [OF assms(1,2) env_fits_call(2) [OF assms(4,3)]] .
  then obtain h t ps where fl: "(case r of WriteToNetwork x \<Rightarrow> flush_queue pq c (se_flush se) 0 (dv_limiters d) (pr_tunnel p)
      | _ \<Rightarrow> Some (dv_limiters d, pr_tunnel p, [])) = Some (h, t, ps)" by (cases r) auto
  have os: "os_shutdown (se_os se) s" "os_register (se_os se) s" "\<exists>y. os_try_clone (se_os se) s = Some y" for s
    using assms(4) by (auto simp: env_fits_def os_ok_def)
  have "\<exists>p1. set_endpoint (se_os se) (p\<lparr> pr_tunnel := t \<rparr>) addr = Some p1 \<and> ep_addr (pr_endpoint p1) = Some addr"
    by (cases "ep_conn (pr_endpoint p)"; cases "ep_addr (pr_endpoint p) = Some addr") (simp_all add: set_endpoint_def Let_def os(1))
  then obtain p1 where p1: "set_endpoint (se_os se) (p\<lparr> pr_tunnel := t \<rparr>) addr = Some p1" "ep_addr (pr_endpoint p1) = Some addr" by blast
  obtain p2 sock where p2: "(if dv_use_connected_socket d then connect_endpoint (se_os se) p1 (dv_listen_port d) (dv_fwmark d)
      else Some (p1, None)) = Some (p2, sock)"
  proof -
    have "connect_endpoint (se_os se) p1 (dv_listen_port d) (dv_fwmark d) \<noteq> None"
    proof (cases "connect_socket (se_os se) addr (dv_listen_port d) (dv_fwmark d)")
      case (Some s)
      then show ?thesis using p1(2) os(3) [of s] by (auto simp: connect_endpoint_def Let_def)
    qed (use p1(2) in \<open>simp add: connect_endpoint_def Let_def\<close>)
    then show ?thesis using that by (cases "dv_use_connected_socket d") auto
  qed
  show ?thesis using fl p1(1) p2 os(2) by (cases sock) (auto simp: udp_finish_def Let_def)
qed

lemma udp_step_returns:
  assumes "crypto_ok c" and "dev_fits M st d" and "refs_ok routes d" and "env_fits st se" and "length pkt \<le> MAX_UDP_SIZE"
  shows "udp_step pq c cp se udp sk pk rl d pkt addr \<noteq> None"
proof -
  obtain rl' v where v: "verify_packet pq c (rlh_at (dv_limiters d) rl) (rd_cookie (ce_rd (se_verify se))) (Some (sa_ip addr)) pkt
    (ce_dst (se_verify se)) = (rl', v)" by fastforce
  let ?d1 = "d\<lparr> dv_limiters := rl_store (dv_limiters d) rl rl' \<rparr>"
  have d1: "dev_fits M st ?d1" "refs_ok routes ?d1"
    using assms(2,3) by (simp_all add: dev_fits_def refs_ok_def tunnel_at_def)
  show ?thesis
  proof (cases v)
    case (Inl e)
    then show ?thesis using v by (cases e) (auto simp: udp_step_def)
  next
    case (Inr p)
    have parse: "parse_incoming_packet pq pkt = Inr p" using verify_packet_parsed v Inr by blast
    have wf: "packet_wf p" using parse_only_wire_body [OF parse] by blast
    from peer_of_packet_returns [OF assms(1) wf] obtain found where f: "peer_of_packet c ?d1 sk pk p = Some found" by blast
    show ?thesis
    proof (cases found)
      case None
      then show ?thesis using v Inr f by (simp add: udp_step_def)
    next
      case (Some a)
      have a: "a < length (dv_store d)" using peer_of_packet_store [OF f [unfolded Some] d1(2)] by simp
      have t: "tunnel_fits M (st a) (tunnel_at d a)" using assms(2) a by (simp add: dev_fits_def)
      have len: "length (ce_dst (se_handle se)) = MAX_UDP_SIZE" "DATA_OVERHEAD_SZ \<le> MAX_UDP_SIZE"
        using assms(4) by (simp_all add: env_fits_def MAX_UDP_SIZE_def size_consts)
      have "handle_verified_packet c (ce_rd (se_handle se)) (tunnel_at d a) p (ce_dst (se_handle se)) \<noteq> None"
        using t wf len assms(5) parse_only_wire_body [OF parse]
        by (intro handle_verified_returns [OF assms(1)]) (auto simp: tunnel_fits_def)
      then obtain t1 r where h: "handle_verified_packet c (ce_rd (se_handle se)) (tunnel_at d a) p (ce_dst (se_handle se)) = Some (t1, r)"
        by auto
      have "start_inv (st a) (tm_time_started (tn_timers (tunnel_at d a))) (tunnel_at d a)"
        using t by (auto simp: tunnel_fits_def start_inv_def queue_inv_def)
      with t have "tunnel_fits M (st a) t1"
        using ring.handle_verified_inv [OF h] hsk.handle_verified_inv [OF h] que.handle_verified_inv [OF h] start.handle_verified_inv [OF h]
        by (auto simp: tunnel_fits_def start_inv_def)
      then have "udp_finish pq c cp se udp addr ?d1 a ((dv_store d ! a)\<lparr> pr_tunnel := t1 \<rparr>) r \<noteq> None"
        by (intro udp_finish_returns [OF assms(1) _ d1(1) assms(4)]) simp
      then show ?thesis using v Inr f Some h by (cases r) (auto simp: udp_step_def Let_def tunnel_at_def)
    qed
  qed
qed

lemma conn_step_returns:
  assumes "crypto_ok c" and "dev_fits M st d" and "env_fits st se" and "length pkt \<le> MAX_UDP_SIZE" and "a < length (dv_store d)"
  shows "conn_step pq c cp se a udp ip d pkt \<noteq> None"
proof -
  have t: "tunnel_fits M (st a) (tunnel_at d a)" using assms(2,5) by (simp add: dev_fits_def)
  have "length (ce_dst (se_handle se)) = MAX_UDP_SIZE" "COOKIE_REPLY_SZ \<le> MAX_UDP_SIZE"
    using assms(3) by (simp_all add: env_fits_def MAX_UDP_SIZE_def size_consts)
  then have "decapsulate pq c (ce_rd (se_handle se)) (dv_limiters d) (tunnel_at d a) (Some ip) pkt (ce_dst (se_handle se)) \<noteq> None"
    using decapsulate_fits(1) [OF assms(1) t env_fits_call(1) [OF assms(3,2)]] assms(4) by simp
  then obtain h t1 r where d: "decapsulate pq c (ce_rd (se_handle se)) (dv_limiters d) (tunnel_at d a) (Some ip) pkt
      (ce_dst (se_handle se)) = Some (h, t1, r)" by (metis option.exhaust prod_cases3)
  have "flush_queue pq c (se_flush se) 0 h t1 \<noteq> None"
    using flush_returns [OF assms(1) tunnel_fits_step [OF d t] env_fits_call(2) [OF assms(3,2)]] .
  then show ?thesis using d by (cases r) (auto simp: conn_step_def Let_def tunnel_at_def)
qed

lemma iface_step_returns:
  assumes "crypto_ok c" and "dev_fits M st d" and "refs_ok routes d" and "ip_crate_ok ci routes" and "env_fits st se"
    and "length src \<le> M"
  shows "iface_step pq c ci se udp4 udp6 d src \<noteq> None"
proof (cases "dst_address src")
  case None
  then show ?thesis by (simp add: iface_step_def)
next
  case (Some x)
  show ?thesis
  proof (cases "allowed_ips_find ci (dv_peers_by_ip d) x")
    case None
    with Some show ?thesis by (simp add: iface_step_def)
  next
    case (Some a)
    then obtain q where "routes (dv_peers_by_ip d) q = Some a" using find_best_route [OF assms(4)] by blast
    then have a: "a < length (dv_store d)" using assms(3) by (auto simp: refs_ok_def dest: ranI)
    have t: "tunnel_fits M (st a) (tunnel_at d a)" using assms(2) a by (simp add: dev_fits_def)
    have "encapsulate pq c (ce_rd (se_handle se)) (tunnel_at d a) src (ce_dst (se_handle se)) \<noteq> None"
      using t assms(6) env_fits_call(1) [OF assms(5,2), of a]
      by (intro encapsulate_returns [OF assms(1)]) (auto simp: tunnel_fits_def hs_inv_def call_fits_def)
    then obtain t1 r where e: "encapsulate pq c (ce_rd (se_handle se)) (tunnel_at d a) src (ce_dst (se_handle se)) = Some (t1, r)"
      by auto
    from encapsulate_result [OF e] show ?thesis using \<open>dst_address src = Some x\<close> Some e
      by (auto simp: iface_step_def Let_def tunnel_at_def split: option.splits)
  qed
qed

lemma tick_peer_returns:
  assumes "crypto_ok c" and "tunn_wf T (tunnel_at d a)" and "tunnel_fits M (st a) (tunnel_at d a)" and "env_fits st se"
    and "clock_between T (ce_rd (se_handle se)) T'"
  shows "tick_peer pq c se udp4 udp6 d a \<noteq> None"
proof (cases "ep_addr (pr_endpoint (dv_store d ! a))")
  case None
  then show ?thesis by (simp add: tick_peer_def)
next
  case (Some x)
  have "update_timers pq c (ce_rd (se_handle se)) (dv_limiters d) (tunnel_at d a) (ce_dst (se_handle se)) \<noteq> None"
    using assms(3,4) by (intro update_timers_returns [OF assms(1,2,5)])
      (auto simp: env_fits_def tunnel_fits_def MAX_UDP_SIZE_def size_consts)
  then obtain h t r where u: "update_timers pq c (ce_rd (se_handle se)) (dv_limiters d) (tunnel_at d a) (ce_dst (se_handle se)) = Some (h, t, r)"
    by (metis option.exhaust prod_cases3)
  have "shutdown_endpoint (se_os se) ((dv_store d ! a)\<lparr> pr_tunnel := t \<rparr>) \<noteq> None"
    using assms(4) by (auto simp: env_fits_def os_ok_def shutdown_endpoint_def split: option.splits)
  then obtain p where sh: "shutdown_endpoint (se_os se) ((dv_store d ! a)\<lparr> pr_tunnel := t \<rparr>) = Some p" by blast
  from update_timers_result [OF u assms(2,5)] show ?thesis
    using Some u sh by (auto simp: tick_peer_def peer_update_timers_def Let_def tunnel_at_def split: wireguard_error.splits)
qed

text \<open>The loops.\<close>

lemma udp_loop_returns:
  "crypto_ok c \<Longrightarrow> dev_fits M st d \<Longrightarrow> refs_ok routes d \<Longrightarrow> \<forall>(se, x)\<in>set input. env_fits st se \<Longrightarrow>
    udp_loop pq c cp udp sk pk rl n d input \<noteq> None"
proof (induction input arbitrary: n d)
  case (Cons x input)
  obtain se pkt addr where x: "x = (se, pkt, addr)" by (cases x)
  with Cons.prems udp_step_returns [OF Cons.prems(1-3), of se "take MAX_UDP_SIZE pkt" pq cp udp sk pk rl addr]
  obtain d1 out h where u: "udp_step pq c cp se udp sk pk rl d (take MAX_UDP_SIZE pkt) addr = Some (d1, out, h)" by auto
  note k = ring.udp_step_keeps [OF u env_ok_True] hsk.udp_step_keeps [OF u env_ok_True] que.udp_step_keeps [OF u env_ok_True]
    start.udp_step_keeps [OF u env_ok_True]
  have "udp_loop pq c cp udp sk pk rl m d1 input \<noteq> None" for m
    using Cons.IH [OF Cons.prems(1) keeps_tunnel_fits [OF k Cons.prems(2)] keeps_refs [OF k(1) Cons.prems(3)]] Cons.prems(4) by simp
  from this [of "if h then n - 1 else n"] obtain d2 outs where
    "udp_loop pq c cp udp sk pk rl (if h then n - 1 else n) d1 input = Some (d2, outs)" by auto
  then show ?case using x u by (cases h) (auto simp: Let_def)
qed simp

lemma conn_loop_returns:
  "crypto_ok c \<Longrightarrow> dev_fits M st d \<Longrightarrow> a < length (dv_store d) \<Longrightarrow> \<forall>(se, x)\<in>set input. env_fits st se \<Longrightarrow>
    conn_loop pq c cp a udp ip n d input \<noteq> None"
proof (induction input arbitrary: n d)
  case (Cons x input)
  obtain se pkt where x: "x = (se, pkt)" by (cases x)
  with Cons.prems conn_step_returns [OF Cons.prems(1,2), of se "take MAX_UDP_SIZE pkt" a pq cp udp ip]
  obtain d1 out where u: "conn_step pq c cp se a udp ip d (take MAX_UDP_SIZE pkt) = Some (d1, out)" by auto
  note k = ring.conn_step_keeps [OF u env_ok_True] hsk.conn_step_keeps [OF u env_ok_True] que.conn_step_keeps [OF u env_ok_True]
    start.conn_step_keeps [OF u env_ok_True]
  have "conn_loop pq c cp a udp ip m d1 input \<noteq> None" for m
    using Cons.IH [OF Cons.prems(1) keeps_tunnel_fits [OF k Cons.prems(2)]] Cons.prems(3,4) keeps_fields(8) [OF k(1)] by simp
  from this [of "n - 1"] obtain d2 outs where "conn_loop pq c cp a udp ip (n - 1) d1 input = Some (d2, outs)" by auto
  then show ?case using x u by (auto simp: Let_def)
qed simp

lemma iface_loop_returns:
  "crypto_ok c \<Longrightarrow> dev_fits M st d \<Longrightarrow> refs_ok routes d \<Longrightarrow> ip_crate_ok ci routes \<Longrightarrow> \<forall>(se, x)\<in>set input. env_fits st se \<Longrightarrow>
    iface_loop pq c ci udp4 udp6 n d input \<noteq> None"
proof (induction input arbitrary: n d)
  case Nil
  then show ?case by (cases n) simp_all
next
  case (Cons x input)
  obtain se r where x: "x = (se, r)" by (cases x)
  have mtu: "dv_mtu d \<le> M" "\<not> MAX_UDP_SIZE < dv_mtu d" using Cons.prems(2) by (auto simp: dev_fits_def)
  show ?case
  proof (cases "n = 0 \<or> r = IfaceBlock \<or> r = IfaceError")
    case True
    with x mtu show ?thesis by (cases n) auto
  next
    case False
    then obtain m src where n: "n = Suc m" "r = IfacePacket src" by (cases n; cases r) auto
    have len: "length (take (dv_mtu d) src) \<le> M" using mtu(1) by simp
    from iface_step_returns [OF Cons.prems(1-4) _ len] Cons.prems(5) x obtain d1 out where
      u: "iface_step pq c ci se udp4 udp6 d (take (dv_mtu d) src) = Some (d1, out)" by fastforce
    note k = ring.iface_step_keeps [OF u env_ok_True] hsk.iface_step_keeps [OF u env_ok_True]
      que.iface_step_keeps [OF u env_ok_True len] start.iface_step_keeps [OF u env_ok_True]
    have "iface_loop pq c ci udp4 udp6 m d1 input \<noteq> None"
      using Cons.IH [OF Cons.prems(1) keeps_tunnel_fits [OF _ _ k(3) _ Cons.prems(2)] keeps_refs [OF _ Cons.prems(3)] Cons.prems(4)]
        k(1,2,4) Cons.prems(5) by simp
    then obtain d2 outs act where "iface_loop pq c ci udp4 udp6 m d1 input = Some (d2, outs, act)" by auto
    then show ?thesis using x n u mtu by simp
  qed
qed

lemma tick_peer_effect:
  assumes "tick_peer pq c se udp4 udp6 d a = Some (d', out)"
  shows "d' = d \<or> (\<exists>h p. d' = put_peer (d\<lparr> dv_limiters := h \<rparr>) a p)"
proof (cases "ep_addr (pr_endpoint (dv_store d ! a))")
  case None
  with assms show ?thesis by (simp add: tick_peer_def)
next
  case (Some x)
  with assms obtain h p r where u: "peer_update_timers pq c (ce_rd (se_handle se)) (dv_limiters d) (dv_store d ! a)
      (ce_dst (se_handle se)) = Some (h, p, r)" by (auto simp: tick_peer_def Let_def bind_eq_Some_conv)
  show ?thesis
  proof (cases r)
    case (Err e)
    with assms Some u show ?thesis by (cases e) (auto simp: tick_peer_def Let_def bind_eq_Some_conv)
  qed (use assms Some u in \<open>auto simp: tick_peer_def Let_def\<close>)
qed

lemma tick_peers_returns:
  "crypto_ok c \<Longrightarrow> distinct as \<Longrightarrow> \<forall>a\<in>set as. tunn_wf T (tunnel_at d a) \<and> tunnel_fits M (st a) (tunnel_at d a) \<Longrightarrow>
    \<forall>a. env_fits st (envs a) \<and> clock_between T (ce_rd (se_handle (envs a))) T' \<Longrightarrow> tick_peers pq c envs udp4 udp6 d as \<noteq> None"
proof (induction as arbitrary: d)
  case (Cons a as)
  from Cons.prems tick_peer_returns [OF Cons.prems(1), of T d a M st "envs a" T' pq udp4 udp6]
  obtain d1 out where u: "tick_peer pq c (envs a) udp4 udp6 d a = Some (d1, out)" by auto
  have "tunnel_at d1 b = tunnel_at d b" if "b \<noteq> a" for b
    using tick_peer_effect [OF u] that by (auto simp: tunnel_at_def put_peer_def)
  then have "\<forall>b\<in>set as. tunn_wf T (tunnel_at d1 b) \<and> tunnel_fits M (st b) (tunnel_at d1 b)"
    using Cons.prems(2,3) by (metis distinct.simps(2) list.set_intros(2))
  with Cons.IH [OF Cons.prems(1)] Cons.prems(2,4) have "tick_peers pq c envs udp4 udp6 d1 as \<noteq> None" by simp
  then obtain d2 outs where "tick_peers pq c envs udp4 udp6 d1 as = Some (d2, outs)" by auto
  then show ?case using u by simp
qed simp

lemma set_filtered: "set (List.map_filter f xs) = {y. \<exists>x\<in>set xs. f x = Some y}"
  by (induction xs) (auto simp: map_filter_simps split: option.splits)

lemma peer_values_facts:
  assumes "tables_inv routes d" and "iterates d order"
  shows "distinct (peer_values d order)" and "set (peer_values d order) = ran (dv_peers d)"
proof -
  have set: "set order = dom (dv_peers d)" and dis: "distinct order" using assms(2) by (auto simp: iterates_def)
  have inj: "k = k'" if "dv_peers d k = Some a" "dv_peers d k' = Some a" for k k' a
    using assms(1) that unfolding tables_inv_def by metis
  have "distinct (List.map_filter (dv_peers d) ks)" if "distinct ks" "set ks \<subseteq> dom (dv_peers d)" for ks
    using that
  proof (induction ks)
    case (Cons k ks)
    then obtain a where a: "dv_peers d k = Some a" by auto
    have "a \<notin> set (List.map_filter (dv_peers d) ks)" using inj [OF a] Cons.prems(1) by (force simp: set_filtered)
    with Cons a show ?case by (simp add: map_filter_simps)
  qed (simp add: map_filter_simps)
  then show "distinct (peer_values d order)" using set dis by (simp add: peer_values_def)
  show "set (peer_values d order) = ran (dv_peers d)" using set by (force simp: peer_values_def set_filtered ran_def)
qed

lemma dev_wf_fits:
  assumes "dev_wf routes M T d" and "M + 32 \<le> 65535"
  shows "dev_fits M (\<lambda>a. hs_stamper (tn_handshake (tunnel_at d a))) d"
  using dev_wf_facts(4,5) [OF assms(1)] assms(2)
  by (auto simp: dev_fits_def tunnel_fits_def tunnel_inv_def tunn_wf_def size_consts MAX_UDP_SIZE_def)

section \<open>A concrete device\<close>

definition demo_os :: os where
  "demo_os = \<lparr> os_socket = (\<lambda>v4. Some (if v4 then 4 else 6)), os_set_reuse_address = (\<lambda>_. True), os_bind = (\<lambda>_ _ _. True),
     os_connect = (\<lambda>_ _. True), os_set_nonblocking = (\<lambda>_. True), os_set_mark = (\<lambda>_ _. True), os_local_port = (\<lambda>_. Some 51820),
     os_try_clone = Some, os_shutdown = (\<lambda>_. True), os_register = (\<lambda>_. True) \<rparr>"

definition demo_addr :: socket_addr where
  "demo_addr = \<lparr> sa_ip = IpV4 [192, 0, 2, 1], sa_port = 51820, sa_flowinfo = 0, sa_scope_id = 0 \<rparr>"

definition demo_net :: allowed_ip where
  "demo_net = \<lparr> aip_addr = IpV4 [10, 0, 0, 0], aip_cidr = 8 \<rparr>"

lemma demo_os_simps [simp]:
  "os_ok demo_os" "listen_sockets demo_os 51820 = Some (4, 6, 51820)" "os_try_clone demo_os s = Some s" "os_register demo_os s"
  by (simp_all add: os_ok_def demo_os_def listen_sockets_def listen_socket_def check_def)

lemma tbl_new_empty: "ip_crate_ok cr routes \<Longrightarrow> routes (tbl_new cr) = Map.empty"
  unfolding ip_crate_ok_def by blast

lemma demo_index:
  "index_lfsr_default [2, 5] = Some (\<lparr> lf_initial = 2, lf_lfsr = 2, lf_mask = 5 \<rparr>, [])"
  "index_lfsr_next \<lparr> lf_initial = 2, lf_lfsr = 2, lf_mask = 5 \<rparr> = Some (\<lparr> lf_initial = 2, lf_lfsr = 1, lf_mask = 5 \<rparr>, 4)"
  by (simp_all add: index_lfsr_default_def index_lfsr_next_def LFSR_MAX_def LFSR_POLY_def Let_def)

lemma demo_device:
  "\<exists>d p. dev_reach pq plain_crypto list_crate list_crate 1420 demo_instant d \<and> dv_peers d = [x25519_public plain_crypto peer \<mapsto> 0] \<and>
     dv_store d = [p] \<and> pr_index p = 4 \<and> tn_handshake (pr_tunnel p) = demo_handshake sk peer (push_bit 8 4) \<and>
     dv_use_connected_socket d = con \<and> dv_mtu d = 1420 \<and> dv_rate_limiter d = Some 1 \<and>
     limiter_for plain_crypto (x25519_public plain_crypto sk) (rlh_at (dv_limiters d) 1) \<and>
     rl_count (rlh_at (dv_limiters d) 1) < rl_limit (rlh_at (dv_limiters d) 1) \<and> tn_current (pr_tunnel p) = 0 \<and>
     dv_next_index d = \<lparr> lf_initial = 2, lf_lfsr = 1, lf_mask = 5 \<rparr> \<and> tn_sessions (pr_tunnel p) = replicate N_SESSIONS None \<and> tn_packet_queue (pr_tunnel p) = [] \<and>
     pr_endpoint p = \<lparr> ep_addr = Some demo_addr, ep_conn = None \<rparr> \<and>
     dv_udp4 d = Some 4 \<and> dv_udp6 d = Some 6 \<and> dv_key_pair d = Some (sk, x25519_public plain_crypto sk) \<and>
     nl_routes (dv_peers_by_ip d) = [ip_prefix demo_net \<mapsto> 0] \<and> nl_routes (pr_allowed_ips p) = [ip_prefix demo_net \<mapsto> ()]"
proof -
  let ?k = "x25519_public plain_crypto peer" and ?T = demo_instant and ?step = "dev_step pq plain_crypto list_crate list_crate 1420"
  obtain d0 :: "(unit net_list, nat net_list) device" where d0: "device_new list_crate [2, 5] demo_heap con 1420 = Some d0"
    "dv_peers d0 = Map.empty" "dv_store d0 = []" "dv_peers_by_ip d0 = tbl_new list_crate"
    "dv_next_index d0 = \<lparr> lf_initial = 2, lf_lfsr = 2, lf_mask = 5 \<rparr>" "dv_key_pair d0 = None" "dv_limiters d0 = demo_heap"
    "dv_use_connected_socket d0 = con" "dv_mtu d0 = 1420"
    by (simp add: device_new_def demo_index allowed_ips_new_def)
  have it0: "iterates d0 []" by (simp add: iterates_def d0)
  obtain d1 where d1: "set_key plain_crypto demo_new [] d0 sk = Some d1" "dv_peers d1 = Map.empty" "dv_store d1 = []"
    "dv_peers_by_ip d1 = tbl_new list_crate" "dv_next_index d1 = dv_next_index d0"
    "dv_key_pair d1 = Some (sk, x25519_public plain_crypto sk)"
    "dv_use_connected_socket d1 = con" "dv_mtu d1 = 1420" "dv_rate_limiter d1 = Some 1" "rlh_next (dv_limiters d1) = 2"
    "limiter_for plain_crypto (x25519_public plain_crypto sk) (rlh_at (dv_limiters d1) 1)"
    "rl_count (rlh_at (dv_limiters d1) 1) < rl_limit (rlh_at (dv_limiters d1) 1)"
    by (simp add: set_key_def d0 Let_def rl_alloc_def peer_values_def map_filter_simps demo_heap_def limiter_for_new)
      (simp add: rate_limiter_new_def HANDSHAKE_RATE_LIMIT_def)
  have it1: "iterates d1 []" by (simp add: iterates_def d1)
  obtain d2 where d2: "open_listen_socket demo_os [] d1 51820 = Some (d2, True)" "dv_peers d2 = Map.empty" "dv_store d2 = []"
    "dv_peers_by_ip d2 = tbl_new list_crate" "dv_next_index d2 = dv_next_index d0" "dv_key_pair d2 = dv_key_pair d1"
    "dv_use_connected_socket d2 = con" "dv_mtu d2 = 1420" "dv_rate_limiter d2 = Some 1" "dv_limiters d2 = dv_limiters d1"
    "dv_udp4 d2 = Some 4" "dv_udp6 d2 = Some 6"
    by (simp add: open_listen_socket_def d1 Let_def peer_values_def map_filter_simps)
  obtain heap t where t: "tunn_new plain_crypto demo_new (dv_limiters d2) sk ?k (Some (replicate 32 9)) None 4 None = Some (heap, t)"
    and lim: "rlh_at heap 1 = rlh_at (dv_limiters d2) 1"
    by (simp add: d1 d2 tunn_new_def demo_new_def demo_handshake_new Let_def rl_alloc_def)
  note tf = tunn_new_fields [OF t]
  have ok: "\<forall>ip\<in>set [demo_net]. cidr_ok ip" by (simp add: cidr_ok_def demo_net_def max_cidr_def)
  from peer_new_returns [OF list_crate_ok ok, of t 4 "Some demo_addr" "Some (replicate 32 9)"] obtain p where
    p: "peer_new list_crate t 4 (Some demo_addr) [demo_net] (Some (replicate 32 9)) = Some p" "pr_tunnel p = t" "pr_index p = 4"
      "pr_endpoint p = \<lparr> ep_addr = Some demo_addr, ep_conn = None \<rparr>" "nl_routes (pr_allowed_ips p) = [ip_prefix demo_net \<mapsto> ()]"
    by (auto simp: peer_new_def bind_eq_Some_conv)
  have ok2: "\<forall>(ip, a)\<in>set (map (\<lambda>ip. (ip, 0::nat)) [demo_net]). cidr_ok ip" using ok by simp
  have empty: "nl_routes (tbl_new list_crate :: nat net_list) = Map.empty" using tbl_new_empty [OF list_crate_ok] .
  from insert_all_abs [OF list_crate_ok ok2, of "tbl_new list_crate"] obtain tbl where
    tbl: "insert_all list_crate (tbl_new list_crate) (map (\<lambda>ip. (ip, 0::nat)) [demo_net]) = Some tbl"
      "nl_routes tbl = nl_routes (tbl_new list_crate) ++ map_of (rev (map (\<lambda>(ip, d). (ip_prefix ip, d)) (map (\<lambda>ip. (ip, 0)) [demo_net])))"
    by blast
  have route: "nl_routes tbl = [ip_prefix demo_net \<mapsto> 0]" using tbl(2) empty by simp
  obtain d3 where d3: "update_peer list_crate list_crate plain_crypto demo_new demo_os d2 ?k False False (Some demo_addr) [demo_net]
      None (Some (replicate 32 9)) = Some d3" "dv_peers d3 = [?k \<mapsto> 0]" "dv_store d3 = [p]" "dv_udp4 d3 = Some 4" "dv_udp6 d3 = Some 6"
      "dv_key_pair d3 = Some (sk, x25519_public plain_crypto sk)" "dv_peers_by_ip d3 = tbl"
      "dv_use_connected_socket d3 = con" "dv_mtu d3 = 1420" "dv_rate_limiter d3 = Some 1" "dv_limiters d3 = heap"
      "dv_next_index d3 = \<lparr> lf_initial = 2, lf_lfsr = 1, lf_mask = 5 \<rparr>"
    using t p(1) tbl(1) by (simp add: update_peer_def device_next_index_def d0 d1 d2 demo_index Let_def del: insert_all.simps)
  have "later demo_instant demo_instant" "instant_wf (nr_timers_now demo_new)" "later (nr_timers_now demo_new) demo_instant"
    using demo_clock(1) by (simp_all add: later_def demo_new_def)
  then have "?step\<^sup>*\<^sup>* (?T, d0) (?T, d3)"
    using dev_step.set_key [OF d1(1) it0, of pq list_crate list_crate 1420 ?T] dev_step.listen [OF d2(1) it1, of pq _ list_crate list_crate 1420 ?T]
      dev_step.update_peer [OF d3(1), of ?T ?T pq 1420]
    by (meson converse_rtranclp_into_rtranclp r_into_rtranclp)
  then have "dev_reach pq plain_crypto list_crate list_crate 1420 demo_instant d3"
    unfolding dev_reach_def using d0(1) demo_clock(1) by blast
  moreover have "tn_handshake t = demo_handshake sk peer (push_bit 8 4)" "tn_current t = 0" "tn_sessions t = replicate N_SESSIONS None" "tn_packet_queue t = []"
    using tf demo_handshake_new [of sk peer "push_bit 8 4"] by (simp_all add: demo_new_def)
  ultimately show ?thesis using d1 d2 d3 p route lim by (intro exI conjI) (assumption | simp)+
qed

section \<open>What crosses the interface\<close>

text \<open>\<open>x\<close> is the packet the header of the decrypted payload describes, and \<open>a\<close> its source address.\<close>

definition from_header :: "bytes \<Rightarrow> bytes \<Rightarrow> ip_addr \<Rightarrow> bool" where
  "from_header payload x a \<longleftrightarrow>
     drop_bit 4 (hd payload) = 4 \<and> 20 \<le> length payload \<and> a = IpV4 (slice_of 12 16 payload) \<and>
       x = take (unat (of_be_bytes (slice_of 2 4 payload) :: u16)) payload \<or>
     drop_bit 4 (hd payload) = 6 \<and> 40 \<le> length payload \<and> a = IpV6 (slice_of 8 24 payload) \<and>
       x = take (unat (of_be_bytes (slice_of 4 6 payload) :: u16) + 40) payload"

definition delivered :: "tunn_result \<Rightarrow> (bytes \<times> ip_addr) option" where
  "delivered r = (case r of WriteToTunnelV4 x a \<Rightarrow> Some (x, IpV4 a) | WriteToTunnelV6 x a \<Rightarrow> Some (x, IpV6 a) | _ \<Rightarrow> None)"

lemma delivered_simps [simp]:
  "delivered Done = None" "delivered (Err e) = None" "delivered (WriteToNetwork p) = None"
  "delivered (WriteToTunnelV4 x a) = Some (x, IpV4 a)" "delivered (WriteToTunnelV6 x b) = Some (x, IpV6 b)"
  by (simp_all add: delivered_def)

lemma validate_delivers:
  "delivered (snd (validate_decapsulated_packet t payload)) = Some (x, a) \<Longrightarrow> from_header payload x a"
  by (auto simp: validate_decapsulated_packet_def ip_consts from_header_def Let_def split: list.splits if_splits ip_addr.splits)

text \<open>The tunnel opens the datagram: it is a data packet for the session in its slot, with a counter the
  session accepts, and the session's receiving key authenticates it.\<close>

definition opens :: "bool \<Rightarrow> crypto \<Rightarrow> tunn \<Rightarrow> bytes \<Rightarrow> bytes \<Rightarrow> bool" where
  "opens pq c t datagram payload \<longleftrightarrow> (\<exists>p s. parse_incoming_packet pq datagram = Inr (PacketData p) \<and>
     tn_sessions t ! (unat (pd_receiver_idx p) mod N_SESSIONS) = Some s \<and> pd_receiver_idx p = receiving_index s \<and>
     receiving_counter_quick_check s (pd_counter p) = Inr () \<and>
     chacha_open c (receiver s) (counter_nonce (pd_counter p)) [] (pd_encrypted_encapsulated_packet p) = Some payload)"

lemma bind_result_Inr: "bind_result r f = Inr y \<longleftrightarrow> (\<exists>x. r = Inr x \<and> f x = Inr y)"
  by (cases r) (auto simp: bind_result_def)

lemma case_sum_Some: "case_sum (\<lambda>_. None) f r = Some y \<longleftrightarrow> (\<exists>x. r = Inr x \<and> f x = Some y)"
  by (cases r) auto

lemma receive_packet_opens:
  assumes "receive_packet_data c s p dst = Some (s', Inr payload)"
  shows "pd_receiver_idx p = receiving_index s" and "receiving_counter_quick_check s (pd_counter p) = Inr ()"
    and "chacha_open c (receiver s) (counter_nonce (pd_counter p)) [] (pd_encrypted_encapsulated_packet p) = Some payload"
  using assms
  by (auto simp: receive_packet_data_def Let_def bind_eq_Some_conv bind_result_Inr split: if_split_asm sum.split_asm option.split_asm)

lemma handle_data_delivers:
  assumes "handle_data c t p dst = Some (t', Inr x)" and "delivered x = Some (y, a)" and "parse_incoming_packet pq m = Inr (PacketData p)"
  shows "\<exists>payload. opens pq c t m payload \<and> from_header payload y a"
proof (cases "tn_sessions t ! (unat (pd_receiver_idx p) mod N_SESSIONS)")
  case None
  with assms show ?thesis by (simp add: handle_data_def)
next
  case (Some s)
  with assms obtain s' q where q: "receive_packet_data c s p dst = Some (s', q)" by (auto simp: handle_data_def Let_def bind_eq_Some_conv)
  then obtain payload where r: "receive_packet_data c s p dst = Some (s', Inr payload)" "from_header payload y a"
    using assms(1,2) Some by (cases q) (auto simp: handle_data_def Let_def case_prod_beta dest!: validate_delivers)
  show ?thesis unfolding opens_def using assms(3) Some receive_packet_opens [OF r(1)] r(2) by blast
qed

lemma handshakes_deliver_nothing:
  "handle_handshake_init c rd t hi dst = Some (t', Inr x) \<Longrightarrow> delivered x = None"
  "handle_pq_handshake_init c rd t pi dst = Some (t', Inr x) \<Longrightarrow> delivered x = None"
  "handle_handshake_response c rd t hr dst = Some (t', Inr x) \<Longrightarrow> delivered x = None"
  "handle_pq_handshake_response c rd t pr dst = Some (t', Inr x) \<Longrightarrow> delivered x = None"
  "handle_cookie_reply c t cr = Some (t', Inr x) \<Longrightarrow> delivered x = None"
proof -
  show "delivered x = None" if "handle_handshake_init c rd t hi dst = Some (t', Inr x)"
  proof -
    from that obtain h q where "receive_handshake_initialization c (rd_env rd) (tn_handshake t) hi dst = Some (h, q)"
      by (auto simp: handle_handshake_init_def bind_eq_Some_conv)
    with that show ?thesis by (cases q) (auto simp: handle_handshake_init_def Let_def)
  qed
  show "delivered x = None" if "handle_pq_handshake_init c rd t pi dst = Some (t', Inr x)"
  proof -
    from that obtain h q where "receive_pq_handshake_initialization c (rd_env rd) (tn_handshake t) pi dst = Some (h, q)"
      by (auto simp: handle_pq_handshake_init_def bind_eq_Some_conv)
    with that show ?thesis by (cases q) (auto simp: handle_pq_handshake_init_def Let_def)
  qed
  show "delivered x = None" if "handle_handshake_response c rd t hr dst = Some (t', Inr x)"
  proof -
    from that obtain h q where "receive_handshake_response c (rd_env rd) (tn_handshake t) hr = Some (h, q)"
      by (auto simp: handle_handshake_response_def bind_eq_Some_conv)
    with that show ?thesis by (cases q) (auto simp: handle_handshake_response_def Let_def bind_eq_Some_conv)
  qed
  show "delivered x = None" if "handle_pq_handshake_response c rd t pr dst = Some (t', Inr x)"
  proof -
    from that obtain h q where "receive_pq_handshake_response c (rd_env rd) (tn_handshake t) pr = Some (h, q)"
      by (auto simp: handle_pq_handshake_response_def bind_eq_Some_conv)
    with that show ?thesis by (cases q) (auto simp: handle_pq_handshake_response_def Let_def bind_eq_Some_conv)
  qed
  show "delivered x = None" if "handle_cookie_reply c t cr = Some (t', Inr x)"
  proof -
    obtain h q where "receive_cookie_reply c (tn_handshake t) cr = (h, q)" by fastforce
    with that show ?thesis by (cases q) (auto simp: handle_cookie_reply_def Let_def)
  qed
qed

lemma handle_verified_delivers:
  assumes "handle_verified_packet c rd t p dst = Some (t', r)" and "delivered r = Some (y, a)" and "parse_incoming_packet pq m = Inr p"
  shows "\<exists>payload. opens pq c t m payload \<and> from_header payload y a"
proof -
  from assms(1) obtain q where q: "(case p of
         HandshakeInit p \<Rightarrow> handle_handshake_init c rd t p dst
       | HandshakeResponse p \<Rightarrow> handle_handshake_response c rd t p dst
       | PacketCookieReply p \<Rightarrow> handle_cookie_reply c t p
       | PacketData p \<Rightarrow> handle_data c t p dst
       | PqHandshakeInit p \<Rightarrow> handle_pq_handshake_init c rd t p dst
       | PqHandshakeResponse p \<Rightarrow> handle_pq_handshake_response c rd t p dst) = Some (t', q)" "r = (case q of Inr t \<Rightarrow> t | Inl e \<Rightarrow> Err e)"
    by (auto simp: handle_verified_packet_def bind_eq_Some_conv)
  with assms(2) have q': "q = Inr r" by (cases q) auto
  show ?thesis
  proof (cases p)
    case (PacketData x)
    with q(1) q' assms(2,3) show ?thesis using handle_data_delivers by simp
  qed (use q(1) q' assms(2) handshakes_deliver_nothing in fastforce)+
qed

lemma verify_packet_parses:
  "verify_packet pq c rl now src m dst = (rl', Inr p) \<Longrightarrow> parse_incoming_packet pq m = Inr p"
  by (auto simp: verify_packet_def Let_def split: sum.splits option.splits if_splits prod.splits)

lemma decapsulate_delivers:
  assumes "decapsulate pq c rd heap t src m dst = Some (heap', t', r)" and "delivered r = Some (y, a)"
  shows "\<exists>payload. opens pq c t m payload \<and> from_header payload y a"
proof (cases "m = []")
  case True
  with assms(1) have q: "send_queued_packet pq c rd t dst = Some (t', r)" by (auto simp: decapsulate_def bind_eq_Some_conv)
  have "delivered r = None"
    using q by (auto simp: send_queued_packet_def bind_eq_Some_conv dest!: encapsulate_result split: prod.splits option.splits)
  with assms(2) show ?thesis by simp
next
  case False
  obtain rl v where v: "verify_packet pq c (rlh_at heap (tn_rate_limiter t)) (rd_cookie rd) src m (replicate COOKIE_REPLY_SZ 0) = (rl, v)"
    by fastforce
  show ?thesis
  proof (cases v)
    case (Inl e)
    with assms False v show ?thesis by (cases e) (auto simp: decapsulate_def Let_def split: if_splits)
  next
    case (Inr p)
    with assms False v show ?thesis using handle_verified_delivers [OF _ assms(2) verify_packet_parses]
      by (auto simp: decapsulate_def Let_def bind_eq_Some_conv)
  qed
qed

text \<open>If the output writes to the interface, then the datagram was opened by the tunnel of the peer \<open>a\<close> and
  comes from an address the peer may use.\<close>

definition checked :: "bool \<Rightarrow> crypto \<Rightarrow> ('n, 'p, unit) ip_crate \<Rightarrow> ('p, 'i) device \<Rightarrow> nat \<Rightarrow> bytes \<Rightarrow> dev_out \<Rightarrow> bool" where
  "checked pq c cp d a m x \<longleftrightarrow> (\<forall>pkt. x = Write4 pkt \<or> x = Write6 pkt \<longrightarrow>
     (\<exists>payload src. opens pq c (tunnel_at d a) m payload \<and> from_header payload pkt src \<and> is_allowed_ip cp (dv_store d ! a) src))"

lemma checked_simps [simp]:
  "checked pq c cp d a m (SendTo s p addr)" "checked pq c cp d a m (Send s p)" "checked pq c cp d a m (RegisterConn b s i)"
  by (simp_all add: checked_def)

lemma to_iface_checked:
  assumes "\<And>y src. delivered r = Some (y, src) \<Longrightarrow> \<exists>payload. opens pq c (tunnel_at d a) m payload \<and> from_header payload y src"
    and "pr_allowed_ips p = pr_allowed_ips (dv_store d ! a)"
  shows "\<forall>x\<in>set (to_iface cp p r). checked pq c cp d a m x"
proof -
  have "is_allowed_ip cp p = is_allowed_ip cp (dv_store d ! a)" using assms(2) by (simp add: is_allowed_ip_def fun_eq_iff)
  with assms(1) show ?thesis by (cases r) (auto simp: to_iface_def checked_def)
qed

lemma udp_finish_checked:
  assumes "udp_finish pq c cp se udp addr d1 a p r = Some (d', out)" and "\<forall>x\<in>set (to_iface cp p r). checked pq c cp d a m x"
  shows "\<forall>x\<in>set out. checked pq c cp d a m x"
proof -
  from assms(1) obtain ps sock reg where
    o: "out = (case r of WriteToNetwork packet \<Rightarrow> [SendTo udp packet addr] | _ \<Rightarrow> to_iface cp p r) @
      map (\<lambda>packet. SendTo udp packet addr) ps @ reg"
    and reg: "(case sock of None \<Rightarrow> Some []
      | Some sock \<Rightarrow> if os_register (se_os se) sock then Some [RegisterConn a sock (sa_ip addr)] else None) = Some reg"
    by (auto simp: udp_finish_def Let_def bind_eq_Some_conv)
  from reg have "\<forall>x\<in>set reg. checked pq c cp d a m x" by (cases sock) (auto split: if_splits)
  with assms(2) show ?thesis unfolding o by (cases r) auto
qed

lemma peer_of_packet_ran:
  "peer_of_packet c d sk pk p = Some (Some a) \<Longrightarrow> a \<in> ran (dv_peers d) \<union> ran (dv_peers_by_idx d)"
  by (cases p) (auto simp: peer_of_packet_def ran_def case_sum_Some)

lemma udp_step_checked:
  assumes "udp_step pq c cp se udp sk pk rl d pkt addr = Some (d', out, h)" and "out \<noteq> []"
  shows "(\<forall>x\<in>set out. \<forall>y. x \<noteq> Write4 y \<and> x \<noteq> Write6 y) \<or>
    (\<exists>a. a \<in> ran (dv_peers d) \<union> ran (dv_peers_by_idx d) \<and> (\<forall>x\<in>set out. checked pq c cp d a pkt x))"
proof -
  obtain rl' v where v: "verify_packet pq c (rlh_at (dv_limiters d) rl) (rd_cookie (ce_rd (se_verify se))) (Some (sa_ip addr)) pkt
    (ce_dst (se_verify se)) = (rl', v)" by fastforce
  define d1 where "d1 = d\<lparr> dv_limiters := rl_store (dv_limiters d) rl rl' \<rparr>"
  have d1 [simp]: "dv_store d1 = dv_store d" "dv_peers d1 = dv_peers d" "dv_peers_by_idx d1 = dv_peers_by_idx d" by (simp_all add: d1_def)
  note u = assms(1) [unfolded udp_step_def v Let_def prod.case, folded d1_def]
  show ?thesis
  proof (cases v)
    case (Inl e)
    with u show ?thesis by (cases e) auto
  next
    case (Inr p)
    with u obtain found where f: "peer_of_packet c d1 sk pk p = Some found" by (auto simp: bind_eq_Some_conv)
    show ?thesis
    proof (cases found)
      case None
      with u Inr f show ?thesis by simp
    next
      case (Some a)
      from u Inr f Some obtain t r where
        h: "handle_verified_packet c (ce_rd (se_handle se)) (pr_tunnel (dv_store d ! a)) p (ce_dst (se_handle se)) = Some (t, r)"
        by (auto simp: bind_eq_Some_conv)
      have i: "\<forall>x\<in>set (to_iface cp ((dv_store d ! a)\<lparr> pr_tunnel := t \<rparr>) r). checked pq c cp d a pkt x"
        using handle_verified_delivers [OF h _ verify_packet_parses [OF v [unfolded Inr]]] by (intro to_iface_checked) (auto simp: tunnel_at_def)
      have "\<forall>x\<in>set out. checked pq c cp d a pkt x"
      proof (cases "\<exists>e. r = Err e")
        case True
        with u Inr f Some h show ?thesis by auto
      next
        case False
        with u Inr f Some h have "udp_finish pq c cp se udp addr d1 a ((dv_store d ! a)\<lparr> pr_tunnel := t \<rparr>) r = Some (d', out)"
          by (cases r) (auto simp: bind_eq_Some_conv)
        from udp_finish_checked [OF this i] show ?thesis .
      qed
      then show ?thesis using peer_of_packet_ran [OF f [unfolded Some]] by auto
    qed
  qed
qed

lemma conn_step_checked:
  assumes "conn_step pq c cp se a udp ip d pkt = Some (d', out)"
  shows "\<forall>x\<in>set out. checked pq c cp d a pkt x"
proof -
  from assms obtain h t r where
    d: "decapsulate pq c (ce_rd (se_handle se)) (dv_limiters d) (pr_tunnel (dv_store d ! a)) (Some ip) pkt (ce_dst (se_handle se)) = Some (h, t, r)"
    by (auto simp: conn_step_def Let_def bind_eq_Some_conv)
  have "\<forall>x\<in>set (to_iface cp ((dv_store d ! a)\<lparr> pr_tunnel := t \<rparr>) r). checked pq c cp d a pkt x"
    using decapsulate_delivers [OF d] by (intro to_iface_checked) (auto simp: tunnel_at_def)
  with assms d show ?thesis by (cases r) (auto simp: conn_step_def Let_def bind_eq_Some_conv)
qed

text \<open>Every output of a loop is one of an iteration, from the state that the datagrams before led to.\<close>

lemma udp_loop_output:
  "udp_loop pq c cp udp sk pk rl n d input = Some (d', outs) \<Longrightarrow> x \<in> set outs \<Longrightarrow>
    \<exists>pre se pkt addr post d1 o1 d2 out h. input = pre @ (se, pkt, addr) # post \<and> udp_loop pq c cp udp sk pk rl n d pre = Some (d1, o1) \<and>
      udp_step pq c cp se udp sk pk rl d1 (take MAX_UDP_SIZE pkt) addr = Some (d2, out, h) \<and> x \<in> set out"
proof (induction input arbitrary: n d outs)
  case (Cons i input)
  obtain se pkt addr where i: "i = (se, pkt, addr)" by (cases i)
  with Cons.prems(1) obtain d1 out h where u: "udp_step pq c cp se udp sk pk rl d (take MAX_UDP_SIZE pkt) addr = Some (d1, out, h)"
    by (auto simp: bind_eq_Some_conv)
  show ?case
  proof (cases "x \<in> set out")
    case True
    with i u show ?thesis by (metis append_Nil udp_loop.simps(1))
  next
    case False
    define m where "m = (if h then n - 1 else n)"
    from False Cons.prems i u obtain outs' where l: "udp_loop pq c cp udp sk pk rl m d1 input = Some (d', outs')" "x \<in> set outs'" "\<not> (h \<and> m = 0)"
      by (auto simp: bind_eq_Some_conv Let_def m_def split: if_splits)
    from Cons.IH [OF l(1,2)] obtain pre se' pkt' addr' post d3 o1 d4 out' h' where
      s: "input = pre @ (se', pkt', addr') # post" "udp_loop pq c cp udp sk pk rl m d1 pre = Some (d3, o1)"
        "udp_step pq c cp se' udp sk pk rl d3 (take MAX_UDP_SIZE pkt') addr' = Some (d4, out', h')" "x \<in> set out'" by blast
    have "udp_loop pq c cp udp sk pk rl n d (i # pre) = Some (d3, out @ o1)" using i u s(2) l(3) by (cases h) (simp_all add: m_def)
    then show ?thesis using s(1,3,4) by (metis append_Cons)
  qed
qed simp

lemma conn_loop_output:
  "conn_loop pq c cp a udp ip n d input = Some (d', outs) \<Longrightarrow> x \<in> set outs \<Longrightarrow>
    \<exists>pre se pkt post d1 o1 d2 out. input = pre @ (se, pkt) # post \<and> conn_loop pq c cp a udp ip n d pre = Some (d1, o1) \<and>
      conn_step pq c cp se a udp ip d1 (take MAX_UDP_SIZE pkt) = Some (d2, out) \<and> x \<in> set out"
proof (induction input arbitrary: n d outs)
  case (Cons i input)
  obtain se pkt where i: "i = (se, pkt)" by (cases i)
  with Cons.prems(1) obtain d1 out where u: "conn_step pq c cp se a udp ip d (take MAX_UDP_SIZE pkt) = Some (d1, out)"
    by (auto simp: bind_eq_Some_conv)
  show ?case
  proof (cases "x \<in> set out")
    case True
    with i u show ?thesis by (metis append_Nil conn_loop.simps(1))
  next
    case False
    with Cons.prems i u obtain outs' where l: "conn_loop pq c cp a udp ip (n - 1) d1 input = Some (d', outs')" "x \<in> set outs'" "n - 1 \<noteq> 0"
      by (auto simp: bind_eq_Some_conv Let_def split: if_splits)
    from Cons.IH [OF l(1,2)] obtain pre se' pkt' post d3 o1 d4 out' where
      s: "input = pre @ (se', pkt') # post" "conn_loop pq c cp a udp ip (n - 1) d1 pre = Some (d3, o1)"
        "conn_step pq c cp se' a udp ip d3 (take MAX_UDP_SIZE pkt') = Some (d4, out')" "x \<in> set out'" by blast
    have "conn_loop pq c cp a udp ip n d (i # pre) = Some (d3, out @ o1)" using i u s(2) l(3) by simp
    then show ?thesis using s(1,3,4) by (metis append_Cons)
  qed
qed simp

lemma checkedD:
  assumes "checked pq c cp d1 a m x" and "keeps I d d1" and "a < length (dv_store d)" and "x = Write4 pkt \<or> x = Write6 pkt"
  shows "\<exists>payload src. opens pq c (tunnel_at d1 a) m payload \<and> from_header payload pkt src \<and> is_allowed_ip cp (dv_store d ! a) src"
proof -
  have "pr_allowed_ips (dv_store d1 ! a) = pr_allowed_ips (dv_store d ! a)" using assms(2,3) by (simp add: keeps_def peer_frame_def)
  with assms(1,4) show ?thesis by (auto simp: checked_def is_allowed_ip_def)
qed

lemma udp_handler_inbound:
  assumes "udp_handler pq c cp s d input = Some (d', outs, act)" and "x \<in> set outs" and "x = Write4 pkt \<or> x = Write6 pkt" and "tables_inv routes d"
  shows "\<exists>pre se m addr post d1 outs1 a payload src. input = pre @ (se, m, addr) # post \<and>
    udp_handler pq c cp s d pre = Some (d1, outs1, Continue) \<and> a \<in> ran (dv_peers d) \<and>
    opens pq c (tunnel_at d1 a) (take MAX_UDP_SIZE m) payload \<and> from_header payload pkt src \<and> is_allowed_ip cp (dv_store d ! a) src"
proof -
  from assms(1) obtain sk pk rl where k: "dv_key_pair d = Some (sk, pk)" "dv_rate_limiter d = Some rl"
    "udp_loop pq c cp s sk pk rl MAX_ITR d input = Some (d', outs)" by (auto simp: udp_handler_def bind_eq_Some_conv)
  from udp_loop_output [OF k(3) assms(2)] obtain pre se m addr post d1 o1 d2 out h where
    s: "input = pre @ (se, m, addr) # post" "udp_loop pq c cp s sk pk rl MAX_ITR d pre = Some (d1, o1)"
      "udp_step pq c cp se s sk pk rl d1 (take MAX_UDP_SIZE m) addr = Some (d2, out, h)" "x \<in> set out" by blast
  have k1: "keeps ring_inv d d1" using ring.udp_loop_keeps [OF s(2)] env_ok_True by (simp add: split_beta)
  from udp_step_checked [OF s(3)] s(4) assms(3) obtain a where
    a: "a \<in> ran (dv_peers d1) \<union> ran (dv_peers_by_idx d1)" "checked pq c cp d1 a (take MAX_UDP_SIZE m) x" by fastforce
  have r: "a \<in> ran (dv_peers d)" using a(1) assms(4) keeps_fields(2,3) [OF k1] by (auto simp: tables_inv_def ran_def)
  have "a < length (dv_store d)" using r assms(4) by (auto simp: tables_inv_def ran_def)
  from checkedD [OF a(2) k1 this assms(3)] obtain payload src where
    "opens pq c (tunnel_at d1 a) (take MAX_UDP_SIZE m) payload" "from_header payload pkt src" "is_allowed_ip cp (dv_store d ! a) src" by blast
  moreover have "udp_handler pq c cp s d pre = Some (d1, o1, Continue)" using k(1,2) s(2) by (simp add: udp_handler_def)
  ultimately show ?thesis using s(1) r by blast
qed

lemma conn_handler_inbound:
  assumes "conn_handler pq c cp a s ip d input = Some (d', outs, act)" and "x \<in> set outs" and "x = Write4 pkt \<or> x = Write6 pkt" and "a < length (dv_store d)"
  shows "\<exists>pre se m post d1 outs1 payload src. input = pre @ (se, m) # post \<and>
    conn_handler pq c cp a s ip d pre = Some (d1, outs1, Continue) \<and>
    opens pq c (tunnel_at d1 a) (take MAX_UDP_SIZE m) payload \<and> from_header payload pkt src \<and> is_allowed_ip cp (dv_store d ! a) src"
proof -
  from assms(1) have "conn_loop pq c cp a s ip MAX_ITR d input = Some (d', outs)" by (auto simp: conn_handler_def bind_eq_Some_conv)
  from conn_loop_output [OF this assms(2)] obtain pre se m post d1 o1 d2 out where
    s: "input = pre @ (se, m) # post" "conn_loop pq c cp a s ip MAX_ITR d pre = Some (d1, o1)"
      "conn_step pq c cp se a s ip d1 (take MAX_UDP_SIZE m) = Some (d2, out)" "x \<in> set out" by blast
  have k1: "keeps ring_inv d d1" using ring.conn_loop_keeps [OF s(2)] env_ok_True by (simp add: split_beta)
  from checkedD [OF _ k1 assms(4,3)] conn_step_checked [OF s(3)] s(4) obtain payload src where
    "opens pq c (tunnel_at d1 a) (take MAX_UDP_SIZE m) payload" "from_header payload pkt src" "is_allowed_ip cp (dv_store d ! a) src" by blast
  moreover have "conn_handler pq c cp a s ip d pre = Some (d1, o1, Continue)" using s(2) by (simp add: conn_handler_def)
  ultimately show ?thesis using s(1) by blast
qed

end
