(* ===== verification/Device_Flow.thy ===== *)
theory Device_Flow
  imports Device_Safety
begin

text \<open>
  The way of a packet through two devices: every datagram that the tunnel of a peer accepts is handed
  to this peer, and the packets that one device reads from its interface arrive at the interface of
  the other.
\<close>

section \<open>The peer of a datagram\<close>

lemma open_init_key:
  assumes "open_init c ck h np eph enc_static enc_ts = Some (Inr x)"
  shows "aead_chacha20_open c KEY_LEN (kdf2 c (kdf1 c ck eph) (x25519_dh c (np_static_private np) eph)) 0 enc_static
    (b2s_hash c (b2s_hash c h (np_static_public np)) eph) = Some (Inr (np_peer_static_public np))"
proof -
  from assms obtain r where r: "aead_chacha20_open c KEY_LEN (kdf2 c (kdf1 c ck eph) (x25519_dh c (np_static_private np) eph)) 0 enc_static
    (b2s_hash c (b2s_hash c h (np_static_public np)) eph) = Some r" by (auto simp: open_init_def Let_def bind_eq_Some_conv)
  with assms show ?thesis by (cases r) (auto simp: open_init_def Let_def split: if_splits)
qed

lemma parse_anon_open:
  assumes "np_static_private np = sk" and "np_static_public np = pk"
  shows "open_classical c np hi = Some (Inr x) \<Longrightarrow>
      \<exists>hh. parse_handshake_anon c sk pk hi = Some (Inr hh) \<and> hh_peer_static_public hh = np_peer_static_public np"
    and "open_pq c np pqi = Some (Inr x) \<Longrightarrow>
      \<exists>hh. parse_pq_handshake_anon c sk pk pqi = Some (Inr hh) \<and> hh_peer_static_public hh = np_peer_static_public np"
  using assms by (auto dest!: open_init_key
      simp: parse_handshake_anon_def parse_pq_handshake_anon_def Let_def kdf1_def kdf2_def bind_result_def)

lemma init_accepted_key:
  assumes "np_static_private (hs_params h) = sk" and "np_static_public (hs_params h) = pk"
  shows "receive_handshake_initialization c e h hi dst = Some (h', Inr x) \<Longrightarrow>
      \<exists>hh. parse_handshake_anon c sk pk hi = Some (Inr hh) \<and> hh_peer_static_public hh = np_peer_static_public (hs_params h)"
    and "receive_pq_handshake_initialization c e h pqi dst = Some (h', Inr x) \<Longrightarrow>
      \<exists>hh. parse_pq_handshake_anon c sk pk pqi = Some (Inr hh) \<and> hh_peer_static_public hh = np_peer_static_public (hs_params h)"
proof -
  show "\<exists>hh. parse_handshake_anon c sk pk hi = Some (Inr hh) \<and> hh_peer_static_public hh = np_peer_static_public (hs_params h)"
    if "receive_handshake_initialization c e h hi dst = Some (h', Inr x)"
  proof -
    from that obtain r where r: "open_classical c (hs_params h) hi = Some r" by (auto simp: receive_init_open bind_eq_Some_conv)
    with that obtain y where "r = Inr y" by (cases r) (auto simp: receive_init_open)
    with r parse_anon_open(1) [OF assms] show ?thesis by blast
  qed
  show "\<exists>hh. parse_pq_handshake_anon c sk pk pqi = Some (Inr hh) \<and> hh_peer_static_public hh = np_peer_static_public (hs_params h)"
    if "receive_pq_handshake_initialization c e h pqi dst = Some (h', Inr x)"
  proof -
    from that obtain r where r: "open_pq c (hs_params h) pqi = Some r" by (auto simp: receive_pq_init_open bind_eq_Some_conv)
    with that obtain y where "r = Inr y" by (cases r) (auto simp: receive_pq_init_open)
    with r parse_anon_open(2) [OF assms] show ?thesis by blast
  qed
qed

text \<open>The index that a packet other than an initiation is addressed to.\<close>

fun addressed_to :: "packet \<Rightarrow> u32 option" where
  "addressed_to (HandshakeResponse p) = Some (hr_receiver_idx p)"
| "addressed_to (PqHandshakeResponse p) = Some (pqr_receiver_idx p)"
| "addressed_to (PacketCookieReply p) = Some (cr_receiver_idx p)"
| "addressed_to (PacketData p) = Some (pd_receiver_idx p)"
| "addressed_to _ = None"

lemma awaiting_index: "awaiting h i = Some (s, b) \<Longrightarrow> sent_local_index s = i"
  by (cases "hs_state h"; cases "hs_previous h") (auto simp: awaiting_def split: if_splits)

lemma response_accepted_index:
  assumes "receive_any_response c e h p = Some (h', Inr s)" and "own_indices n h"
  shows "drop_bit 8 (resp_idx p) = n"
proof -
  from receive_any_response_cases [OF assms(1)] obtain s b where a: "awaiting h (resp_idx p) = Some (s, b)" by auto
  with assms(2) awaiting_sent [OF a] awaiting_index [OF a] show ?thesis by (auto simp: own_indices_def)
qed

lemma cookie_accepted_index:
  "receive_cookie_reply c h p = (h', Inr ()) \<Longrightarrow> own_indices n h \<Longrightarrow> drop_bit 8 (cr_receiver_idx p) = n"
  by (auto simp: receive_cookie_reply_def own_indices_def Let_def split: option.splits if_splits)

lemma handle_verified_ok:
  assumes "handle_verified_packet c rd t p dst = Some (t', r)" and "\<And>e. r \<noteq> Err e"
  shows "(case p of
         HandshakeInit p \<Rightarrow> handle_handshake_init c rd t p dst
       | HandshakeResponse p \<Rightarrow> handle_handshake_response c rd t p dst
       | PacketCookieReply p \<Rightarrow> handle_cookie_reply c t p
       | PacketData p \<Rightarrow> handle_data c t p dst
       | PqHandshakeInit p \<Rightarrow> handle_pq_handshake_init c rd t p dst
       | PqHandshakeResponse p \<Rightarrow> handle_pq_handshake_response c rd t p dst) = Some (t', Inr r)"
proof -
  from assms(1) obtain q where q: "(case p of
         HandshakeInit p \<Rightarrow> handle_handshake_init c rd t p dst
       | HandshakeResponse p \<Rightarrow> handle_handshake_response c rd t p dst
       | PacketCookieReply p \<Rightarrow> handle_cookie_reply c t p
       | PacketData p \<Rightarrow> handle_data c t p dst
       | PqHandshakeInit p \<Rightarrow> handle_pq_handshake_init c rd t p dst
       | PqHandshakeResponse p \<Rightarrow> handle_pq_handshake_response c rd t p dst) = Some (t', q)" "r = (case q of Inr t \<Rightarrow> t | Inl e \<Rightarrow> Err e)"
    by (auto simp: handle_verified_packet_def bind_eq_Some_conv)
  with assms(2) show ?thesis by (cases q) auto
qed

lemma accepted_index:
  assumes "handle_verified_packet c rd t p dst = Some (t', r)" and "\<And>e. r \<noteq> Err e" and "addressed_to p = Some i"
    and "own_inv n k t" and "ring_inv t"
  shows "drop_bit 8 i = n"
proof -
  note h = handle_verified_ok [OF assms(1,2)]
  have own: "own_indices n (tn_handshake t)" using assms(4) by (simp add: own_inv_def)
  show ?thesis
  proof (cases p)
    case (HandshakeResponse x)
    with h obtain h' s where "receive_any_response c (rd_env rd) (tn_handshake t) p = Some (h', Inr s)"
      by (auto simp: handle_handshake_response_def receive_any_response_def Let_def bind_eq_Some_conv try_with_Some)
    from response_accepted_index [OF this own] HandshakeResponse assms(3) show ?thesis by simp
  next
    case (PqHandshakeResponse x)
    with h obtain h' s where "receive_any_response c (rd_env rd) (tn_handshake t) p = Some (h', Inr s)"
      by (auto simp: handle_pq_handshake_response_def receive_any_response_def Let_def bind_eq_Some_conv try_with_Some)
    from response_accepted_index [OF this own] PqHandshakeResponse assms(3) show ?thesis by simp
  next
    case (PacketCookieReply x)
    obtain h' q where q: "receive_cookie_reply c (tn_handshake t) x = (h', q)" by fastforce
    with h PacketCookieReply have "q = Inr ()" by (cases q) (auto simp: handle_cookie_reply_def Let_def try_with_Some)
    with cookie_accepted_index [of c _ x] q own PacketCookieReply assms(3) show ?thesis by auto
  next
    case (PacketData x)
    with h obtain s s' payload where s: "tn_sessions t ! (unat (pd_receiver_idx x) mod N_SESSIONS) = Some s"
      "receive_packet_data c s x dst = Some (s', Inr payload)"
      by (cases "tn_sessions t ! (unat (pd_receiver_idx x) mod N_SESSIONS)")
        (auto simp: handle_data_def Let_def bind_eq_Some_conv try_with_Some)
    have "Some s \<in> set (tn_sessions t)" using s(1) assms(5) nth_mem [of "unat (pd_receiver_idx x) mod N_SESSIONS" "tn_sessions t"]
      by (simp add: ring_inv_def N_SESSIONS_def)
    with receive_packet_opens(1) [OF s(2)] assms(3,4) PacketData show ?thesis by (auto simp: own_inv_def)
  qed (use assms(3) in auto)
qed

lemma accepted_peer:
  assumes "handle_verified_packet c rd (tunnel_at d a) p dst = Some (t', r)" and "\<And>e. r \<noteq> Err e"
    and "tables_inv routes d" and "a \<in> ran (dv_peers d)" and "own_inv (pr_index (dv_store d ! a)) (peer_key d a) (tunnel_at d a)"
    and "ring_inv (tunnel_at d a)"
    and "addressed_to p = None \<Longrightarrow> np_static_private (hs_params (tn_handshake (tunnel_at d a))) = sk"
    and "addressed_to p = None \<Longrightarrow> np_static_public (hs_params (tn_handshake (tunnel_at d a))) = pk"
  shows "peer_of_packet c d sk pk p = Some (Some a)"
proof (cases "addressed_to p")
  case (Some i)
  have "drop_bit 8 i = pr_index (dv_store d ! a)" using accepted_index [OF assms(1,2) Some assms(5,6)] .
  then have "dv_peers_by_idx d (drop_bit 8 i) = Some a" using assms(3,4) by (simp add: tables_inv_def)
  with Some show ?thesis by (cases p) (auto simp: peer_of_packet_def)
next
  case None
  obtain k where k: "dv_peers d k = Some a" using assms(4) by (auto simp: ran_def)
  then have "k = np_peer_static_public (hs_params (tn_handshake (tunnel_at d a)))" using assms(3) by (auto simp: tables_inv_def peer_key_def)
  with k None handle_verified_ok [OF assms(1,2)] init_accepted_key [OF assms(7,8) [OF None]] show ?thesis
    by (cases p) (fastforce simp: peer_of_packet_def handle_handshake_init_def handle_pq_handshake_init_def Let_def bind_eq_Some_conv try_with_Some)+
qed

section \<open>The handlers on good datagrams\<close>

definition peers_inv :: "('i \<Rightarrow> net_prefix \<rightharpoonup> nat) \<Rightarrow> ('p, 'i) device \<Rightarrow> bool" where
  "peers_inv routes d \<longleftrightarrow> tables_inv routes d \<and> (\<forall>b < length (dv_store d). ring_inv (tunnel_at d b) \<and>
     own_inv (pr_index (dv_store d ! b)) (peer_key d b) (tunnel_at d b))"

lemma dev_wf_peers: "dev_wf routes M T d \<Longrightarrow> peers_inv routes d"
  by (simp add: dev_wf_def peers_inv_def tunnel_inv_def tunn_wf_def)

lemma peers_inv_keeps:
  assumes "peers_inv routes d" and "keeps ring_inv d d'" and "\<And>n k. keeps (own_inv n k) d d'"
  shows "peers_inv routes d'"
proof -
  note f = keeps_fields [OF assms(2)]
  have idx: "pr_index (dv_store d' ! b) = pr_index (dv_store d ! b)" if "b < length (dv_store d)" for b
    using assms(2) that by (simp add: keeps_def peer_frame_def)
  have own: "own_inv (pr_index (dv_store d ! b)) (peer_key d b) (tunnel_at d' b)" if "b < length (dv_store d)" for b
    using keepsD [OF assms(3) that] assms(1) that by (simp add: peers_inv_def)
  have key: "peer_key d' b = peer_key d b" if "b < length (dv_store d)" for b
    using own [OF that] by (simp add: peer_key_def own_inv_def)
  have lt: "\<And>b. b \<in> ran (dv_peers d) \<Longrightarrow> b < length (dv_store d)"
    using assms(1) by (auto simp: peers_inv_def tables_inv_def ran_def)
  have "tables_inv routes d'" using assms(1) idx key lt unfolding peers_inv_def tables_inv_def f by auto
  moreover have "ring_inv (tunnel_at d' b)" if "b < length (dv_store d)" for b
    using keepsD [OF assms(2) that] assms(1) that by (simp add: peers_inv_def)
  ultimately show ?thesis using own idx key f(8) by (simp add: peers_inv_def)
qed

definition answer :: "('n, 'p, unit) ip_crate \<Rightarrow> nat \<Rightarrow> socket_addr \<Rightarrow> 'p peer \<Rightarrow> tunn_result \<Rightarrow> dev_out list" where
  "answer cp s addr p r = (case r of WriteToNetwork m \<Rightarrow> [SendTo s m addr] | _ \<Rightarrow> to_iface cp p r)"

definition flushed ::
  "bool \<Rightarrow> crypto \<Rightarrow> (nat \<Rightarrow> call_env) \<Rightarrow> rl_heap \<Rightarrow> tunn \<Rightarrow> tunn_result \<Rightarrow> (rl_heap \<times> tunn \<times> bytes list) option" where
  "flushed pq c envs g t r = (case r of WriteToNetwork _ \<Rightarrow> flush_queue pq c envs 0 g t | _ \<Rightarrow> Some (g, t, []))"

lemma set_endpoint_ok: "os_ok os \<Longrightarrow> \<exists>p'. set_endpoint os p addr = Some p'"
  by (auto simp: set_endpoint_def os_ok_def Let_def split: option.splits)

lemma to_iface_frame: "pr_allowed_ips p' = pr_allowed_ips p \<Longrightarrow> to_iface cp p' r = to_iface cp p r"
  by (cases r) (simp_all add: to_iface_def is_allowed_ip_def)

text \<open>A datagram that a configured peer's tunnel accepts: the handler hands it to this tunnel, sends what
  it answers and the packets that waited, or writes what it delivers, and changes nothing else.\<close>

lemma udp_step_accepts:
  assumes inv: "peers_inv routes d" and a: "a \<in> ran (dv_peers d)"
    and v: "verify_packet pq c (rlh_at (dv_limiters d) rl) (rd_cookie (ce_rd (se_verify se))) (Some (sa_ip addr)) m (ce_dst (se_verify se)) = (rl', Inr p)"
    and h: "handle_verified_packet c (ce_rd (se_handle se)) (tunnel_at d a) p (ce_dst (se_handle se)) = Some (t, r)" "\<And>e. r \<noteq> Err e"
    and key: "addressed_to p = None \<Longrightarrow> np_static_private (hs_params (tn_handshake (tunnel_at d a))) = sk"
      "addressed_to p = None \<Longrightarrow> np_static_public (hs_params (tn_handshake (tunnel_at d a))) = pk"
    and f: "flushed pq c (se_flush se) (rl_store (dv_limiters d) rl rl') t r = Some (g, t', ps)"
    and os: "os_ok (se_os se)" "\<not> dv_use_connected_socket d"
  shows "\<exists>d'. udp_step pq c cp se s sk pk rl d m addr =
      Some (d', answer cp s addr (dv_store d ! a) r @ map (\<lambda>m. SendTo s m addr) ps, True) \<and>
    peers_inv routes d' \<and> keeps ring_inv d d' \<and> tunnel_at d' a = t' \<and> dv_limiters d' = g"
proof -
  have len: "a < length (dv_store d)" using inv a by (auto simp: peers_inv_def tables_inv_def ran_def)
  let ?d1 = "d\<lparr> dv_limiters := rl_store (dv_limiters d) rl rl' \<rparr>"
  have "peer_of_packet c d sk pk p = Some (Some a)"
    using accepted_peer [OF h _ a _ _ key] inv len by (auto simp: peers_inv_def)
  then have found: "peer_of_packet c ?d1 sk pk p = Some (Some a)" by (cases p) (simp_all add: peer_of_packet_def)
  let ?p = "(dv_store d ! a)\<lparr> pr_tunnel := t \<rparr>"
  obtain p' where p': "set_endpoint (se_os se) (?p\<lparr> pr_tunnel := t' \<rparr>) addr = Some p'" using set_endpoint_ok [OF os(1)] by blast
  let ?d' = "put_peer (d\<lparr> dv_limiters := g \<rparr>) a p'"
  have fin: "udp_finish pq c cp se s addr ?d1 a ?p r =
      Some (?d', answer cp s addr (dv_store d ! a) r @ map (\<lambda>m. SendTo s m addr) ps)"
    using f p' os(2) to_iface_frame [of ?p "dv_store d ! a"] by (cases r) (simp_all add: udp_finish_def answer_def flushed_def)
  have u: "udp_step pq c cp se s sk pk rl d m addr =
      Some (?d', answer cp s addr (dv_store d ! a) r @ map (\<lambda>m. SendTo s m addr) ps, True)"
    using h(1) h(2) [of "case r of Err e \<Rightarrow> e"] found fin by (cases r) (simp_all add: udp_step_def v tunnel_at_def)
  have "keeps ring_inv d ?d'" "\<And>n k. keeps (own_inv n k) d ?d'"
    using ring.udp_step_keeps [OF u env_ok_True] own.udp_step_keeps [OF u env_ok_True] by blast+
  then have "peers_inv routes ?d'" "keeps ring_inv d ?d'" using peers_inv_keeps [OF inv] by blast+
  moreover have "tunnel_at ?d' a = t'" using set_endpoint_frame [OF p'] len by (simp add: tunnel_at_def put_peer_def)
  moreover have "dv_limiters ?d' = g" by (simp add: put_peer_def)
  ultimately show ?thesis using u by blast
qed

section \<open>Packets that a session carries\<close>

text \<open>What the interface is given for the content of a data packet.\<close>

definition iface_write :: "bytes \<Rightarrow> dev_out list" where
  "iface_write p = (case ip_source p of None \<Rightarrow> [] | Some (IpV4 _) \<Rightarrow> [Write4 p] | Some (IpV6 _) \<Rightarrow> [Write6 p])"

text \<open>The content is a keepalive or a packet of an address the peer may use.\<close>

definition acceptable :: "('n, 'p, unit) ip_crate \<Rightarrow> 'p peer \<Rightarrow> bytes \<Rightarrow> bool" where
  "acceptable cp p pkt \<longleftrightarrow> pkt = [] \<or> (\<exists>x. ip_source pkt = Some x \<and> is_allowed_ip cp p x)"

lemma acceptable_answer:
  assumes "validate_decapsulated_packet t pkt = (t', r)" and "acceptable cp p pkt"
  shows "answer cp s addr p r = iface_write pkt" and "\<And>m. r \<noteq> WriteToNetwork m" and "\<And>e. r \<noteq> Err e"
proof -
  have "(r = Done \<and> iface_write pkt = []) \<or> (\<exists>x. r = to_tunnel pkt x \<and> ip_source pkt = Some x \<and> is_allowed_ip cp p x)"
  proof (cases "pkt = []")
    case True
    with assms(1) show ?thesis by (simp add: validate_decapsulated_packet_def iface_write_def ip_source_def)
  next
    case False
    with assms(2) obtain x where x: "ip_source pkt = Some x" "is_allowed_ip cp p x" by (auto simp: acceptable_def)
    from validate_ip [OF x(1), of t] assms(1) x show ?thesis by auto
  qed
  then show "answer cp s addr p r = iface_write pkt" and "\<And>m. r \<noteq> WriteToNetwork m" and "\<And>e. r \<noteq> Err e"
    by (auto simp: answer_def to_iface_def iface_write_def split: ip_addr.split elim: to_tunnel.elims [OF sym])
qed

lemma data_step:
  assumes ok: "crypto_ok c" and inv: "peers_inv routes d" and a: "a \<in> ran (dv_peers d)"
    and sb: "tn_sessions (tunnel_at d a) ! (session_local_index sb mod N_SESSIONS) = Some sb"
    and keys: "sender s = receiver sb" "sending_index s = receiving_index sb"
    and seen: "replay_rel (receiving_key_counter sb) (A, n)" "A \<subseteq> {..<n}" "n = unat (sending_key_counter s)" "counter_ok (sending_key_counter s)"
    and pkt: "acceptable cp (dv_store d ! a) pkt" "length pkt + 16 \<le> length (ce_dst (se_handle se))"
    and os: "os_ok (se_os se)" "\<not> dv_use_connected_socket d"
  shows "\<exists>d' sb'. udp_step pq c cp se udp sk pk rl d (wire_body (PacketData (data_packet_of c s pkt))) addr = Some (d', iface_write pkt, True) \<and>
    peers_inv routes d' \<and> keeps ring_inv d d' \<and> tn_sessions (tunnel_at d' a) ! (session_local_index sb' mod N_SESSIONS) = Some sb' \<and>
    receiver sb' = receiver sb \<and> receiving_index sb' = receiving_index sb \<and> replay_rel (receiving_key_counter sb') (insert n A, n + 1)"
proof -
  have len: "a < length (dv_store d)" using inv a by (auto simp: peers_inv_def tables_inv_def ran_def)
  have ring: "length (tn_sessions (tunnel_at d a)) = N_SESSIONS" using inv len by (simp add: peers_inv_def ring_inv_def)
  have new: "unat (sending_key_counter s) \<notin> A" "n \<le> unat (sending_key_counter s) + 1024" using seen(2,3) by auto
  from handle_data_ok [OF ok keys seen(1,4) new pkt(2) sb ring] obtain t1 t' sb' r where
    h: "validate_decapsulated_packet t1 pkt = (t', r)" "handle_data c (tunnel_at d a) (data_packet_of c s pkt) (ce_dst (se_handle se)) = Some (t', Inr r)"
      "tn_sessions t1 = (tn_sessions (tunnel_at d a))[session_local_index sb mod N_SESSIONS := Some sb']"
      "receiver sb' = receiver sb" "receiving_index sb' = receiving_index sb"
      "replay_rel (receiving_key_counter sb') (insert n A, n + 1)" by (auto simp: seen(3))
  note w = acceptable_answer [OF h(1) pkt(1)]
  let ?m = "wire_body (PacketData (data_packet_of c s pkt))"
  have v: "verify_packet pq c (rlh_at (dv_limiters d) rl) (rd_cookie (ce_rd (se_verify se))) (Some (sa_ip addr)) ?m (ce_dst (se_verify se)) =
      (rlh_at (dv_limiters d) rl, Inr (PacketData (data_packet_of c s pkt)))"
    by (rule verify_packet_not_handshake [OF data_packet_of_parse [OF ok]]) (simp add: is_handshake_def)
  have hv: "handle_verified_packet c (ce_rd (se_handle se)) (tunnel_at d a) (PacketData (data_packet_of c s pkt)) (ce_dst (se_handle se)) = Some (t', r)"
    using h(2) by (simp add: handle_verified_packet_def)
  have fl: "flushed pq c (se_flush se) g t' r = Some (g, t', [])" for g using w(2) by (cases r) (auto simp: flushed_def)
  from udp_step_accepts [OF inv a v hv w(3) _ _ fl os, of sk pk cp udp] obtain d' where
    u: "udp_step pq c cp se udp sk pk rl d ?m addr = Some (d', answer cp udp addr (dv_store d ! a) r, True)"
      "peers_inv routes d'" "keeps ring_inv d d'" "tunnel_at d' a = t'" by (auto simp del: wire_body.simps)
  have idx: "session_local_index sb' = session_local_index sb" using h(5) by (simp add: session_local_index_def)
  have "tn_sessions t' = tn_sessions t1" using validate_frame [OF h(1)] .
  then have "tn_sessions t' ! (session_local_index sb' mod N_SESSIONS) = Some sb'" using h(3) ring by (simp add: idx)
  then show ?thesis using u h(4-6) w(1) by auto
qed

lemma seal_all_loop:
  assumes "crypto_ok c" and "a \<in> ran (dv_peers d)" and "\<not> dv_use_connected_socket d" and "\<forall>pkt\<in>set pkts. acceptable cp (dv_store d ! a) pkt"
    and "\<forall>se\<in>set es. os_ok (se_os se) \<and> (\<forall>pkt\<in>set pkts. length pkt + DATA_OVERHEAD_SZ \<le> length (ce_dst (se_handle se)))"
    and "\<forall>pkt\<in>set pkts. length pkt + DATA_OVERHEAD_SZ \<le> MAX_UDP_SIZE" and "length es = length pkts"
    and "peers_inv routes d" and "tn_sessions (tunnel_at d a) ! (session_local_index sb mod N_SESSIONS) = Some sb"
    and "sender s = receiver sb" and "sending_index s = receiving_index sb"
    and "replay_rel (receiving_key_counter sb) (A, n)" and "A \<subseteq> {..<n}" and "n = unat (sending_key_counter s)" and "n + length pkts + 1024 < 2 ^ 64"
    and "length pkts < k"
  shows "\<exists>d'. udp_loop pq c cp udp sk pk rl k d (zip es (map (\<lambda>m. (m, addr)) (seal_all c s pkts))) = Some (d', concat (map iface_write pkts))"
  using assms
proof (induction pkts arbitrary: es d s sb A n k)
  case Nil
  then show ?case by simp
next
  case (Cons pkt pkts)
  from Cons.prems(7) obtain se es' where es: "es = se # es'" by (cases es) auto
  let ?m = "wire_body (PacketData (data_packet_of c s pkt))" and ?s = "s\<lparr> sending_key_counter := sending_key_counter s + 1 \<rparr>"
  have len: "a < length (dv_store d)" using Cons.prems(2,8) by (auto simp: peers_inv_def tables_inv_def ran_def)
  have w: "acceptable cp (dv_store d ! a) pkt" and room: "length pkt + 16 \<le> length (ce_dst (se_handle se))" "os_ok (se_os se)"
    "take MAX_UDP_SIZE ?m = ?m"
    using Cons.prems(4,5,6) es data_packet_of_length [OF Cons.prems(1), of s pkt] by (auto simp: size_consts simp del: wire_body.simps)
  have ctr: "counter_ok (sending_key_counter s)" "unat (sending_key_counter s + 1) = n + 1"
    using Cons.prems(14,15) counter_ok_add(2) [of "sending_key_counter s"] by (simp_all add: counter_ok_def)
  from data_step [OF Cons.prems(1,8,2,9-14) ctr(1) w room(1,2) Cons.prems(3), of pq udp sk pk rl addr] obtain d1 sb' where
    u: "udp_step pq c cp se udp sk pk rl d ?m addr = Some (d1, iface_write pkt, True)" "peers_inv routes d1" "keeps ring_inv d d1"
      "tn_sessions (tunnel_at d1 a) ! (session_local_index sb' mod N_SESSIONS) = Some sb'"
      "receiver sb' = receiver sb" "receiving_index sb' = receiving_index sb" "replay_rel (receiving_key_counter sb') (insert n A, n + 1)" by blast
  have al: "pr_allowed_ips (dv_store d1 ! a) = pr_allowed_ips (dv_store d ! a)" using u(3) len by (simp add: keeps_def peer_frame_def)
  have w1: "\<forall>x\<in>set pkts. acceptable cp (dv_store d1 ! a) x" using Cons.prems(4) al by (simp add: acceptable_def is_allowed_ip_def)
  have "\<exists>d'. udp_loop pq c cp udp sk pk rl (k - 1) d1 (zip es' (map (\<lambda>m. (m, addr)) (seal_all c ?s pkts))) = Some (d', concat (map iface_write pkts))"
    using keeps_fields(2,11) [OF u(3)] Cons.prems es u(2,4-7) ctr(2) w1
    by (intro Cons.IH [of d1 es' sb' ?s "insert n A" "n + 1"]) auto
  then obtain d' where "udp_loop pq c cp udp sk pk rl (k - 1) d1 (zip es' (map (\<lambda>m. (m, addr)) (seal_all c ?s pkts))) =
      Some (d', concat (map iface_write pkts))" by blast
  moreover have "k - 1 \<noteq> 0" using Cons.prems(16) by simp
  ultimately show ?case using u(1) room(3) by (simp add: es del: wire_body.simps)
qed

section \<open>Two devices\<close>

text \<open>The device \<open>d\<close> has the private key \<open>sk\<close>, its peer \<open>a\<close> has the public key \<open>pk\<close> and they share \<open>psk\<close>; the
  limiter is the one of the key and not under load, and the sockets are not connected.\<close>

definition linked :: "crypto \<Rightarrow> ('p, 'i) device \<Rightarrow> nat \<Rightarrow> bytes \<Rightarrow> bytes \<Rightarrow> bytes option \<Rightarrow> bool" where
  "linked c d a sk pk psk \<longleftrightarrow> a \<in> ran (dv_peers d) \<and> dv_key_pair d = Some (sk, x25519_public c sk) \<and>
     hs_params (tn_handshake (tunnel_at d a)) = noise_params_new c sk (x25519_public c sk) pk psk \<and> \<not> dv_use_connected_socket d \<and>
     (\<exists>rl. dv_rate_limiter d = Some rl \<and> limiter_for c (x25519_public c sk) (rlh_at (dv_limiters d) rl) \<and>
       rl_count (rlh_at (dv_limiters d) rl) < rl_limit (rlh_at (dv_limiters d) rl))"

definition full_buffers :: "step_env \<Rightarrow> bool" where
  "full_buffers se \<longleftrightarrow> os_ok (se_os se) \<and> length (ce_dst (se_handle se)) = MAX_UDP_SIZE \<and> (\<forall>n. length (ce_dst (se_flush se n)) = MAX_UDP_SIZE)"

lemma udp_handler_one:
  assumes "udp_step pq c cp se s sk pk rl d m addr = Some (d', out, True)" and "dv_key_pair d = Some (sk, pk)" and "dv_rate_limiter d = Some rl"
    and "length m \<le> MAX_UDP_SIZE"
  shows "udp_handler pq c cp s d [(se, m, addr)] = Some (d', out, Continue)"
  using assms by (simp add: udp_handler_def MAX_ITR_def)

lemma handshake_length: "parse_incoming_packet pq m = Inr p \<Longrightarrow> is_handshake p \<Longrightarrow> length m \<le> MAX_UDP_SIZE"
  by (auto simp: parse_incoming_packet_def is_handshake_def size_consts MAX_UDP_SIZE_def Let_def split: if_splits)

lemma iface_sends:
  assumes inv: "peers_inv routes d" and a: "a \<in> ran (dv_peers d)"
    and e: "encapsulate pq c (ce_rd (se_handle se)) (tunnel_at d a) src (ce_dst (se_handle se)) = Some (t, WriteToNetwork m)"
    and dst: "dst_address src = Some x" "allowed_ips_find ci (dv_peers_by_ip d) x = Some a" "length src \<le> dv_mtu d" "dv_mtu d \<le> MAX_UDP_SIZE"
    and addr: "pr_endpoint (dv_store d ! a) = \<lparr> ep_addr = Some addr, ep_conn = None \<rparr>" "dv_udp4 d \<noteq> None" "dv_udp6 d \<noteq> None"
  shows "\<exists>d' s. iface_handler pq c ci d [(se, IfacePacket src)] = Some (d', [SendTo s m addr], Continue) \<and>
    peers_inv routes d' \<and> keeps ring_inv d d' \<and> tunnel_at d' a = t \<and> dv_limiters d' = dv_limiters d"
proof -
  have len: "a < length (dv_store d)" using inv a by (auto simp: peers_inv_def tables_inv_def ran_def)
  obtain u4 u6 where u: "dv_udp4 d = Some u4" "dv_udp6 d = Some u6" using addr(2,3) by auto
  let ?d' = "put_peer d a ((dv_store d ! a)\<lparr> pr_tunnel := t \<rparr>)" and ?s = "if is_v4 (sa_ip addr) then u4 else u6"
  have "iface_step pq c ci se u4 u6 d src = Some (?d', [SendTo ?s m addr])"
    using e dst(1,2) addr(1) by (simp add: iface_step_def tunnel_at_def)
  then have l: "iface_loop pq c ci u4 u6 MAX_ITR d [(se, IfacePacket src)] = Some (?d', [SendTo ?s m addr], Continue)"
    using dst(3,4) by (simp add: MAX_ITR_def numeral_eq_Suc)
  have "keeps ring_inv d ?d'" "\<And>n k. keeps (own_inv n k) d ?d'"
    using ring.iface_loop_keeps [OF l] own.iface_loop_keeps [OF l] env_ok_True by (simp_all add: split_def)
  then have "peers_inv routes ?d'" "keeps ring_inv d ?d'" using peers_inv_keeps [OF inv] by blast+
  moreover have "iface_handler pq c ci d [(se, IfacePacket src)] = Some (?d', [SendTo ?s m addr], Continue)"
    using l u by (simp add: iface_handler_def)
  moreover have "tunnel_at ?d' a = t" "dv_limiters ?d' = dv_limiters d" using len by (simp_all add: tunnel_at_def put_peer_def)
  ultimately show ?thesis by blast
qed

lemma linked_verifies:
  assumes "linked c d a sk pk psk" and "dv_rate_limiter d = Some rl" and "crypto_ok c"
    and "parse_incoming_packet pq m = Inr p" and "is_handshake p"
    and "\<And>rl. limiter_for c (x25519_public c sk) rl \<Longrightarrow> mac1_ok c rl m"
  shows "\<exists>rl'. verify_packet pq c (rlh_at (dv_limiters d) rl) now ip m dst = (rl', Inr p)"
  using assms(1,2) assms(6) [of "rlh_at (dv_limiters d) rl"] verify_packet_handshake [OF assms(4,5,3)] by (auto simp: linked_def)

lemma answers_initiation:
  assumes inv: "peers_inv routes d" and l: "linked c d a sk pk psk" and ok: "crypto_ok c" and b: "full_buffers se"
    and idle: "tn_packet_queue (tunnel_at d a) = []"
    and p: "parse_incoming_packet pq m = Inr p" "is_handshake p" "\<And>rl. limiter_for c (x25519_public c sk) rl \<Longrightarrow> mac1_ok c rl m"
    and r: "receive_any_init c (rd_env (ce_rd (se_handle se))) (tn_handshake (tunnel_at d a)) p (ce_dst (se_handle se)) = Some (h, Inr (m', s))"
  shows "\<exists>d'. udp_handler pq c cp udp d [(se, m, addr)] = Some (d', [SendTo udp m' addr], Continue) \<and> peers_inv routes d' \<and>
    keeps ring_inv d d' \<and> tn_sessions (tunnel_at d' a) = (tn_sessions (tunnel_at d a))[session_local_index s mod N_SESSIONS := Some s]"
proof -
  obtain rl where rl: "dv_rate_limiter d = Some rl" using l by (auto simp: linked_def)
  obtain rl' where v: "verify_packet pq c (rlh_at (dv_limiters d) rl) (rd_cookie (ce_rd (se_verify se))) (Some (sa_ip addr)) m
    (ce_dst (se_verify se)) = (rl', Inr p)" using linked_verifies [OF l rl ok p] by blast
  from handle_init_ok [OF r] obtain t where
    t: "handle_verified_packet c (ce_rd (se_handle se)) (tunnel_at d a) p (ce_dst (se_handle se)) = Some (t, WriteToNetwork m')"
      "tn_sessions t = (tn_sessions (tunnel_at d a))[session_local_index s mod N_SESSIONS := Some s]" "tn_packet_queue t = []"
    using idle by auto
  have f: "flushed pq c (se_flush se) g t (WriteToNetwork m') = Some (g, t, [])" for g
    unfolding flushed_def using send_queued_empty [OF t(3)] by (subst (1) tunn_result.case, subst flush_queue.simps) simp
  have l': "a \<in> ran (dv_peers d)" "dv_key_pair d = Some (sk, x25519_public c sk)" "\<not> dv_use_connected_socket d" "os_ok (se_os se)"
    "np_static_private (hs_params (tn_handshake (tunnel_at d a))) = sk" "np_static_public (hs_params (tn_handshake (tunnel_at d a))) = x25519_public c sk"
    using l b by (auto simp: linked_def full_buffers_def)
  from udp_step_accepts [OF inv l'(1) v t(1) _ l'(5,6) f l'(4,3), of cp udp] obtain d' where
    u: "udp_step pq c cp se udp sk (x25519_public c sk) rl d m addr = Some (d', [SendTo udp m' addr], True)"
      "peers_inv routes d'" "keeps ring_inv d d'" "tunnel_at d' a = t" by (auto simp: answer_def)
  with udp_handler_one [OF u(1) l'(2) rl handshake_length [OF p(1,2)]] t(2) show ?thesis by auto
qed

lemma takes_response:
  assumes inv: "peers_inv routes d" and l: "linked c d a sk pk psk" and ok: "crypto_ok c" and b: "full_buffers se"
    and idle: "tn_sessions (tunnel_at d a) ! (tn_current (tunnel_at d a) mod N_SESSIONS) = None"
    and room: "\<And>x. x \<in> set (tn_packet_queue (tunnel_at d a)) \<Longrightarrow> length x + DATA_OVERHEAD_SZ \<le> MAX_UDP_SIZE"
    and p: "parse_incoming_packet pq m = Inr p" "is_handshake p" "\<And>rl. limiter_for c (x25519_public c sk) rl \<Longrightarrow> mac1_ok c rl m"
    and r: "receive_any_response c (rd_env (ce_rd (se_handle se))) (tn_handshake (tunnel_at d a)) p = Some (h, Inr s)"
  shows "\<exists>d'. udp_handler pq c cp udp d [(se, m, addr)] =
    Some (d', map (\<lambda>m. SendTo udp m addr) (seal_all c s ([] # tn_packet_queue (tunnel_at d a))), Continue)"
proof -
  obtain rl where rl: "dv_rate_limiter d = Some rl" using l by (auto simp: linked_def)
  obtain rl' where v: "verify_packet pq c (rlh_at (dv_limiters d) rl) (rd_cookie (ce_rd (se_verify se))) (Some (sa_ip addr)) m
    (ce_dst (se_verify se)) = (rl', Inr p)" using linked_verifies [OF l rl ok p] by blast
  have len: "a < length (dv_store d)" using inv l by (auto simp: peers_inv_def tables_inv_def linked_def ran_def)
  have n: "length (tn_sessions (tunnel_at d a)) = N_SESSIONS" using inv len by (simp add: peers_inv_def ring_inv_def)
  have buf: "DATA_OVERHEAD_SZ \<le> length (ce_dst (se_handle se))" using b by (simp add: full_buffers_def size_consts MAX_UDP_SIZE_def)
  let ?s = "s\<lparr> sending_key_counter := sending_key_counter s + 1 \<rparr>" and ?m = "wire_body (PacketData (data_packet_of c s []))"
  from handle_response_ok [OF r buf n] idle obtain t where
    t: "handle_verified_packet c (ce_rd (se_handle se)) (tunnel_at d a) p (ce_dst (se_handle se)) = Some (t, WriteToNetwork ?m)"
      "tn_sessions t = (tn_sessions (tunnel_at d a))[session_local_index s mod N_SESSIONS := Some ?s]"
      "tn_packet_queue t = tn_packet_queue (tunnel_at d a)" "tn_current t mod N_SESSIONS = session_local_index s mod N_SESSIONS" by auto
  have cur: "tn_sessions t ! (tn_current t mod N_SESSIONS) = Some ?s" "length (tn_sessions t) = N_SESSIONS" using t(2,4) n by simp_all
  have fits: "length x + DATA_OVERHEAD_SZ \<le> length (ce_dst (se_flush se n))" if "x \<in> set (tn_packet_queue t)" for n x
    using room that t(3) b by (simp add: full_buffers_def)
  have "\<exists>t'. flushed pq c (se_flush se) g t (WriteToNetwork ?m) = Some (g, t', seal_all c ?s (tn_packet_queue (tunnel_at d a)))" for g
    using flush_session [where pq = pq and n = 0 and heap = g and envs = "se_flush se", OF cur fits] t(3) by (auto simp: flushed_def)
  then obtain t' where f: "flushed pq c (se_flush se) (rl_store (dv_limiters d) rl rl') t (WriteToNetwork ?m) =
      Some (rl_store (dv_limiters d) rl rl', t', seal_all c ?s (tn_packet_queue (tunnel_at d a)))" by blast
  have l': "a \<in> ran (dv_peers d)" "dv_key_pair d = Some (sk, x25519_public c sk)" "\<not> dv_use_connected_socket d" "os_ok (se_os se)"
    "np_static_private (hs_params (tn_handshake (tunnel_at d a))) = sk" "np_static_public (hs_params (tn_handshake (tunnel_at d a))) = x25519_public c sk"
    using l b by (auto simp: linked_def full_buffers_def)
  from udp_step_accepts [OF inv l'(1) v t(1) _ l'(5,6) f l'(4,3), of cp udp] obtain d' where
    "udp_step pq c cp se udp sk (x25519_public c sk) rl d m addr =
      Some (d', map (\<lambda>m. SendTo udp m addr) (seal_all c s ([] # tn_packet_queue (tunnel_at d a))), True)"
    by (auto simp: answer_def simp del: wire_body.simps)
  from udp_handler_one [OF this l'(2) rl handshake_length [OF p(1,2)]] show ?thesis by blast
qed

lemma session_carries:
  assumes inv: "peers_inv routes d" and l: "a \<in> ran (dv_peers d)" "dv_key_pair d = Some (sk, pk)" "dv_rate_limiter d = Some rl" "\<not> dv_use_connected_socket d"
    and ok: "crypto_ok c" and b: "\<forall>se\<in>set es. full_buffers se" "length es = length pkts"
    and s: "tn_sessions (tunnel_at d a) ! (unat j mod N_SESSIONS) = Some (session_new j i k1 k2)"
    and pkts: "\<forall>pkt\<in>set pkts. acceptable cp (dv_store d ! a) pkt \<and> length pkt + DATA_OVERHEAD_SZ \<le> MAX_UDP_SIZE" "length pkts < MAX_ITR"
  shows "\<exists>d'. udp_handler pq c cp udp d (zip es (map (\<lambda>m. (m, addr)) (seal_all c (session_new i j k2 k1) pkts))) =
    Some (d', concat (map iface_write pkts), Continue)"
proof -
  let ?sa = "session_new i j k2 k1" and ?sb = "session_new j i k1 k2"
  have keys: "sender ?sa = receiver ?sb" "sending_index ?sa = receiving_index ?sb" "replay_rel (receiving_key_counter ?sb) ({}, 0)"
    and n: "0 = unat (sending_key_counter ?sa)" "0 + length pkts + 1024 < 2 ^ 64"
    and sb: "tn_sessions (tunnel_at d a) ! (session_local_index ?sb mod N_SESSIONS) = Some ?sb"
    using replay_rel_init s pkts(2) by (simp_all add: session_new_def session_local_index_def MAX_ITR_def)
  have "\<forall>se\<in>set es. os_ok (se_os se) \<and> (\<forall>pkt\<in>set pkts. length pkt + DATA_OVERHEAD_SZ \<le> length (ce_dst (se_handle se)))"
    using b(1) pkts(1) by (simp add: full_buffers_def)
  from seal_all_loop [OF ok l(1,4) _ this _ b(2) inv sb keys _ n pkts(2), of cp pq udp sk pk rl addr] pkts(1) obtain d' where
    "udp_loop pq c cp udp sk pk rl MAX_ITR d (zip es (map (\<lambda>m. (m, addr)) (seal_all c ?sa pkts))) = Some (d', concat (map iface_write pkts))" by auto
  then show ?thesis using l(2,3) by (simp add: udp_handler_def)
qed

text \<open>The initiator has no session and no handshake in progress, and knows the address of the responder; the
  responder has nothing to send.\<close>

definition idle_pair :: "('p, 'i) device \<Rightarrow> nat \<Rightarrow> socket_addr \<Rightarrow> ('p, 'i) device \<Rightarrow> nat \<Rightarrow> bool" where
  "idle_pair da a addr db b \<longleftrightarrow>
     tn_sessions (tunnel_at da a) ! (tn_current (tunnel_at da a) mod N_SESSIONS) = None \<and> \<not> is_in_progress (tn_handshake (tunnel_at da a)) \<and>
     pr_endpoint (dv_store da ! a) = \<lparr> ep_addr = Some addr, ep_conn = None \<rparr> \<and> dv_udp4 da \<noteq> None \<and> dv_udp6 da \<noteq> None \<and>
     length (tn_packet_queue (tunnel_at da a)) + 3 \<le> MAX_ITR \<and> tn_packet_queue (tunnel_at db b) = []"

lemma devices_deliver:
  assumes ok: "crypto_ok c" and inv: "peers_inv routes da" "peers_inv routes db"
    and la: "linked c da a sa (x25519_public c sb) psk" and lb: "linked c db b sb (x25519_public c sa) psk"
    and idle: "idle_pair da a addrb db b"
    and stamp: "fresh_stamp (rd_env (ce_rd (se_handle e1))) (tunnel_at da a) (tunnel_at db b)"
    and kem: "kem_agrees pq c (rd_env (ce_rd (se_handle e1))) (rd_env (ce_rd (se_handle e2)))"
    and bufs: "full_buffers e1" "full_buffers e2" "full_buffers e3" "\<forall>se\<in>set es. full_buffers se"
    and pkts: "pkts = tn_packet_queue (tunnel_at da a) @ [src]" "length es = length pkts + 1"
      "\<forall>pkt\<in>set pkts. acceptable cp (dv_store db ! b) pkt \<and> length pkt + DATA_OVERHEAD_SZ \<le> MAX_UDP_SIZE"
    and dst: "dst_address src = Some x" "allowed_ips_find ci (dv_peers_by_ip da) x = Some a" "length src \<le> dv_mtu da" "dv_mtu da \<le> MAX_UDP_SIZE"
  shows "\<exists>da1 db1 da2 db2 s m1 m2 ms.
    iface_handler pq c ci da [(e1, IfacePacket src)] = Some (da1, [SendTo s m1 addrb], Continue) \<and>
    udp_handler pq c cp ub db [(e2, m1, addra)] = Some (db1, [SendTo ub m2 addra], Continue) \<and>
    udp_handler pq c cp ua da1 [(e3, m2, addrb)] = Some (da2, map (\<lambda>m. SendTo ua m addrb) ms, Continue) \<and> length ms = length es \<and>
    udp_handler pq c cp ub db1 (zip es (map (\<lambda>m. (m, addra)) ms)) = Some (db2, concat (map iface_write pkts), Continue)"
proof -
  let ?ta = "tunnel_at da a" and ?tb = "tunnel_at db b" and ?d1 = "ce_dst (se_handle e1)" and ?d2 = "ce_dst (se_handle e2)"
  have pa: "hs_params (tn_handshake ?ta) = noise_params_new c sa (x25519_public c sa) (x25519_public c sb) psk"
    and pb: "hs_params (tn_handshake ?tb) = noise_params_new c sb (x25519_public c sb) (x25519_public c sa) psk"
    and ra: "a \<in> ran (dv_peers da)" and rb: "b \<in> ran (dv_peers db)" using la lb by (auto simp: linked_def)
  have len: "PQ_HANDSHAKE_INIT_SZ \<le> length ?d1" "PQ_HANDSHAKE_RESP_SZ \<le> length ?d2"
    using bufs(1,2) by (simp_all add: full_buffers_def size_consts MAX_UDP_SIZE_def)
  note idle = idle [unfolded idle_pair_def]
  obtain ts tm where ts: "stamp (hs_stamper (tn_handshake ?ta)) (env_stamp_now (rd_env (ce_rd (se_handle e1)))) = Some ts"
      "tai64n_parse ts = Inr tm" "after tm (hs_last_handshake_timestamp (tn_handshake ?tb))"
    using stamp by (auto simp: fresh_stamp_def split: option.splits sum.splits)
  from agreement [OF ok pa pb ts kem len, of "rd_env (ce_rd (se_handle e3))"] obtain ha1 m1 p hb1 m2 q i j k1 k2 w where g:
    "format_any_init c (rd_env (ce_rd (se_handle e1))) (tn_handshake ?ta) pq ?d1 = Some (ha1, Inr m1)"
    "parse_incoming_packet pq m1 = Inr p" "is_handshake p"
    "receive_any_init c (rd_env (ce_rd (se_handle e2))) (tn_handshake ?tb) p ?d2 = Some (hb1, Inr (m2, session_new j i k1 k2))"
    "parse_incoming_packet pq m2 = Inr q" "is_handshake q" "hs_params ha1 = hs_params (tn_handshake ?ta)"
    "receive_any_response c (rd_env (ce_rd (se_handle e3))) ha1 q = Some (w, Inr (session_new i j k2 k1))" by metis
  have "length (tn_packet_queue ?ta) < MAX_QUEUE_DEPTH" using idle by (simp add: MAX_ITR_def MAX_QUEUE_DEPTH_def)
  from encapsulate_queues [OF _ _ g(1) this, of src] idle obtain ta1 where
    ta1: "encapsulate pq c (ce_rd (se_handle e1)) ?ta src ?d1 = Some (ta1, WriteToNetwork m1)" "tn_handshake ta1 = ha1"
      "tn_sessions ta1 = tn_sessions ?ta" "tn_packet_queue ta1 = pkts" "tn_current ta1 = tn_current ?ta" by (auto simp: pkts(1))
  from iface_sends [OF inv(1) ra ta1(1) dst] idle obtain da1 s where
    s1: "iface_handler pq c ci da [(e1, IfacePacket src)] = Some (da1, [SendTo s m1 addrb], Continue)"
      "peers_inv routes da1" "keeps ring_inv da da1" "tunnel_at da1 a = ta1" "dv_limiters da1 = dv_limiters da" by blast
  from answers_initiation [OF inv(2) lb ok bufs(2) _ g(2,3) init_mac1 [OF ok pa g(1)] g(4), of cp ub addra] idle obtain db1 where
    s2: "udp_handler pq c cp ub db [(e2, m1, addra)] = Some (db1, [SendTo ub m2 addra], Continue)" "peers_inv routes db1" "keeps ring_inv db db1"
      "tn_sessions (tunnel_at db1 b) = (tn_sessions ?tb)[session_local_index (session_new j i k1 k2) mod N_SESSIONS := Some (session_new j i k1 k2)]"
    by blast
  have la1: "linked c da1 a sa (x25519_public c sb) psk"
    using la keeps_fields [OF s1(3)] s1(4,5) ta1(2) g(7) by (simp add: linked_def)
  have mac: "mac1_ok c rl m2" if "limiter_for c (x25519_public c sa) rl" for rl using response_mac1 [OF ok g(4)] pb that by simp
  have r: "receive_any_response c (rd_env (ce_rd (se_handle e3))) (tn_handshake (tunnel_at da1 a)) q = Some (w, Inr (session_new i j k2 k1))"
    using g(8) s1(4) ta1(2) by simp
  from takes_response [OF s1(2) la1 ok bufs(3) _ _ g(5,6) mac r, of cp ua addrb] idle ta1(3-5) s1(4) pkts(3) obtain da2 where
    s3: "udp_handler pq c cp ua da1 [(e3, m2, addrb)] = Some (da2, map (\<lambda>m. SendTo ua m addrb) (seal_all c (session_new i j k2 k1) ([] # pkts)), Continue)"
    by auto
  have lenb: "b < length (dv_store db)" using inv(2) rb by (auto simp: peers_inv_def tables_inv_def ran_def)
  have n: "length (tn_sessions ?tb) = N_SESSIONS" using inv(2) lenb by (simp add: peers_inv_def ring_inv_def)
  have sess: "tn_sessions (tunnel_at db1 b) ! (unat j mod N_SESSIONS) = Some (session_new j i k1 k2)"
    using s2(4) n by (simp add: session_local_index_def session_new_def)
  obtain rl where rl: "dv_rate_limiter db = Some rl" using lb by (auto simp: linked_def)
  have al: "pr_allowed_ips (dv_store db1 ! b) = pr_allowed_ips (dv_store db ! b)" using s2(3) lenb by (simp add: keeps_def peer_frame_def)
  have acc: "\<forall>pkt\<in>set ([] # pkts). acceptable cp (dv_store db1 ! b) pkt \<and> length pkt + DATA_OVERHEAD_SZ \<le> MAX_UDP_SIZE"
    using pkts(3) al by (auto simp: acceptable_def is_allowed_ip_def size_consts MAX_UDP_SIZE_def)
  have k: "b \<in> ran (dv_peers db1)" "dv_key_pair db1 = Some (sb, x25519_public c sb)" "dv_rate_limiter db1 = Some rl" "\<not> dv_use_connected_socket db1"
    using lb keeps_fields [OF s2(3)] rl by (auto simp: linked_def)
  have "length ([] # pkts) < MAX_ITR" "length es = length ([] # pkts)" using idle pkts(1,2) by simp_all
  from session_carries [OF s2(2) k ok bufs(4) this(2) sess acc this(1), of pq ub addra] obtain db2 where
    s4: "udp_handler pq c cp ub db1 (zip es (map (\<lambda>m. (m, addra)) (seal_all c (session_new i j k2 k1) ([] # pkts)))) =
      Some (db2, concat (map iface_write pkts), Continue)" by (auto simp: iface_write_def ip_source_def)
  have "length (seal_all c s' ps) = length ps" for s' ps by (induction ps arbitrary: s') simp_all
  then have "length (seal_all c (session_new i j k2 k1) ([] # pkts)) = length es" using pkts(2) by simp
  then show ?thesis using s1(1) s2(1) s3 s4 by blast
qed

end
