(* ===== verification/Device_Properties.thy ===== *)
theory Device_Properties
  imports Device_Flow
begin

text \<open>
  The properties of a device, for every state that any sequence of configuration commands, datagrams,
  packets and timers can reach.
\<close>

text \<open>C8: the tables of a device agree in every reachable state: a public key leads to a peer whose
  tunnel is for this key; the table of indices has exactly the configured peers, each under its own
  index; every route leads to a configured peer; the indices of all peers ever added are different
  24-bit numbers; and the queue of no peer exceeds 256 packets of the size the interface can read.\<close>
theorem device_tables_consistent:
  assumes "dev_reach pq c cp ci M T d" and "ip_crate_ok ci routes" and "crypto_ok c"
  shows "(\<forall>k a. dv_peers d k = Some a \<longrightarrow> a < length (dv_store d) \<and>
      np_peer_static_public (hs_params (tn_handshake (pr_tunnel (dv_store d ! a)))) = k) \<and>
    (\<forall>i a. dv_peers_by_idx d i = Some a \<longleftrightarrow> a \<in> ran (dv_peers d) \<and> pr_index (dv_store d ! a) = i) \<and>
    ran (routes (dv_peers_by_ip d)) \<subseteq> ran (dv_peers d) \<and>
    distinct (map pr_index (dv_store d)) \<and>
    (\<forall>p\<in>set (dv_store d). pr_index p < 2 ^ 24 \<and> length (tn_packet_queue (pr_tunnel p)) \<le> 256 \<and>
      (\<forall>q\<in>set (tn_packet_queue (pr_tunnel p)). length q \<le> M))"
proof -
  note wf = dev_wf_facts [OF dev_reach_wf [OF assms]]
  have q: "length (tn_packet_queue (pr_tunnel p)) \<le> 256 \<and> (\<forall>q\<in>set (tn_packet_queue (pr_tunnel p)). length q \<le> M)"
    if "p \<in> set (dv_store d)" for p
    using wf(5) that by (auto simp: in_set_conv_nth tunnel_inv_def queue_inv_def tunnel_at_def MAX_QUEUE_DEPTH_def)
  show ?thesis using wf(1) index_inv_distinct [OF wf(2)] q
    unfolding tables_inv_def peer_key_def tunnel_at_def by blast
qed

theorem device_tables_consistent_witness:
  "\<exists>d :: (unit net_list, nat net_list) device. dev_reach True plain_crypto list_crate list_crate 1420 demo_instant d \<and>
     dv_peers d (x25519_public plain_crypto [3]) = Some 0 \<and> dv_peers_by_idx d 4 = Some 0"
proof -
  from demo_device [of True "[3]" "[2]" True] obtain d p where d: "dev_reach True plain_crypto list_crate list_crate 1420 demo_instant d"
    "dv_peers d = [x25519_public plain_crypto [3] \<mapsto> 0]" "dv_store d = [p]" "pr_index p = 4" by blast
  from device_tables_consistent [OF d(1) list_crate_ok plain_crypto_ok] d show ?thesis by (intro exI [of _ d]) simp
qed

text \<open>C2: no datagram and no packet makes a device panic. In every reachable state with a private key
  and open sockets, the handlers of the listening sockets, of the connected sockets and of the
  interface and the timer of the peers return, whatever they read, when the buffers have their full
  size, the MTU leaves room for the overhead of a data packet, the operating system can close,
  duplicate and watch the sockets, and the clock neither goes back nor leaves the range of a
  timestamp. In particular the loops that send the waiting packets end.\<close>
theorem device_never_panics:
  assumes "dev_reach pq c cp ci M T d" and "ip_crate_ok ci routes" and "crypto_ok c" and "M + 32 \<le> 65535"
    and "dv_key_pair d \<noteq> None" and "dv_udp4 d \<noteq> None" and "dv_udp6 d \<noteq> None"
    and "\<forall>a < length (dv_store d). st a = hs_stamper (tn_handshake (pr_tunnel (dv_store d ! a)))"
    and "\<forall>(se, x)\<in>set input. env_fits st se" and "\<forall>(se, x)\<in>set input'. env_fits st se" and "\<forall>(se, x)\<in>set reads. env_fits st se"
    and "a < length (dv_store d)" and "iterates d order"
    and "\<forall>a. env_fits st (envs a) \<and> clock_between T (ce_rd (se_handle (envs a))) T'"
  shows "udp_handler pq c cp s d input \<noteq> None \<and> conn_handler pq c cp a s ip d input' \<noteq> None \<and>
    iface_handler pq c ci d reads \<noteq> None \<and> peers_timer pq c envs order d \<noteq> None"
proof -
  note wf = dev_reach_wf [OF assms(1-3)] and facts = dev_wf_facts [OF dev_reach_wf [OF assms(1-3)]]
  have fits: "dev_fits M st d" using dev_wf_fits [OF wf assms(4)] assms(8) by (simp add: dev_fits_def tunnel_at_def)
  have refs: "refs_ok routes d" using tables_refs [OF facts(1)] .
  obtain sk pk rl where k: "dv_key_pair d = Some (sk, pk)" "dv_rate_limiter d = Some rl"
    using facts(1) assms(5) unfolding tables_inv_def by fastforce
  obtain u4 u6 where u: "dv_udp4 d = Some u4" "dv_udp6 d = Some u6" using assms(6,7) by blast
  have "udp_handler pq c cp s d input \<noteq> None"
    using udp_loop_returns [OF assms(3) fits refs assms(9), of pq cp s sk pk rl MAX_ITR] k by (auto simp: udp_handler_def)
  moreover have "conn_handler pq c cp a s ip d input' \<noteq> None"
    using conn_loop_returns [OF assms(3) fits assms(12,10), of pq cp s ip MAX_ITR] by (auto simp: conn_handler_def)
  moreover have "iface_handler pq c ci d reads \<noteq> None"
    using iface_loop_returns [OF assms(3) fits refs assms(2,11), of pq u4 u6 MAX_ITR] u by (simp add: iface_handler_def)
  moreover have "peers_timer pq c envs order d \<noteq> None"
  proof -
    note v = peer_values_facts [OF facts(1) assms(13)]
    have "tunn_wf T (tunnel_at d b) \<and> tunnel_fits M (st b) (tunnel_at d b)" if "b \<in> set (peer_values d order)" for b
    proof -
      have b: "b < length (dv_store d)" using that v(2) facts(6) by (auto simp: ran_def)
      then show ?thesis using facts(5) [OF b] fits by (simp add: tunnel_inv_def dev_fits_def)
    qed
    then have t: "\<forall>b\<in>set (peer_values d order). tunn_wf T (tunnel_at d b) \<and> tunnel_fits M (st b) (tunnel_at d b)" by blast
    have "tick_peers pq c envs u4 u6 d (peer_values d order) \<noteq> None" using tick_peers_returns [OF assms(3) v(1) t assms(14)] .
    then show ?thesis using u by (auto simp: peers_timer_def)
  qed
  ultimately show ?thesis by blast
qed

definition demo_se :: step_env where
  "demo_se = (let ce = \<lparr> ce_rd = demo_rd 1 0, ce_dst = replicate MAX_UDP_SIZE 0 \<rparr> in
     \<lparr> se_verify = ce, se_handle = ce, se_flush = (\<lambda>_. ce), se_os = demo_os \<rparr>)"

lemma demo_stamp_some: "stamp (hs_stamper (demo_handshake sk peer idx)) demo_instant \<noteq> None"
  using demo_handshake_facts(2) [of sk peer idx 1] by (simp add: demo_env_def)

lemma demo_se_fits: "(\<And>a. st a = hs_stamper (demo_handshake [2] [3] (push_bit 8 4))) \<Longrightarrow> env_fits st demo_se"
  using demo_stamp_some by (auto simp: env_fits_def demo_se_def Let_def demo_rd_def demo_env_def)

theorem device_never_panics_witness:
  "\<exists>d :: (unit net_list, nat net_list) device. dev_reach True plain_crypto list_crate list_crate 1420 demo_instant d \<and>
     udp_handler True plain_crypto list_crate 4 d [(demo_se, [1, 0, 0, 0], demo_addr)] \<noteq> None \<and>
     iface_handler True plain_crypto list_crate d [(demo_se, IfacePacket demo_packet)] \<noteq> None"
proof -
  from demo_device [of True "[3]" "[2]" True] obtain d p where d: "dev_reach True plain_crypto list_crate list_crate 1420 demo_instant d"
    "dv_peers d = [x25519_public plain_crypto [3] \<mapsto> 0]" "dv_store d = [p]" "tn_handshake (pr_tunnel p) = demo_handshake [2] [3] (push_bit 8 4)"
    "dv_udp4 d = Some 4" "dv_udp6 d = Some 6" "dv_key_pair d = Some ([2], x25519_public plain_crypto [2])" by blast
  let ?k = "x25519_public plain_crypto [3]" and ?st = "\<lambda>_ :: nat. hs_stamper (demo_handshake [2] [3] (push_bit 8 4))"
  have fits: "env_fits ?st demo_se" by (rule demo_se_fits) (rule refl)
  have "iterates d [?k]" "clock_between demo_instant (ce_rd (se_handle demo_se)) demo_instant"
    using d(2) demo_clock(2) [of 0 1] by (simp_all add: iterates_def demo_se_def demo_instant_def Let_def)
  with fits d(3-7) show ?thesis
    using device_never_panics [OF d(1) list_crate_ok plain_crypto_ok, of ?st "[(demo_se, [1, 0, 0, 0], demo_addr)]" "[]"
      "[(demo_se, IfacePacket demo_packet)]" 0 "[?k]" "\<lambda>_. demo_se" demo_instant 4] d(1)
    by fastforce
qed

text \<open>Two devices for the witnesses.\<close>

lemma demo_devices:
  "\<exists>da db :: (unit net_list, nat net_list) device. dev_reach pq plain_crypto list_crate list_crate 1420 demo_instant da \<and>
    dev_reach pq plain_crypto list_crate list_crate 1420 demo_instant db \<and>
    linked plain_crypto da 0 [2] (x25519_public plain_crypto [3]) (Some (replicate 32 9)) \<and>
    linked plain_crypto db 0 [3] (x25519_public plain_crypto [2]) (Some (replicate 32 9)) \<and>
    idle_pair da 0 demo_addr db 0 \<and> tn_packet_queue (pr_tunnel (dv_store da ! 0)) = [] \<and>
    fresh_stamp (demo_env x) (pr_tunnel (dv_store da ! 0)) (pr_tunnel (dv_store db ! 0)) \<and>
    is_allowed_ip list_crate (dv_store db ! 0) (IpV4 [10, 0, 0, 1]) \<and>
    best_route (nl_routes (dv_peers_by_ip da)) (IpV4 [10, 0, 0, 2]) (ip_prefix demo_net) \<and>
    nl_routes (dv_peers_by_ip da) (ip_prefix demo_net) = Some 0 \<and> dv_mtu da = 1420"
proof -
  from demo_device [of pq "[3]" "[2]" False] obtain da :: "(unit net_list, nat net_list) device" and pa where da:
    "dev_reach pq plain_crypto list_crate list_crate 1420 demo_instant da" "dv_peers da = [x25519_public plain_crypto [3] \<mapsto> 0]" "dv_store da = [pa]"
    "tn_handshake (pr_tunnel pa) = demo_handshake [2] [3] (push_bit 8 4)" "\<not> dv_use_connected_socket da" "dv_mtu da = 1420" "dv_rate_limiter da = Some 1"
    "limiter_for plain_crypto (x25519_public plain_crypto [2]) (rlh_at (dv_limiters da) 1)"
    "rl_count (rlh_at (dv_limiters da) 1) < rl_limit (rlh_at (dv_limiters da) 1)" "tn_current (pr_tunnel pa) = 0"
    "tn_sessions (pr_tunnel pa) = replicate N_SESSIONS None" "tn_packet_queue (pr_tunnel pa) = []"
    "pr_endpoint pa = \<lparr> ep_addr = Some demo_addr, ep_conn = None \<rparr>" "dv_udp4 da = Some 4" "dv_udp6 da = Some 6"
    "dv_key_pair da = Some ([2], x25519_public plain_crypto [2])" "nl_routes (dv_peers_by_ip da) = [ip_prefix demo_net \<mapsto> 0]" by auto
  from demo_device [of pq "[2]" "[3]" False] obtain db :: "(unit net_list, nat net_list) device" and pb where db:
    "dev_reach pq plain_crypto list_crate list_crate 1420 demo_instant db" "dv_peers db = [x25519_public plain_crypto [2] \<mapsto> 0]" "dv_store db = [pb]"
    "tn_handshake (pr_tunnel pb) = demo_handshake [3] [2] (push_bit 8 4)" "\<not> dv_use_connected_socket db" "dv_rate_limiter db = Some 1"
    "limiter_for plain_crypto (x25519_public plain_crypto [3]) (rlh_at (dv_limiters db) 1)"
    "rl_count (rlh_at (dv_limiters db) 1) < rl_limit (rlh_at (dv_limiters db) 1)" "tn_packet_queue (pr_tunnel pb) = []"
    "dv_key_pair db = Some ([3], x25519_public plain_crypto [3])" "nl_routes (pr_allowed_ips pb) = [ip_prefix demo_net \<mapsto> ()]" by auto
  have net: "in_net (IpV4 [10, 0, 0, 1]) (ip_prefix demo_net)" "in_net (IpV4 [10, 0, 0, 2]) (ip_prefix demo_net)"
    unfolding demo_net_def by code_simp+
  have "allowed_ips_find list_crate (pr_allowed_ips pb) (IpV4 [10, 0, 0, 1]) \<noteq> None"
    unfolding find_None [OF list_crate_ok, where t = "pr_allowed_ips pb"] using db(11) net(1) by simp
  then have "is_allowed_ip list_crate (dv_store db ! 0) (IpV4 [10, 0, 0, 1])" using db(3) by (simp add: is_allowed_ip_def)
  moreover have "linked plain_crypto da 0 [2] (x25519_public plain_crypto [3]) (Some (replicate 32 9))"
    "linked plain_crypto db 0 [3] (x25519_public plain_crypto [2]) (Some (replicate 32 9))"
    using da db by (simp_all add: linked_def tunnel_at_def demo_handshake_facts ran_def)
  moreover have "idle_pair da 0 demo_addr db 0"
    using da db by (simp add: idle_pair_def tunnel_at_def is_in_progress_def demo_handshake_facts MAX_ITR_def N_SESSIONS_def)
  moreover have "fresh_stamp (demo_env x) (pr_tunnel (dv_store da ! 0)) (pr_tunnel (dv_store db ! 0))"
    using da(3,4) db(3,4) by (simp add: fresh_stamp_def demo_handshake_facts)
  moreover have "best_route (nl_routes (dv_peers_by_ip da)) (IpV4 [10, 0, 0, 2]) (ip_prefix demo_net)"
    "nl_routes (dv_peers_by_ip da) (ip_prefix demo_net) = Some 0" using da net(2) by (simp_all add: best_route_def)
  ultimately show ?thesis using da(1,3,6,12) db(1) by (intro exI conjI) (assumption | simp)+
qed

lemma demo_se_simps [simp]:
  "rd_env (ce_rd (se_handle demo_se)) = demo_env 1" "full_buffers demo_se" "env_ok (not_later demo_instant) demo_se"
  using demo_clock(1)
  by (simp_all add: demo_se_def demo_rd_def Let_def full_buffers_def env_ok_def not_later_def demo_instant_def to_ns_def)

lemma demo_packet_facts:
  "dst_address demo_packet = Some (IpV4 [10, 0, 0, 2])" "length demo_packet = 20" "drop_bit 4 (hd demo_packet) = 4"
  by code_simp+

lemma demo_delivery:
  "\<exists>d d' m1 m2. dev_reach True plain_crypto list_crate list_crate 1420 demo_instant (d :: (unit net_list, nat net_list) device) \<and>
     udp_handler True plain_crypto list_crate 4 d [(demo_se, m1, demo_addr), (demo_se, m2, demo_addr)] = Some (d', [Write4 demo_packet], Continue)"
proof -
  from demo_devices [of True 1] obtain da db :: "(unit net_list, nat net_list) device" where d:
    "dev_reach True plain_crypto list_crate list_crate 1420 demo_instant da" "dev_reach True plain_crypto list_crate list_crate 1420 demo_instant db"
    "linked plain_crypto da 0 [2] (x25519_public plain_crypto [3]) (Some (replicate 32 9))"
    "linked plain_crypto db 0 [3] (x25519_public plain_crypto [2]) (Some (replicate 32 9))"
    "idle_pair da 0 demo_addr db 0" "tn_packet_queue (pr_tunnel (dv_store da ! 0)) = []"
    "fresh_stamp (demo_env 1) (pr_tunnel (dv_store da ! 0)) (pr_tunnel (dv_store db ! 0))"
    "is_allowed_ip list_crate (dv_store db ! 0) (IpV4 [10, 0, 0, 1])"
    "best_route (nl_routes (dv_peers_by_ip da)) (IpV4 [10, 0, 0, 2]) (ip_prefix demo_net)"
    "nl_routes (dv_peers_by_ip da) (ip_prefix demo_net) = Some 0" "dv_mtu da = 1420" by blast
  note inv = dev_reach_wf [OF d(1) list_crate_ok plain_crypto_ok, THEN dev_wf_peers] dev_reach_wf [OF d(2) list_crate_ok plain_crypto_ok, THEN dev_wf_peers]
  have find: "allowed_ips_find list_crate (dv_peers_by_ip da) (IpV4 [10, 0, 0, 2]) = Some 0"
    by (rule iffD2 [OF find_best_route [OF list_crate_ok]], rule exI, rule conjI [OF d(9,10)])
  have pkts: "[demo_packet] = tn_packet_queue (tunnel_at da 0) @ [demo_packet]" "length [demo_se, demo_se] = length [demo_packet] + 1"
    "\<forall>pkt\<in>set [demo_packet]. acceptable list_crate (dv_store db ! 0) pkt \<and> length pkt + DATA_OVERHEAD_SZ \<le> MAX_UDP_SIZE"
    using d(6,8) demo_packet_source by (simp_all add: tunnel_at_def acceptable_def demo_packet_facts size_consts MAX_UDP_SIZE_def)
  have st: "fresh_stamp (rd_env (ce_rd (se_handle demo_se))) (tunnel_at da 0) (tunnel_at db 0)" using d(7) by (simp add: tunnel_at_def)
  have kem: "kem_agrees True plain_crypto (rd_env (ce_rd (se_handle demo_se))) (rd_env (ce_rd (se_handle demo_se)))" using demo_pair(3) by simp
  have b: "\<forall>se\<in>set [demo_se, demo_se]. full_buffers se" by simp
  have mtu: "length demo_packet \<le> dv_mtu da" "dv_mtu da \<le> MAX_UDP_SIZE" using d(11) by (simp_all add: demo_packet_facts MAX_UDP_SIZE_def)
  from devices_deliver [OF plain_crypto_ok inv d(3-5) st kem demo_se_simps(2) demo_se_simps(2) demo_se_simps(2) b pkts demo_packet_facts(1) find mtu,
      of 4 demo_addr 4]
  obtain db1 db2 m1 m2 ms where u: "udp_handler True plain_crypto list_crate 4 db [(demo_se, m1, demo_addr)] = Some (db1, [SendTo 4 m2 demo_addr], Continue)"
    "length ms = length [demo_se, demo_se]"
    "udp_handler True plain_crypto list_crate 4 db1 (zip [demo_se, demo_se] (map (\<lambda>m. (m, demo_addr)) ms)) = Some (db2, concat (map iface_write [demo_packet]), Continue)"
    by (elim exE conjE) (rule that, assumption+)
  have "dev_step True plain_crypto list_crate list_crate 1420 (demo_instant, db) (demo_instant, db1)"
    using demo_clock(1) by (intro dev_step.udp [OF u(1)]) (simp_all add: later_def)
  then have "dev_reach True plain_crypto list_crate list_crate 1420 demo_instant db1"
    using d(2) unfolding dev_reach_def by (meson rtranclp.rtrancl_into_rtrancl)
  moreover obtain m3 m4 where ms: "ms = [m3, m4]" using u(2) by (auto simp: length_Suc_conv)
  have "udp_handler True plain_crypto list_crate 4 db1 [(demo_se, m3, demo_addr), (demo_se, m4, demo_addr)] = Some (db2, [Write4 demo_packet], Continue)"
    using u(3) unfolding ms by (simp add: iface_write_def demo_packet_source)
  ultimately show ?thesis by blast
qed



text \<open>C9: a datagram reaches the peer it is for. Whatever message the tunnel of a configured peer would
  accept, an initiation, a response, a cookie reply or a data packet, the device finds this peer for it
  by the key in the initiation or by the index in the message. So no two peers accept the same
  message, and the order of the tables does not matter.\<close>
theorem datagrams_reach_their_peer:
  assumes "dev_reach pq c cp ci M T d" and "ip_crate_ok ci routes" and "crypto_ok c" and "dv_key_pair d = Some (sk, pk)" and "a \<in> ran (dv_peers d)"
    and "np_static_private (hs_params (tn_handshake (pr_tunnel (dv_store d ! a)))) = sk"
    and "np_static_public (hs_params (tn_handshake (pr_tunnel (dv_store d ! a)))) = pk"
    and "handle_verified_packet c rd (pr_tunnel (dv_store d ! a)) p dst = Some (t, r)" and "\<forall>e. r \<noteq> Err e"
  shows "peer_of_packet c d sk pk p = Some (Some a)"
proof -
  note inv = dev_wf_peers [OF dev_reach_wf [OF assms(1-3)]]
  have "a < length (dv_store d)" using inv assms(5) by (auto simp: peers_inv_def tables_inv_def ran_def)
  then show ?thesis using inv assms(5-9)
    by (intro accepted_peer [of c rd d a p dst t r routes]) (auto simp: peers_inv_def tunnel_at_def)
qed

theorem datagrams_reach_their_peer_witness:
  "\<exists>(d :: (unit net_list, nat net_list) device) p t r. dev_reach True plain_crypto list_crate list_crate 1420 demo_instant d \<and>
     handle_verified_packet plain_crypto (demo_rd 4 0) (pr_tunnel (dv_store d ! 0)) p (replicate 1500 0) = Some (t, r) \<and> is_handshake p \<and>
     peer_of_packet plain_crypto d [2] (x25519_public plain_crypto [2]) p = Some (Some 0)"
proof -
  from demo_device [of True "[3]" "[2]" True] obtain d :: "(unit net_list, nat net_list) device" and p where d:
    "dev_reach True plain_crypto list_crate list_crate 1420 demo_instant d" "dv_peers d = [x25519_public plain_crypto [3] \<mapsto> 0]" "dv_store d = [p]"
    "tn_handshake (pr_tunnel p) = demo_handshake [2] [3] (push_bit 8 4)" "dv_key_pair d = Some ([2], x25519_public plain_crypto [2])" by blast
  let ?ha = "demo_handshake [3] [2] 0" and ?hb = "demo_handshake [2] [3] (push_bit 8 4)"
  have len: "PQ_HANDSHAKE_INIT_SZ \<le> length (replicate 1500 (0 :: byte))" "PQ_HANDSHAKE_RESP_SZ \<le> length (replicate 1500 (0 :: byte))"
    by (simp_all add: size_consts)
  from agreement [OF plain_crypto_ok demo_handshake_facts(1) [of "[3]" "[2]" 0] demo_handshake_facts(1) [of "[2]" "[3]" "push_bit 8 4"]
      demo_handshake_facts(2) [of "[3]" "[2]" 0 1] demo_handshake_facts(3) demo_handshake_facts(4) [of "[2]" "[3]" "push_bit 8 4"]
      demo_pair(3) [of True 1 4] len]
  obtain m p' hb1 m2 s where i: "is_handshake p'" "receive_any_init plain_crypto (demo_env 4) ?hb p' (replicate 1500 0) = Some (hb1, Inr (m2, s))" by metis
  then have "receive_any_init plain_crypto (rd_env (demo_rd 4 0)) (tn_handshake (pr_tunnel p)) p' (replicate 1500 0) = Some (hb1, Inr (m2, s))"
    using d(4) by (simp add: demo_rd_def Let_def)
  from handle_init_ok [OF this] d(3) obtain t where
    h: "handle_verified_packet plain_crypto (demo_rd 4 0) (pr_tunnel (dv_store d ! 0)) p' (replicate 1500 0) = Some (t, WriteToNetwork m2)" by auto
  have "peer_of_packet plain_crypto d [2] (x25519_public plain_crypto [2]) p' = Some (Some 0)"
    using datagrams_reach_their_peer [OF d(1) list_crate_ok plain_crypto_ok d(5) _ _ _ h] d(2-4) by (simp add: demo_handshake_facts ran_def)
  with d(1) h i(1) show ?thesis by blast
qed

text \<open>C1: packets cross from the interface of one device to the interface of another. Let two devices be
  configured for each other, the first without a session but with a known endpoint. A packet from its
  interface makes it send an initiation; handing each datagram to the handler of the other device gives a
  response, then a keepalive and all packets that waited at the first device; and the second device writes
  exactly these packets, in their order, to its interface. This holds for the classical and for the hybrid
  handshake, while the limiters are not under load and as long as the datagrams fit one call of the
  handler.\<close>
theorem packets_cross_devices:
  assumes "dev_reach pq c cp ci M T da" and "dev_reach pq c cp ci M T' db" and "ip_crate_ok ci routes" and "crypto_ok c" and "M + 32 \<le> 65535"
    and "linked c da a sa (x25519_public c sb) psk" and "linked c db b sb (x25519_public c sa) psk" and "idle_pair da a addrb db b"
    and "fresh_stamp (rd_env (ce_rd (se_handle e1))) (pr_tunnel (dv_store da ! a)) (pr_tunnel (dv_store db ! b))"
    and "kem_agrees pq c (rd_env (ce_rd (se_handle e1))) (rd_env (ce_rd (se_handle e2)))"
    and "\<forall>se\<in>{e1, e2, e3} \<union> set es. full_buffers se"
    and "pkts = tn_packet_queue (pr_tunnel (dv_store da ! a)) @ [src]" and "length es = length pkts + 1"
    and "\<forall>pkt\<in>set pkts. \<exists>y. ip_source pkt = Some y \<and> is_allowed_ip cp (dv_store db ! b) y"
    and "dst_address src = Some x" and "best_route (routes (dv_peers_by_ip da)) x n" and "routes (dv_peers_by_ip da) n = Some a"
    and "length src \<le> dv_mtu da"
  shows "\<exists>da1 db1 da2 db2 s m1 m2 ms.
    iface_handler pq c ci da [(e1, IfacePacket src)] = Some (da1, [SendTo s m1 addrb], Continue) \<and>
    udp_handler pq c cp ub db [(e2, m1, addra)] = Some (db1, [SendTo ub m2 addra], Continue) \<and>
    udp_handler pq c cp ua da1 [(e3, m2, addrb)] = Some (da2, map (\<lambda>m. SendTo ua m addrb) ms, Continue) \<and> length ms = length es \<and>
    udp_handler pq c cp ub db1 (zip es (map (\<lambda>m. (m, addra)) ms)) =
      Some (db2, map (\<lambda>pkt. if drop_bit 4 (hd pkt) = 4 then Write4 pkt else Write6 pkt) pkts, Continue)"
proof -
  note wfa = dev_reach_wf [OF assms(1,3,4)] and wfb = dev_reach_wf [OF assms(2-4)]
  have mtu: "dv_mtu da \<le> M" using dev_wf_facts(4) [OF wfa] .
  have la: "a < length (dv_store da)" using dev_wf_peers [OF wfa] assms(6) by (auto simp: linked_def peers_inv_def tables_inv_def ran_def)
  have "length pkt \<le> M" if "pkt \<in> set pkts" for pkt
    using that assms(12,18) mtu dev_wf_facts(5) [OF wfa la] by (auto simp: tunnel_inv_def queue_inv_def tunnel_at_def)
  then have fit: "\<forall>pkt\<in>set pkts. acceptable cp (dv_store db ! b) pkt \<and> length pkt + DATA_OVERHEAD_SZ \<le> MAX_UDP_SIZE"
    using assms(5,14) by (fastforce simp: acceptable_def size_consts MAX_UDP_SIZE_def)
  have find: "allowed_ips_find ci (dv_peers_by_ip da) x = Some a" using find_best_route [OF assms(3)] assms(16,17) by blast
  have w: "concat (map iface_write pkts) = map (\<lambda>pkt. if drop_bit 4 (hd pkt) = 4 then Write4 pkt else Write6 pkt) pkts"
    using assms(14) by (induction pkts) (auto simp: iface_write_def ip_source_def split: list.splits if_splits)
  have "dv_mtu da \<le> MAX_UDP_SIZE" using mtu assms(5) by (simp add: MAX_UDP_SIZE_def)
  from devices_deliver [OF assms(4) dev_wf_peers [OF wfa] dev_wf_peers [OF wfb] assms(6-8) _ assms(10) _ _ _ _ _ assms(13) fit assms(15) find assms(18) this]
  show ?thesis using assms(9,11,12) unfolding w by (simp add: tunnel_at_def)
qed

theorem packets_cross_devices_witness:
  "\<exists>(da :: (unit net_list, nat net_list) device) (db :: (unit net_list, nat net_list) device) da1 db1 da2 db2 s m1 m2 ms.
    iface_handler True plain_crypto list_crate da [(demo_se, IfacePacket demo_packet)] = Some (da1, [SendTo s m1 demo_addr], Continue) \<and>
    udp_handler True plain_crypto list_crate 4 db [(demo_se, m1, demo_addr)] = Some (db1, [SendTo 4 m2 demo_addr], Continue) \<and>
    udp_handler True plain_crypto list_crate 4 da1 [(demo_se, m2, demo_addr)] = Some (da2, map (\<lambda>m. SendTo 4 m demo_addr) ms, Continue) \<and>
    udp_handler True plain_crypto list_crate 4 db1 (zip [demo_se, demo_se] (map (\<lambda>m. (m, demo_addr)) ms)) = Some (db2, [Write4 demo_packet], Continue)"
proof -
  from demo_devices [of True 1] obtain da db :: "(unit net_list, nat net_list) device" where d:
    "dev_reach True plain_crypto list_crate list_crate 1420 demo_instant da" "dev_reach True plain_crypto list_crate list_crate 1420 demo_instant db"
    "linked plain_crypto da 0 [2] (x25519_public plain_crypto [3]) (Some (replicate 32 9))"
    "linked plain_crypto db 0 [3] (x25519_public plain_crypto [2]) (Some (replicate 32 9))"
    "idle_pair da 0 demo_addr db 0" "tn_packet_queue (pr_tunnel (dv_store da ! 0)) = []"
    "fresh_stamp (demo_env 1) (pr_tunnel (dv_store da ! 0)) (pr_tunnel (dv_store db ! 0))"
    "is_allowed_ip list_crate (dv_store db ! 0) (IpV4 [10, 0, 0, 1])"
    "best_route (nl_routes (dv_peers_by_ip da)) (IpV4 [10, 0, 0, 2]) (ip_prefix demo_net)"
    "nl_routes (dv_peers_by_ip da) (ip_prefix demo_net) = Some 0" "dv_mtu da = 1420" by blast
  have "\<forall>pkt\<in>set [demo_packet]. \<exists>y. ip_source pkt = Some y \<and> is_allowed_ip list_crate (dv_store db ! 0) y"
    using d(8) demo_packet_source by simp
  from packets_cross_devices [OF d(1,2) list_crate_ok plain_crypto_ok _ d(3-5) _ _ _ _ _ this demo_packet_facts(1) d(9,10),
      of demo_se demo_se demo_se "[demo_se, demo_se]" 4 demo_addr 4] d(6,7,11) demo_pair(3)
  show ?thesis by (simp add: demo_packet_facts) blast
qed

text \<open>The output goes to this endpoint.\<close>

definition sent_to :: "nat \<Rightarrow> nat \<Rightarrow> endpoint \<Rightarrow> dev_out \<Rightarrow> bool" where
  "sent_to udp4 udp6 e y \<longleftrightarrow> (\<exists>m. case ep_conn e of Some s \<Rightarrow> y = Send s m
     | None \<Rightarrow> \<exists>addr. ep_addr e = Some addr \<and> y = SendTo (if is_v4 (sa_ip addr) then udp4 else udp6) m addr)"

text \<open>C10: packets leave on the most specific route. A packet of the interface without a destination
  address, or whose destination is in no network of the table, changes nothing and sends nothing. Otherwise
  only the tunnel of the peer of the longest matching network changes, and what is sent goes to the endpoint
  of this peer: to its connected socket if it has one, else to its address.\<close>
theorem outbound_best_route:
  assumes "dev_reach pq c cp ci M T d" and "ip_crate_ok ci routes" and "crypto_ok c"
    and "iface_step pq c ci se udp4 udp6 d src = Some (d', out)"
  shows "case dst_address src of None \<Rightarrow> d' = d \<and> out = []
    | Some x \<Rightarrow> if \<forall>n\<in>dom (routes (dv_peers_by_ip d)). \<not> in_net x n then d' = d \<and> out = []
      else (\<exists>n a t. best_route (routes (dv_peers_by_ip d)) x n \<and> routes (dv_peers_by_ip d) n = Some a \<and> a \<in> ran (dv_peers d) \<and>
        d' = d\<lparr> dv_store := (dv_store d)[a := (dv_store d ! a)\<lparr> pr_tunnel := t \<rparr>] \<rparr> \<and>
        (\<forall>y\<in>set out. sent_to udp4 udp6 (pr_endpoint (dv_store d ! a)) y))"
proof (cases "dst_address src")
  case None
  with assms(4) show ?thesis by (simp add: iface_step_def)
next
  case (Some x)
  show ?thesis
  proof (cases "allowed_ips_find ci (dv_peers_by_ip d) x")
    case None
    with assms(4) Some find_None [OF assms(2)] show ?thesis by (simp add: iface_step_def)
  next
    case found: (Some a)
    then obtain n where n: "best_route (routes (dv_peers_by_ip d)) x n" "routes (dv_peers_by_ip d) n = Some a"
      using find_best_route [OF assms(2)] by blast
    have a: "a \<in> ran (dv_peers d)" using dev_wf_facts(1) [OF dev_reach_wf [OF assms(1-3)]] ranI [of "routes (dv_peers_by_ip d)" n a] n(2)
      by (auto simp: tables_inv_def)
    from assms(4) Some found obtain t r where e: "encapsulate pq c (ce_rd (se_handle se)) (pr_tunnel (dv_store d ! a)) src (ce_dst (se_handle se)) = Some (t, r)"
      by (auto simp: iface_step_def Let_def bind_eq_Some_conv)
    have "d' = d\<lparr> dv_store := (dv_store d)[a := (dv_store d ! a)\<lparr> pr_tunnel := t \<rparr>] \<rparr> \<and>
        (\<forall>y\<in>set out. sent_to udp4 udp6 (pr_endpoint (dv_store d ! a)) y)"
      (is "?R")
    proof (cases r)
      case (WriteToNetwork m)
      with assms(4) Some found e show ?R
        by (cases "ep_conn (pr_endpoint (dv_store d ! a))"; cases "ep_addr (pr_endpoint (dv_store d ! a))")
          (auto simp: iface_step_def sent_to_def put_peer_def)
    qed (use assms(4) Some found e in \<open>simp_all add: iface_step_def put_peer_def\<close>)
    moreover have "\<not> (\<forall>n\<in>dom (routes (dv_peers_by_ip d)). \<not> in_net x n)" using n by (auto simp: best_route_def)
    ultimately show ?thesis using Some n a by (simp only: option.case if_False) blast
  qed
qed

theorem outbound_best_route_witness:
  "\<exists>(d :: (unit net_list, nat net_list) device) d' out t. dev_reach True plain_crypto list_crate list_crate 1420 demo_instant d \<and>
     iface_step True plain_crypto list_crate demo_se 4 6 d demo_packet = Some (d', out) \<and>
     d' = d\<lparr> dv_store := (dv_store d)[0 := (dv_store d ! 0)\<lparr> pr_tunnel := t \<rparr>] \<rparr> \<and> (\<forall>y\<in>set out. \<exists>m. y = SendTo 4 m demo_addr)"
proof -
  from demo_device [of True "[3]" "[2]" True] obtain d :: "(unit net_list, nat net_list) device" and p where d:
    "dev_reach True plain_crypto list_crate list_crate 1420 demo_instant d" "dv_store d = [p]"
    "tn_handshake (pr_tunnel p) = demo_handshake [2] [3] (push_bit 8 4)"
    "pr_endpoint p = \<lparr> ep_addr = Some demo_addr, ep_conn = None \<rparr>" "nl_routes (dv_peers_by_ip d) = [ip_prefix demo_net \<mapsto> 0]" by blast
  let ?st = "\<lambda>_ :: nat. hs_stamper (demo_handshake [2] [3] (push_bit 8 4))"
  note wf = dev_reach_wf [OF d(1) list_crate_ok plain_crypto_ok]
  have "dev_fits 1420 ?st d" using dev_wf_fits [OF wf] d(2,3) by (simp add: dev_fits_def tunnel_at_def)
  from iface_step_returns [OF plain_crypto_ok this tables_refs [OF dev_wf_facts(1) [OF wf]] list_crate_ok demo_se_fits [OF refl], of demo_packet True 4 6]
  obtain d' out where s: "iface_step True plain_crypto list_crate demo_se 4 6 d demo_packet = Some (d', out)" by (auto simp: demo_packet_facts)
  have net: "in_net (IpV4 [10, 0, 0, 2]) (ip_prefix demo_net)" unfolding demo_net_def by code_simp
  from outbound_best_route [OF d(1) list_crate_ok plain_crypto_ok s] net d(5) obtain t where
    t: "d' = d\<lparr> dv_store := (dv_store d)[0 := (dv_store d ! 0)\<lparr> pr_tunnel := t \<rparr>] \<rparr>" "\<forall>y\<in>set out. sent_to 4 6 (pr_endpoint (dv_store d ! 0)) y"
    by (auto simp: demo_packet_facts split: if_split_asm)
  have "is_v4 (sa_ip demo_addr)" by (simp add: demo_addr_def)
  then have "\<forall>y\<in>set out. \<exists>m. y = SendTo 4 m demo_addr" using t(2) d(2,4) by (simp add: sent_to_def)
  with d(1) s t(1) show ?thesis by blast
qed

text \<open>C28: the loop that sends the waiting packets ends and empties the queue. For every peer of a reachable
  device it returns, with or without a session. With a current session it sends exactly the waiting packets,
  in their order, each sealed with the next counter of the session, and leaves the queue empty.\<close>
theorem flush_sends_queue_in_order:
  assumes "dev_reach pq c cp ci M T d" and "ip_crate_ok ci routes" and "crypto_ok c" and "a < length (dv_store d)" and "t = pr_tunnel (dv_store d ! a)"
    and "\<forall>i. M + 32 \<le> length (ce_dst (envs i)) \<and> stamp (hs_stamper (tn_handshake t)) (env_stamp_now (rd_env (ce_rd (envs i)))) \<noteq> None"
  shows "\<exists>heap' t' ps. flush_queue pq c envs n heap t = Some (heap', t', ps) \<and>
    (\<forall>s. tn_sessions t ! (tn_current t mod N_SESSIONS) = Some s \<longrightarrow> ps = seal_all c s (tn_packet_queue t) \<and> tn_packet_queue t' = [] \<and> heap' = heap)"
proof -
  have inv: "tunnel_inv T M (pr_index (dv_store d ! a)) (peer_key d a) t"
    using dev_wf_facts(5) [OF dev_reach_wf [OF assms(1-3)] assms(4)] by (simp add: assms(5) tunnel_at_def)
  then have fits: "tunnel_fits M (hs_stamper (tn_handshake t)) t" by (simp add: tunnel_fits_def tunnel_inv_def tunn_wf_def)
  have calls: "call_fits M (hs_stamper (tn_handshake t)) (envs i)" for i using assms(6) by (simp add: call_fits_def size_consts)
  show ?thesis
  proof (cases "tn_sessions t ! (tn_current t mod N_SESSIONS)")
    case None
    obtain heap' t' ps where "flush_queue pq c envs n heap t = Some (heap', t', ps)"
      using flush_returns [where envs = envs, OF assms(3) fits calls, of pq n heap] by auto
    with None show ?thesis by auto
  next
    case (Some s)
    have len: "length (tn_sessions t) = N_SESSIONS" using fits by (simp add: tunnel_fits_def ring_inv_def)
    have "length p + DATA_OVERHEAD_SZ \<le> length (ce_dst (envs i))" if "p \<in> set (tn_packet_queue t)" for i p
      using fits calls [of i] that by (fastforce simp: tunnel_fits_def queue_inv_def call_fits_def)
    from flush_session [where envs = envs and pq = pq and c = c and n = n and heap = heap, OF Some len this] obtain t' where
      "flush_queue pq c envs n heap t = Some (heap, t', seal_all c s (tn_packet_queue t))" "tn_packet_queue t' = []" by blast
    with Some show ?thesis by auto
  qed
qed

theorem flush_sends_queue_in_order_witness:
  "\<exists>(d :: (unit net_list, nat net_list) device) heap' t' ps. dev_reach True plain_crypto list_crate list_crate 1420 demo_instant d \<and>
     flush_queue True plain_crypto (se_flush demo_se) 0 demo_heap (pr_tunnel (dv_store d ! 0)) = Some (heap', t', ps)"
proof -
  from demo_device [of True "[3]" "[2]" True] obtain d :: "(unit net_list, nat net_list) device" and p where d:
    "dev_reach True plain_crypto list_crate list_crate 1420 demo_instant d" "dv_store d = [p]"
    "tn_handshake (pr_tunnel p) = demo_handshake [2] [3] (push_bit 8 4)" by blast
  have "\<forall>i. 1420 + 32 \<le> length (ce_dst (se_flush demo_se i)) \<and>
      stamp (hs_stamper (tn_handshake (pr_tunnel p))) (env_stamp_now (rd_env (ce_rd (se_flush demo_se i)))) \<noteq> None"
    using demo_stamp_some d(3) by (simp add: demo_se_def Let_def MAX_UDP_SIZE_def demo_rd_def demo_env_def)
  with flush_sends_queue_in_order [OF d(1) list_crate_ok plain_crypto_ok, of 0 "pr_tunnel p" "se_flush demo_se" 0 demo_heap] d(1,2) show ?thesis
    by (intro exI [of _ d]) auto
qed

end
