(* ===== verification/Text.thy ===== *)
theory Text
  imports Prelude
begin

text \<open>
  What the sources use of the standard library's strings: a \<open>str\<close> is the list of its UTF-8 bytes, an
  index into it is a byte index, and slicing inside a character panics (\<open>None\<close>). Splitting, the
  parsers of the unsigned integers and of \<open>bool\<close> (a parse error is \<open>None\<close>), and the printed form of a
  number in a radix, with the round trips between them.
\<close>

section \<open>Strings\<close>

definition str_lit :: "string \<Rightarrow> bytes" where
  "str_lit s = map of_char s"

definition is_continuation :: "byte \<Rightarrow> bool" where
  "is_continuation b \<longleftrightarrow> 128 \<le> unat b \<and> unat b < 192"

text \<open>\<open>is_char_boundary\<close>, the slice \<open>&s[i..j]\<close>, and \<open>String::pop\<close>, which removes the last character.\<close>

definition is_char_boundary :: "bytes \<Rightarrow> nat \<Rightarrow> bool" where
  "is_char_boundary s i \<longleftrightarrow> i = length s \<or> i < length s \<and> (i = 0 \<or> \<not> is_continuation (s ! i))"

definition str_slice :: "bytes \<Rightarrow> nat \<Rightarrow> nat \<Rightarrow> bytes option" where
  "str_slice s i j = (if i \<le> j \<and> is_char_boundary s i \<and> is_char_boundary s j then Some (slice_of i j s) else None)"

definition str_pop :: "bytes \<Rightarrow> bytes" where
  "str_pop s = rev (tl (dropWhile is_continuation (rev s)))"

text \<open>\<open>trim\<close>, which removes the white space of Unicode at both ends, here by its UTF-8 encodings.\<close>

definition white_space :: "bytes list" where
  "white_space = map (\<lambda>b. [b]) [9, 10, 11, 12, 13, 32] @ [[0xC2, 0x85], [0xC2, 0xA0], [0xE1, 0x9A, 0x80]] @
     map (\<lambda>b. [0xE2, 0x80, b]) [0x80, 0x81, 0x82, 0x83, 0x84, 0x85, 0x86, 0x87, 0x88, 0x89, 0x8A, 0xA8, 0xA9, 0xAF] @
     [[0xE2, 0x81, 0x9F], [0xE3, 0x80, 0x80]]"

function strip_prefixes :: "bytes list \<Rightarrow> bytes \<Rightarrow> bytes" where
  "strip_prefixes ws s =
    (case find (\<lambda>w. w \<noteq> [] \<and> take (length w) s = w) ws of
       None \<Rightarrow> s | Some w \<Rightarrow> strip_prefixes ws (drop (length w) s))"
  by pat_completeness auto

termination
proof (relation "measure (\<lambda>(ws, s). length s)")
  fix ws s w
  assume "find (\<lambda>w. w \<noteq> [] \<and> take (length w) s = w) ws = Some w"
  then have "w \<noteq> []" "take (length w) s = w" by (auto simp: find_Some_iff)
  then have "s \<noteq> []" "length w > 0" by auto
  then show "((ws, drop (length w) s), (ws, s)) \<in> measure (\<lambda>(ws, s). length s)" by simp
qed simp

declare strip_prefixes.simps [simp del]

definition str_trim :: "bytes \<Rightarrow> bytes" where
  "str_trim s = rev (strip_prefixes (map rev white_space) (rev (strip_prefixes white_space s)))"

text \<open>\<open>split(sep)\<close> and \<open>splitn(2, sep)\<close>.\<close>

fun str_split :: "byte \<Rightarrow> bytes \<Rightarrow> bytes list" where
  "str_split sep [] = [[]]"
| "str_split sep (b # s) = (if b = sep then [] # str_split sep s
     else case str_split sep s of [] \<Rightarrow> [[b]] | p # ps \<Rightarrow> (b # p) # ps)"

definition str_splitn2 :: "byte \<Rightarrow> bytes \<Rightarrow> bytes list" where
  "str_splitn2 sep s = (case dropWhile (\<lambda>b. b \<noteq> sep) s of
     [] \<Rightarrow> [s] | _ # rest \<Rightarrow> [takeWhile (\<lambda>b. b \<noteq> sep) s, rest])"

section \<open>Numbers\<close>

text \<open>\<open>char::to_digit\<close>, for a radix of at most 36.\<close>

definition to_digit :: "nat \<Rightarrow> byte \<Rightarrow> nat option" where
  "to_digit radix b =
    (let n = unat b;
         d = (if 48 \<le> n \<and> n \<le> 57 then n - 48
              else if 97 \<le> n \<and> n \<le> 122 then n - 87
              else if 65 \<le> n \<and> n \<le> 90 then n - 55 else radix)
     in if d < radix then Some d else None)"

text \<open>The digits of a number with checked arithmetic below \<open>most\<close>, and \<open>from_str_radix\<close> of an unsigned
  type with the largest value \<open>most\<close>: one leading plus sign is accepted.\<close>

fun digits_value :: "nat \<Rightarrow> nat \<Rightarrow> nat \<Rightarrow> bytes \<Rightarrow> nat option" where
  "digits_value most radix acc [] = Some acc"
| "digits_value most radix acc (b # s) = do {
     d \<leftarrow> to_digit radix b;
     if acc * radix + d \<le> most then digits_value most radix (acc * radix + d) s else None
   }"

definition from_str_radix :: "nat \<Rightarrow> nat \<Rightarrow> bytes \<Rightarrow> nat option" where
  "from_str_radix most radix s =
    (if s = [] then None
     else if hd s = 43 \<and> tl s \<noteq> [] then digits_value most radix 0 (tl s)
     else digits_value most radix 0 s)"

definition parse_u8 :: "bytes \<Rightarrow> byte option" where
  "parse_u8 s = map_option word_of_nat (from_str_radix (2 ^ 8 - 1) 10 s)"

definition parse_u16 :: "bytes \<Rightarrow> u16 option" where
  "parse_u16 s = map_option word_of_nat (from_str_radix (2 ^ 16 - 1) 10 s)"

definition parse_u32 :: "bytes \<Rightarrow> u32 option" where
  "parse_u32 s = map_option word_of_nat (from_str_radix (2 ^ 32 - 1) 10 s)"

definition parse_bool :: "bytes \<Rightarrow> bool option" where
  "parse_bool s = (if s = str_lit ''true'' then Some True else if s = str_lit ''false'' then Some False else None)"

text \<open>The printed form of a number, in decimal with \<open>{}\<close> and in hexadecimal with \<open>{:x}\<close>.\<close>

definition digit_char :: "nat \<Rightarrow> byte" where
  "digit_char d = word_of_nat (if d < 10 then 48 + d else 87 + d)"

fun fmt_radix :: "nat \<Rightarrow> nat \<Rightarrow> bytes" where
  "fmt_radix radix n = (if radix < 2 \<or> n < radix then [digit_char n]
     else fmt_radix radix (n div radix) @ [digit_char (n mod radix)])"

declare fmt_radix.simps [simp del]

section \<open>Round trips\<close>

lemma unat_bounds: "unat (b :: byte) < 256" "unat (w :: u16) < 65536" "unat (v :: u32) < 4294967296"
proof -
  have "unat b < 2 ^ LENGTH(8)" "unat w < 2 ^ LENGTH(16)" "unat v < 2 ^ LENGTH(32)" by (rule unsigned_less)+
  then show "unat b < 256" "unat w < 65536" "unat v < 4294967296" by simp_all
qed

lemma unat_digit_char: "d < 16 \<Longrightarrow> unat (digit_char d) = (if d < 10 then 48 + d else 87 + d)"
  by (simp add: digit_char_def unat_of_nat)

lemma to_digit_char [simp]: "d < radix \<Longrightarrow> radix \<le> 16 \<Longrightarrow> to_digit radix (digit_char d) = Some d"
  by (simp add: to_digit_def unat_digit_char Let_def)

lemma to_digit_less: "to_digit radix b = Some d \<Longrightarrow> d < radix"
  by (auto simp: to_digit_def Let_def split: if_splits)

lemma digits_value_le: "digits_value most radix acc s = Some n \<Longrightarrow> acc \<le> most \<Longrightarrow> n \<le> most"
  by (induction s arbitrary: acc) (auto split: Option.bind_splits if_splits)

lemma from_str_radix_le: "from_str_radix most radix s = Some n \<Longrightarrow> n \<le> most"
  by (auto simp: from_str_radix_def dest: digits_value_le split: if_splits)

lemma digits_value_append:
  "digits_value most radix acc (s @ t) = do { n \<leftarrow> digits_value most radix acc s; digits_value most radix n t }"
  by (induction s arbitrary: acc) (auto split: Option.bind_split)

lemma digits_value_fmt:
  assumes "2 \<le> radix" and "radix \<le> 16" and "n \<le> most"
  shows "digits_value most radix 0 (fmt_radix radix n) = Some n"
  using assms
proof (induction radix n rule: fmt_radix.induct)
  case (1 radix n)
  show ?case
  proof (cases "n < radix")
    case True
    then show ?thesis using 1(2-4) by (simp add: fmt_radix.simps [of radix n])
  next
    case False
    have "n div radix \<le> most" using 1(4) div_le_dividend le_trans by blast
    then show ?thesis using 1 False by (simp add: fmt_radix.simps [of radix n] digits_value_append)
  qed
qed

lemma fmt_radix_digits:
  assumes "2 \<le> radix" and "radix \<le> 16" and "b \<in> set (fmt_radix radix n)"
  shows "\<exists>d < radix. b = digit_char d"
  using assms
proof (induction radix n rule: fmt_radix.induct)
  case (1 radix n)
  show ?case
  proof (cases "n < radix \<or> b \<in> set (fmt_radix radix (n div radix))")
    case True
    then show ?thesis using 1 by (cases "n < radix") (auto simp: fmt_radix.simps [of radix n])
  next
    case False
    then have "b = digit_char (n mod radix)" using 1(2,4) by (simp add: fmt_radix.simps [of radix n])
    then show ?thesis using 1(2) by (intro exI [of _ "n mod radix"]) simp
  qed
qed

lemma fmt_radix_not_Nil [simp]: "fmt_radix radix n \<noteq> []"
  by (simp add: fmt_radix.simps [of radix n])

lemma length_fmt_radix:
  assumes "2 \<le> radix" and "n < radix ^ Suc k"
  shows "length (fmt_radix radix n) \<le> Suc k"
  using assms
proof (induction k arbitrary: n)
  case 0
  then show ?case by (simp add: fmt_radix.simps [of radix n])
next
  case (Suc k)
  have "n div radix < radix ^ Suc k" using Suc(2,3) by (simp add: less_mult_imp_div_less mult.commute)
  then show ?case using Suc by (simp add: fmt_radix.simps [of radix n])
qed

lemma hd_fmt_radix:
  assumes "2 \<le> radix" and "radix \<le> 16" and "hd (fmt_radix radix n) = 48"
  shows "n = 0"
  using assms
proof (induction radix n rule: fmt_radix.induct)
  case (1 radix n)
  show ?case
  proof (cases "n < radix")
    case True
    then have "unat (digit_char n) = 48" using 1(2-4) by (simp add: fmt_radix.simps [of radix n])
    then show ?thesis using True 1(3) by (simp add: unat_digit_char split: if_splits)
  next
    case False
    then have "n div radix = 0" using 1 by (simp add: fmt_radix.simps [of radix n])
    then show ?thesis using False 1(2) by (simp add: div_eq_0_iff)
  qed
qed

lemma digit_char_plain:
  assumes "d < 16"
  shows "digit_char d \<noteq> 43" and "digit_char d \<noteq> 46" and "digit_char d \<noteq> 58" and "digit_char d \<noteq> 47" and "digit_char d \<noteq> 61"
    and "digit_char d \<noteq> 37" and "digit_char d \<noteq> 93" and "digit_char d \<noteq> 91" and "digit_char d \<noteq> 10" and "\<not> is_continuation (digit_char d)"
proof -
  have u: "unat (digit_char d) = (if d < 10 then 48 + d else 87 + d)" using assms by (rule unat_digit_char)
  have "unat (digit_char d) \<notin> {43, 46, 58, 47, 61, 37, 93, 91, 10}" unfolding u using assms by auto
  then show "digit_char d \<noteq> 43" "digit_char d \<noteq> 46" "digit_char d \<noteq> 58" "digit_char d \<noteq> 47" "digit_char d \<noteq> 61"
    "digit_char d \<noteq> 37" "digit_char d \<noteq> 93" "digit_char d \<noteq> 91" "digit_char d \<noteq> 10" by auto
  show "\<not> is_continuation (digit_char d)" using assms by (simp add: is_continuation_def u)
qed

lemma from_str_radix_fmt:
  assumes "2 \<le> radix" and "radix \<le> 16" and "n \<le> most"
  shows "from_str_radix most radix (fmt_radix radix n) = Some n"
proof -
  have "hd (fmt_radix radix n) \<in> set (fmt_radix radix n)" by simp
  then obtain d where "d < radix" "hd (fmt_radix radix n) = digit_char d"
    using fmt_radix_digits [OF assms(1,2)] by blast
  then have "hd (fmt_radix radix n) \<noteq> 43" using digit_char_plain(1) [of d] assms(2) by simp
  then show ?thesis using digits_value_fmt [OF assms] by (simp add: from_str_radix_def)
qed

text \<open>Parsing the printed form of a machine integer gives it back.\<close>

lemma parse_fmt:
  "parse_u8 (fmt_radix 10 (unat b)) = Some b"
  "parse_u16 (fmt_radix 10 (unat w)) = Some w"
  "parse_u32 (fmt_radix 10 (unat v)) = Some v"
proof -
  have "unat b \<le> 2 ^ 8 - 1" "unat w \<le> 2 ^ 16 - 1" "unat v \<le> 2 ^ 32 - 1"
    using unat_bounds(1) [of b] unat_bounds(2) [of w] unat_bounds(3) [of v] by simp_all
  then show "parse_u8 (fmt_radix 10 (unat b)) = Some b" "parse_u16 (fmt_radix 10 (unat w)) = Some w"
    "parse_u32 (fmt_radix 10 (unat v)) = Some v"
    unfolding parse_u8_def parse_u16_def parse_u32_def by (simp_all add: from_str_radix_fmt)
qed

text \<open>The contract between a printed form and its parser, and what it gives: well-formed values are determined
  by their text, and a text that is printed is parsed to nothing else.\<close>

locale printed_form =
  fixes wf :: "'a \<Rightarrow> bool" and fmt :: "'a \<Rightarrow> bytes" and parse :: "bytes \<Rightarrow> 'a option"
  assumes parse_printed: "wf x \<Longrightarrow> parse (fmt x) = Some x"
begin

lemma printed_inj: "inj_on fmt {x. wf x}"
  by (rule inj_onI) (metis mem_Collect_eq option.inject parse_printed)

lemma printed_unique: "wf x \<Longrightarrow> parse (fmt x) = Some y \<longleftrightarrow> y = x"
  by (auto simp: parse_printed)

end

interpretation u16_text: printed_form "\<lambda>_. True" "\<lambda>w. fmt_radix 10 (unat w)" parse_u16
  by unfold_locales (rule parse_fmt)

lemma str_split_none: "sep \<notin> set s \<Longrightarrow> str_split sep s = [s]"
  by (induction s) auto

lemma str_split_two:
  assumes "sep \<notin> set s" and "sep \<notin> set t"
  shows "str_split sep (s @ sep # t) = [s, t]"
  using assms by (induction s) (auto simp: str_split_none)

lemma length_str_split: "length (str_split sep s) = Suc (count_list s sep)"
  by (induction s) (auto split: list.splits)

lemma str_splitn2_key: "sep \<notin> set s \<Longrightarrow> str_splitn2 sep (s @ sep # t) = [s, t]"
proof -
  assume a: "sep \<notin> set s"
  have "dropWhile (\<lambda>b. b \<noteq> sep) (s @ sep # t) = sep # t" and "takeWhile (\<lambda>b. b \<noteq> sep) (s @ sep # t) = s"
    using a by (induction s) auto
  then show ?thesis by (simp add: str_splitn2_def)
qed

lemma strip_prefixes_none: "(\<And>w. w \<in> set ws \<Longrightarrow> w \<noteq> [] \<Longrightarrow> hd w \<noteq> b) \<Longrightarrow> strip_prefixes ws (b # s) = b # s"
proof -
  assume a: "\<And>w. w \<in> set ws \<Longrightarrow> w \<noteq> [] \<Longrightarrow> hd w \<noteq> b"
  have "find (\<lambda>w. w \<noteq> [] \<and> take (length w) (b # s) = w) ws = None"
  proof (subst find_None_iff, safe)
    fix w
    assume "w \<in> set ws" and n: "w \<noteq> []" and t: "take (length w) (b # s) = w"
    with a have "hd w \<noteq> b" by blast
    moreover have "hd w = b" using n t by (cases w) auto
    ultimately show False by blast
  qed
  then show ?thesis by (simp add: strip_prefixes.simps [of ws "b # s"])
qed

lemma white_space_ends: "\<forall>w\<in>set white_space. hd w \<noteq> 65 \<and> hd w \<noteq> 61 \<and> last w \<noteq> 65 \<and> last w \<noteq> 61"
  by (simp add: white_space_def)

lemma str_trim_text:
  assumes "s \<noteq> []" and "hd s = 65 \<or> hd s = 61" and "last s = 65 \<or> last s = 61"
  shows "str_trim s = s"
proof -
  obtain b t where s: "s = b # t" using assms(1) by (cases s) auto
  obtain t' b' where r: "s = t' @ [b']" using assms(1) by (cases s rule: rev_cases) auto
  have "strip_prefixes white_space (b # t) = b # t"
    using white_space_ends assms(2) s by (intro strip_prefixes_none) auto
  moreover have "strip_prefixes (map rev white_space) (b' # rev t') = b' # rev t'"
    using white_space_ends assms(3) r by (intro strip_prefixes_none) (auto simp: hd_rev)
  ultimately show ?thesis unfolding str_trim_def s [symmetric] by (simp add: r)
qed

lemma str_pop_line [simp]: "str_pop (s @ [10]) = s"
  by (simp add: str_pop_def is_continuation_def)

lemma str_pop_Nil [simp]: "str_pop [] = []"
  by (simp add: str_pop_def)

end
