(* ===== verification/Serialization.thy ===== *)
theory Serialization
  imports Text
begin

text \<open>
  \<^verbatim>\<open>serialization.rs\<close>: the text form of a 32-byte key, in hexadecimal or base64. The crates \<open>hex\<close> and
  \<open>base64\<close> are the functions of a record \<open>codecs\<close>; \<open>codecs_ok\<close> states what their documentation promises. A
  result \<open>None\<close> is a panic: the slices of the hexadecimal branch are taken at byte indices.
\<close>

record codecs =
  hex_encode :: "bytes \<Rightarrow> bytes"
  base64_encode :: "bytes \<Rightarrow> bytes"
  base64_decode :: "bytes \<Rightarrow> bytes option"

datatype key_error = IllegalCharacter | IllegalKeySize

text \<open>The loop of the hexadecimal branch over the remaining indices.\<close>

fun key_hex_loop :: "bytes \<Rightarrow> nat list \<Rightarrow> bytes \<Rightarrow> (key_error + bytes) option" where
  "key_hex_loop s [] internal = Some (Inr internal)"
| "key_hex_loop s (i # is) internal = do {
     digits \<leftarrow> str_slice s (i * 2) (i * 2 + 1 + 1);
     (case from_str_radix (2 ^ 8 - 1) 16 digits of
        None \<Rightarrow> Some (Inl IllegalCharacter)
      | Some v \<Rightarrow> key_hex_loop s is (internal[i := word_of_nat v]))
   }"

definition key_bytes_from_str :: "codecs \<Rightarrow> bytes \<Rightarrow> (key_error + bytes) option" where
  "key_bytes_from_str cd s =
    (let internal = replicate 32 0 in
     if length s = 64 then key_hex_loop s [0..<32] internal
     else if length s = 43 \<or> length s = 44 then
       (case base64_decode cd s of
          Some decoded_key \<Rightarrow>
            (if length decoded_key = length internal then Some (Inr (fill_prefix internal decoded_key))
             else Some (Inl IllegalCharacter))
        | None \<Rightarrow> Some (Inr internal))
     else Some (Inl IllegalKeySize))"

section \<open>What the two crates promise\<close>

definition hex_pair :: "byte \<Rightarrow> bytes" where
  "hex_pair b = [digit_char (unat b div 16), digit_char (unat b mod 16)]"

definition codecs_ok :: "codecs \<Rightarrow> bool" where
  "codecs_ok cd \<longleftrightarrow> (\<forall>bs. hex_encode cd bs = concat (map hex_pair bs)) \<and>
     (\<forall>bs. base64_decode cd (base64_encode cd bs) = Some bs) \<and>
     (\<forall>bs. str_trim (base64_encode cd bs) = base64_encode cd bs) \<and>
     (\<forall>bs. length bs = 32 \<longrightarrow> (\<exists>t. base64_encode cd bs = t @ [61] \<and> length t = 43))"

text \<open>Codecs that keep the promises: the text in the place of base64 is a letter, the bytes, ten more letters and
  the padding character.\<close>

definition plain_codecs :: codecs where
  "plain_codecs = \<lparr> hex_encode = (\<lambda>bs. concat (map hex_pair bs)),
     base64_encode = (\<lambda>bs. 65 # bs @ replicate 10 65 @ [61]),
     base64_decode = (\<lambda>s. if length s < 12 then None else Some (take (length s - 12) (tl s))) \<rparr>"

lemma plain_codecs_ok: "codecs_ok plain_codecs"
proof -
  have "\<exists>t. 65 # (bs :: bytes) @ replicate 10 65 @ [61] = t @ [61] \<and> length t = 43" if "length bs = 32" for bs
    using that by (intro exI [of _ "65 # bs @ replicate 10 65"]) simp
  moreover have "str_trim (65 # bs @ replicate 10 65 @ [61]) = 65 # bs @ replicate 10 65 @ [61]" for bs
    by (rule str_trim_text) simp_all
  ultimately show ?thesis by (simp add: codecs_ok_def plain_codecs_def)
qed

section \<open>Keys and their text\<close>

lemma length_key_hex_loop: "key_hex_loop s is internal = Some (Inr k) \<Longrightarrow> length k = length internal"
  by (induction "is" arbitrary: internal) (auto split: Option.bind_splits option.splits)

lemma length_key_bytes: "key_bytes_from_str cd s = Some (Inr k) \<Longrightarrow> length k = 32"
  by (auto simp: key_bytes_from_str_def fill_prefix_def Let_def dest: length_key_hex_loop split: if_splits option.splits)

lemma slice_concat_pairs:
  assumes "\<And>x. length (f x) = 2" and "i < length k"
  shows "slice_of (i * 2) (i * 2 + 1 + 1) (concat (map f k)) = f (k ! i)"
  using assms(2)
proof (induction k arbitrary: i)
  case (Cons a k)
  then show ?case using assms(1) by (cases i) (auto simp: slice_of_def)
qed simp

lemma length_concat_pairs: "(\<And>x. length (f x) = 2) \<Longrightarrow> length (concat (map f k)) = 2 * length k"
  by (induction k) auto

lemma key_hex_loop_parses:
  assumes "length k = 32" and "length internal = 32" and "j \<le> 32"
    and "\<And>i. i < 32 \<Longrightarrow> str_slice s (i * 2) (i * 2 + 1 + 1) = Some (f (k ! i))"
    and "\<And>b. from_str_radix (2 ^ 8 - 1) 16 (f b) = Some (unat b)"
  shows "key_hex_loop s [j..<32] internal = Some (Inr (take j internal @ drop j k))"
  using assms(3,2)
proof (induction j arbitrary: internal rule: inc_induct)
  case base
  then show ?case using assms(1) by simp
next
  case (step j)
  have "take (Suc j) (internal[j := k ! j]) @ drop (Suc j) k = take j internal @ drop j k"
    using step(2,4) assms(1) by (simp add: take_Suc_conv_app_nth Cons_nth_drop_Suc)
  then show ?case using step assms(4) [of j] assms(5) by (simp add: upt_conv_Cons)
qed

lemma key_hex_roundtrip:
  assumes "length k = 32" and "\<And>x. length (f x) = 2" and "\<And>b. b \<in> set (concat (map f k)) \<Longrightarrow> \<not> is_continuation b"
    and "\<And>b. from_str_radix (2 ^ 8 - 1) 16 (f b) = Some (unat b)"
  shows "key_bytes_from_str cd (concat (map f k)) = Some (Inr k)"
proof -
  let ?s = "concat (map f k)"
  have l: "length ?s = 64" using length_concat_pairs [OF assms(2), where k = k] assms(1) by simp
  have b: "is_char_boundary ?s i" if "i \<le> 64" for i
    using that l assms(3) nth_mem [of i ?s] by (auto simp: is_char_boundary_def)
  have "str_slice ?s (i * 2) (i * 2 + 1 + 1) = Some (f (k ! i))" if "i < 32" for i
    using that b [of "i * 2"] b [of "i * 2 + 1 + 1"] slice_concat_pairs [OF assms(2), where i = i and k = k] assms(1)
    by (simp add: str_slice_def)
  then have "key_hex_loop ?s [0..<32] (replicate 32 0) = Some (Inr (take 0 (replicate 32 0) @ drop 0 k))"
    by (intro key_hex_loop_parses [OF assms(1) _ _ _ assms(4)]) simp_all
  then show ?thesis unfolding key_bytes_from_str_def Let_def l by simp
qed

lemma hex_pair_value: "from_str_radix (2 ^ 8 - 1) 16 (hex_pair b) = Some (unat b)"
proof -
  have u: "unat b < 256" using unat_bounds(1) [of b] by simp
  then have d: "unat b div 16 < 16" and m: "unat b mod 16 < 16" by auto
  have s: "unat b div 16 * 16 + unat b mod 16 = unat b" by simp
  show ?thesis using digit_char_plain(1) [OF d] u d m s
    by (simp add: from_str_radix_def hex_pair_def)
qed

lemma hex_pair_plain:
  assumes "b \<in> set (concat (map hex_pair k))"
  shows "\<exists>d<16. b = digit_char d"
proof -
  obtain x where "x \<in> set k" "b \<in> set (hex_pair x)" using assms by auto
  moreover have "unat x div 16 < 16" "unat x mod 16 < 16" using unat_bounds(1) [of x] by auto
  ultimately show ?thesis unfolding hex_pair_def by (metis empty_iff empty_set set_ConsD)
qed

lemma key_of_hex:
  assumes "codecs_ok cd" and "length k = 32"
  shows "key_bytes_from_str cd (hex_encode cd k) = Some (Inr k)"
proof -
  have "key_bytes_from_str cd (concat (map hex_pair k)) = Some (Inr k)"
  proof (rule key_hex_roundtrip [OF assms(2) _ _ hex_pair_value])
    show "\<not> is_continuation b" if "b \<in> set (concat (map hex_pair k))" for b
      using hex_pair_plain [OF that] digit_char_plain(10) by blast
  qed (simp add: hex_pair_def)
  then show ?thesis using assms(1) by (simp add: codecs_ok_def)
qed

lemma key_of_base64:
  assumes "codecs_ok cd" and "length k = 32"
  shows "key_bytes_from_str cd (base64_encode cd k) = Some (Inr k)"
proof -
  obtain t where "base64_encode cd k = t @ [61]" "length t = 43" using assms unfolding codecs_ok_def by blast
  then have "length (base64_encode cd k) = 44" by simp
  moreover have "base64_decode cd (base64_encode cd k) = Some k" using assms unfolding codecs_ok_def by blast
  ultimately show ?thesis using assms(2) by (simp add: key_bytes_from_str_def fill_prefix_def)
qed

text \<open>A text of the length of a base64 key that cannot be decoded is parsed to the key of zeros.\<close>

lemma undecodable_key_is_zero:
  "length s = 43 \<or> length s = 44 \<Longrightarrow> base64_decode cd s = None \<Longrightarrow> key_bytes_from_str cd s = Some (Inr (replicate 32 0))"
  by (auto simp: key_bytes_from_str_def)

text \<open>A pair of characters that starts with a plus sign is a byte: \<open>from_str_radix\<close> accepts the sign.\<close>

lemma plus_sign_accepted: "d < 16 \<Longrightarrow> from_str_radix (2 ^ 8 - 1) 16 [43, digit_char d] = Some d"
  by (simp add: from_str_radix_def)

end
