(* ===== verification/Addr_Text.thy ===== *)
theory Addr_Text
  imports Peer Text
begin

text \<open>
  The text of addresses: what the standard library parses and prints for \<open>IpAddr\<close> and \<open>SocketAddr\<close>, and
  \<open>from_str\<close> of the networks in \<^verbatim>\<open>device/peer.rs\<close>. A reader takes the remaining input and returns a value
  with the input behind it, or \<open>None\<close> without consuming anything. The lemmas show that the printed form of
  every address, the compressed and the mapped forms of IPv6 included, is parsed to that address.
\<close>

section \<open>Parsers\<close>

definition is_digit :: "nat \<Rightarrow> byte \<Rightarrow> bool" where
  "is_digit radix b \<longleftrightarrow> to_digit radix b \<noteq> None"

definition read_given_char :: "byte \<Rightarrow> bytes \<Rightarrow> bytes option" where
  "read_given_char b s = (case s of x # xs \<Rightarrow> if x = b then Some xs else None | [] \<Rightarrow> None)"

text \<open>A number with at most \<open>max_digits\<close> digits and at most the value \<open>most\<close>.\<close>

definition read_number :: "nat \<Rightarrow> nat \<Rightarrow> nat option \<Rightarrow> bool \<Rightarrow> bytes \<Rightarrow> (nat \<times> bytes) option" where
  "read_number most radix max_digits allow_zero_prefix s =
    (let ds = takeWhile (is_digit radix) s in
     if ds = [] then None
     else if (case max_digits of None \<Rightarrow> False | Some m \<Rightarrow> length ds > m) then None
     else if \<not> allow_zero_prefix \<and> hd ds = 48 \<and> length ds > 1 then None
     else map_option (\<lambda>n. (n, dropWhile (is_digit radix) s)) (digits_value most radix 0 ds))"

definition read_octet :: "bytes \<Rightarrow> (nat \<times> bytes) option" where
  "read_octet s = read_number 255 10 (Some 3) False s"

definition read_ipv4_addr :: "bytes \<Rightarrow> (bytes \<times> bytes) option" where
  "read_ipv4_addr s = do {
     (a, s) \<leftarrow> read_octet s;
     s \<leftarrow> read_given_char 46 s;
     (b, s) \<leftarrow> read_octet s;
     s \<leftarrow> read_given_char 46 s;
     (c, s) \<leftarrow> read_octet s;
     s \<leftarrow> read_given_char 46 s;
     (d, s) \<leftarrow> read_octet s;
     Some ([word_of_nat a, word_of_nat b, word_of_nat c, word_of_nat d], s)
   }"

text \<open>The segments of an IPv6 address and its sixteen bytes.\<close>

fun segments :: "bytes \<Rightarrow> nat list" where
  "segments (a # b # s) = (unat a * 256 + unat b) # segments s"
| "segments _ = []"

definition segment_bytes :: "nat list \<Rightarrow> bytes" where
  "segment_bytes gs = concat (map (\<lambda>g. [word_of_nat (g div 256), word_of_nat (g mod 256)]) gs)"

definition read_separator :: "bool \<Rightarrow> bytes \<Rightarrow> bytes option" where
  "read_separator later s = (if later then read_given_char 58 s else Some s)"

text \<open>Up to the given number of segments, the last two of which may be an IPv4 address; the flag says that
  they were. \<open>later\<close> is set behind the first segment.\<close>

fun read_groups :: "nat \<Rightarrow> bool \<Rightarrow> bytes \<Rightarrow> nat list \<times> bool \<times> bytes" where
  "read_groups 0 later s = ([], False, s)"
| "read_groups (Suc left) later s =
    (case (if left > 0 then Option.bind (read_separator later s) read_ipv4_addr else None) of
       Some (v4, s') \<Rightarrow> (segments v4, True, s')
     | None \<Rightarrow> (case Option.bind (read_separator later s) (read_number 65535 16 (Some 4) True) of
         None \<Rightarrow> ([], False, s)
       | Some (g, s') \<Rightarrow> (let (gs, v4, s'') = read_groups left True s' in (g # gs, v4, s''))))"

definition read_ipv6_addr :: "bytes \<Rightarrow> (bytes \<times> bytes) option" where
  "read_ipv6_addr s =
    (let (head, head_ipv4, s) = read_groups 8 False s in
     if length head = 8 then Some (segment_bytes head, s)
     else if head_ipv4 then None
     else do {
       s \<leftarrow> read_given_char 58 s;
       s \<leftarrow> read_given_char 58 s;
       let (tail, _, s) = read_groups (8 - (length head + 1)) False s;
       Some (segment_bytes (head @ replicate (8 - length head - length tail) 0 @ tail), s)
     })"

definition parse_ip_addr :: "bytes \<Rightarrow> ip_addr option" where
  "parse_ip_addr s =
    (case (case read_ipv4_addr s of
             Some (a, s) \<Rightarrow> Some (IpV4 a, s)
           | None \<Rightarrow> map_option (\<lambda>(a, s). (IpV6 a, s)) (read_ipv6_addr s)) of
       Some (a, []) \<Rightarrow> Some a
     | _ \<Rightarrow> None)"

definition read_port :: "bytes \<Rightarrow> (u16 \<times> bytes) option" where
  "read_port s = do {
     s \<leftarrow> read_given_char 58 s;
     (p, s) \<leftarrow> read_number 65535 10 None True s;
     Some (word_of_nat p, s)
   }"

text \<open>The scope of an IPv6 address is optional: when it cannot be read, nothing is consumed.\<close>

definition read_scope_id :: "bytes \<Rightarrow> u32 \<times> bytes" where
  "read_scope_id s = (case (do { s \<leftarrow> read_given_char 37 s; read_number 4294967295 10 None True s }) of
     Some (n, s) \<Rightarrow> (word_of_nat n, s) | None \<Rightarrow> (0, s))"

definition read_socket_addr_v4 :: "bytes \<Rightarrow> (socket_addr \<times> bytes) option" where
  "read_socket_addr_v4 s = do {
     (ip, s) \<leftarrow> read_ipv4_addr s;
     (port, s) \<leftarrow> read_port s;
     Some (\<lparr> sa_ip = IpV4 ip, sa_port = port, sa_flowinfo = 0, sa_scope_id = 0 \<rparr>, s)
   }"

definition read_socket_addr_v6 :: "bytes \<Rightarrow> (socket_addr \<times> bytes) option" where
  "read_socket_addr_v6 s = do {
     s \<leftarrow> read_given_char 91 s;
     (ip, s) \<leftarrow> read_ipv6_addr s;
     let (scope_id, s) = read_scope_id s;
     s \<leftarrow> read_given_char 93 s;
     (port, s) \<leftarrow> read_port s;
     Some (\<lparr> sa_ip = IpV6 ip, sa_port = port, sa_flowinfo = 0, sa_scope_id = scope_id \<rparr>, s)
   }"

definition parse_socket_addr :: "bytes \<Rightarrow> socket_addr option" where
  "parse_socket_addr s =
    (case (case read_socket_addr_v4 s of Some r \<Rightarrow> Some r | None \<Rightarrow> read_socket_addr_v6 s) of
       Some (a, []) \<Rightarrow> Some a
     | _ \<Rightarrow> None)"

text \<open>\<open>AllowedIP::from_str\<close>: an address, a slash and the length of the prefix.\<close>

definition allowed_ip_from_str :: "bytes \<Rightarrow> allowed_ip option" where
  "allowed_ip_from_str s =
    (let ip = str_split 47 s in
     if length ip \<noteq> 2 then None
     else case (parse_ip_addr (ip ! 0), parse_u8 (ip ! 1)) of
       (Some (IpV4 a), Some cidr) \<Rightarrow> (if cidr \<le> 32 then Some \<lparr> aip_addr = IpV4 a, aip_cidr = cidr \<rparr> else None)
     | (Some (IpV6 a), Some cidr) \<Rightarrow> (if cidr \<le> 128 then Some \<lparr> aip_addr = IpV6 a, aip_cidr = cidr \<rparr> else None)
     | _ \<Rightarrow> None)"

section \<open>Printed forms\<close>

definition fmt_ipv4 :: "bytes \<Rightarrow> bytes" where
  "fmt_ipv4 a = fmt_radix 10 (unat (a ! 0)) @ 46 # fmt_radix 10 (unat (a ! 1)) @ 46 # fmt_radix 10 (unat (a ! 2)) @
     46 # fmt_radix 10 (unat (a ! 3))"

fun fmt_subslice :: "nat list \<Rightarrow> bytes" where
  "fmt_subslice [] = []"
| "fmt_subslice [g] = fmt_radix 16 g"
| "fmt_subslice (g # gs) = fmt_radix 16 g @ 58 # fmt_subslice gs"

text \<open>The first of the longest runs of zero segments: its start and its length.\<close>

fun zero_span :: "nat \<Rightarrow> nat \<times> nat \<Rightarrow> nat \<times> nat \<Rightarrow> nat list \<Rightarrow> nat \<times> nat" where
  "zero_span i current longest [] = longest"
| "zero_span i current longest (g # gs) =
    (if g = 0 then
       let current = (if snd current = 0 then i else fst current, snd current + 1)
       in zero_span (i + 1) current (if snd current > snd longest then current else longest) gs
     else zero_span (i + 1) (0, 0) longest gs)"

definition fmt_ipv6 :: "bytes \<Rightarrow> bytes" where
  "fmt_ipv6 a =
    (if take 12 a = replicate 10 0 @ [255, 255] then str_lit ''::ffff:'' @ fmt_ipv4 (drop 12 a)
     else
       let gs = segments a; (start, len) = zero_span 0 (0, 0) (0, 0) gs in
       if len > 1 then fmt_subslice (take start gs) @ [58, 58] @ fmt_subslice (drop (start + len) gs)
       else fmt_subslice gs)"

fun fmt_ip_addr :: "ip_addr \<Rightarrow> bytes" where
  "fmt_ip_addr (IpV4 a) = fmt_ipv4 a"
| "fmt_ip_addr (IpV6 a) = fmt_ipv6 a"

definition fmt_socket_addr :: "socket_addr \<Rightarrow> bytes" where
  "fmt_socket_addr sa =
    (case sa_ip sa of
       IpV4 a \<Rightarrow> fmt_ipv4 a @ 58 # fmt_radix 10 (unat (sa_port sa))
     | IpV6 a \<Rightarrow> 91 # fmt_ipv6 a @ (if sa_scope_id sa = 0 then [] else 37 # fmt_radix 10 (unat (sa_scope_id sa))) @
         93 # 58 # fmt_radix 10 (unat (sa_port sa)))"

definition fmt_allowed_ip :: "ip_addr \<Rightarrow> byte \<Rightarrow> bytes" where
  "fmt_allowed_ip ip cidr = fmt_ip_addr ip @ 47 # fmt_radix 10 (unat cidr)"

section \<open>The printed form of a number is read back\<close>

definition no_digit :: "nat \<Rightarrow> bytes \<Rightarrow> bool" where
  "no_digit radix s \<longleftrightarrow> s = [] \<or> \<not> is_digit radix (hd s)"

lemma takeWhile_digits:
  assumes "2 \<le> radix" and "radix \<le> 16" and "no_digit radix s"
  shows "takeWhile (is_digit radix) (fmt_radix radix n @ s) = fmt_radix radix n"
    and "dropWhile (is_digit radix) (fmt_radix radix n @ s) = s"
proof -
  have d: "is_digit radix b" if "b \<in> set (fmt_radix radix n)" for b
    using fmt_radix_digits [OF assms(1,2) that] assms(2) by (auto simp: is_digit_def)
  have "takeWhile (is_digit radix) s = []" "dropWhile (is_digit radix) s = s"
    using assms(3) by (cases s; simp add: no_digit_def)+
  then show "takeWhile (is_digit radix) (fmt_radix radix n @ s) = fmt_radix radix n"
    "dropWhile (is_digit radix) (fmt_radix radix n @ s) = s"
    using d by (simp_all add: takeWhile_append2 dropWhile_append2)
qed

lemma read_number_fmt:
  assumes "2 \<le> radix" and "radix \<le> 16" and "no_digit radix s" and "n \<le> most"
    and "\<And>m. max_digits = Some m \<Longrightarrow> length (fmt_radix radix n) \<le> m"
  shows "read_number most radix max_digits z (fmt_radix radix n @ s) = Some (n, s)"
proof -
  have "length (fmt_radix radix n) \<le> 1" if "hd (fmt_radix radix n) = 48"
    using hd_fmt_radix [OF assms(1,2) that] assms(1) by (simp add: fmt_radix.simps [of radix 0])
  then show ?thesis using assms(5) digits_value_fmt [OF assms(1,2,4)]
    by (auto simp: read_number_def takeWhile_digits [OF assms(1-3)] Let_def split: option.splits)
qed

lemma no_digit_simps [simp]:
  "no_digit radix []"
  "radix \<le> 16 \<Longrightarrow> no_digit radix (46 # s)" "radix \<le> 16 \<Longrightarrow> no_digit radix (58 # s)" "radix \<le> 16 \<Longrightarrow> no_digit radix (37 # s)"
  "radix \<le> 16 \<Longrightarrow> no_digit radix (93 # s)" "radix \<le> 16 \<Longrightarrow> no_digit radix (91 # s)"
  by (auto simp: no_digit_def is_digit_def to_digit_def Let_def)

lemma read_number_none: "no_digit radix s \<Longrightarrow> read_number most radix m z s = None"
  by (cases s) (auto simp: read_number_def no_digit_def)

lemma read_octet_fmt: "no_digit 10 s \<Longrightarrow> read_octet (fmt_radix 10 (unat (b :: byte)) @ s) = Some (unat b, s)"
proof -
  assume "no_digit 10 s"
  moreover have "length (fmt_radix 10 (unat b)) \<le> Suc 2"
    by (rule length_fmt_radix) (use unat_bounds(1) [of b] in simp_all)
  ultimately show ?thesis unfolding read_octet_def
    by (intro read_number_fmt) (use unat_bounds(1) [of b] in auto)
qed

lemma read_given_char_same [simp]: "read_given_char b (b # s) = Some s"
  by (simp add: read_given_char_def)

lemma read_given_char_other: "s = [] \<or> hd s \<noteq> b \<Longrightarrow> read_given_char b s = None"
  by (cases s) (auto simp: read_given_char_def)

section \<open>IPv4\<close>

lemma read_ipv4_fmt:
  assumes "length a = 4" and "no_digit 10 s"
  shows "read_ipv4_addr (fmt_ipv4 a @ s) = Some (a, s)"
proof -
  obtain a0 a1 a2 a3 where a: "a = [a0, a1, a2, a3]"
    using assms(1) by (auto simp: length_Suc_conv numeral_eq_Suc)
  show ?thesis using assms(2) by (simp add: a read_ipv4_addr_def fmt_ipv4_def read_octet_fmt)
qed

lemma read_ipv4_needs_dot:
  assumes "46 \<notin> set s"
  shows "read_ipv4_addr s = None"
proof (cases "read_octet s")
  case (Some r)
  then obtain n where r: "r = (n, dropWhile (is_digit 10) s)"
    by (auto simp: read_octet_def read_number_def Let_def split: if_splits)
  have "46 \<notin> set (dropWhile (is_digit 10) s)" using assms set_dropWhileD by metis
  then have "read_given_char 46 (dropWhile (is_digit 10) s) = None"
    using hd_in_set [of "dropWhile (is_digit 10) s"] by (intro read_given_char_other) metis
  then show ?thesis by (simp add: read_ipv4_addr_def Some r)
qed (simp add: read_ipv4_addr_def)

lemma read_ipv4_no_digit: "no_digit 10 s \<Longrightarrow> read_ipv4_addr s = None"
  by (simp add: read_ipv4_addr_def read_octet_def read_number_none)

section \<open>IPv6\<close>

lemma segment_bytes_segments: "even (length a) \<Longrightarrow> segment_bytes (segments a) = a"
proof (induction a rule: segments.induct)
  case (1 a b s)
  have "(unat a * 256 + unat b) div 256 = unat a" "(unat a * 256 + unat b) mod 256 = unat b"
    using unat_bounds(1) [of b] by simp_all
  then show ?case using 1 by (simp add: segment_bytes_def)
qed (simp_all add: segment_bytes_def)

lemma length_segments: "length (segments a) = length a div 2"
  by (induction a rule: segments.induct) auto

lemma segments_less: "g \<in> set (segments a) \<Longrightarrow> g < 65536"
proof (induction a rule: segments.induct)
  case (1 a b s)
  have "unat a * 256 + unat b < 65536" using unat_bounds(1) [of a] unat_bounds(1) [of b] by simp
  then show ?case using 1 by auto
qed simp_all

lemma segments_append: "even (length a) \<Longrightarrow> segments (a @ b) = segments a @ segments b"
  by (induction a rule: segments.induct) auto

lemma length_segment_bytes: "length (segment_bytes gs) = 2 * length gs"
  by (induction gs) (auto simp: segment_bytes_def)

lemma read_group_fmt:
  "g < 65536 \<Longrightarrow> no_digit 16 s \<Longrightarrow> read_number 65535 16 (Some 4) True (fmt_radix 16 g @ s) = Some (g, s)"
  using length_fmt_radix [of 16 g 3] by (intro read_number_fmt) auto

lemma fmt_subslice_no_dot:
  assumes "46 \<notin> set s"
  shows "46 \<notin> set (fmt_subslice gs @ s)"
proof -
  have "46 \<notin> set (fmt_radix 16 g)" for g
    using fmt_radix_digits [of 16 46 g] digit_char_plain(2) by force
  then have "46 \<notin> set (fmt_subslice gs)" by (induction gs rule: fmt_subslice.induct) auto
  then show ?thesis using assms(1) by simp
qed

lemma fmt_subslice_Cons: "gs \<noteq> [] \<Longrightarrow> fmt_subslice (g # gs) = fmt_radix 16 g @ 58 # fmt_subslice gs"
  by (cases gs) simp_all

text \<open>Reading stops behind the printed segments: there is no separator, or none before a segment.\<close>

definition stops :: "bytes \<Rightarrow> bool" where
  "stops s \<longleftrightarrow> no_digit 16 s \<and> (case s of b # t \<Rightarrow> b = 58 \<longrightarrow> no_digit 16 t | [] \<Rightarrow> True)"

lemma no_digit_10: "no_digit 16 s \<Longrightarrow> no_digit 10 s"
  by (auto simp: no_digit_def is_digit_def to_digit_def Let_def split: if_splits)

lemma read_groups_stops: "stops s \<Longrightarrow> read_groups k later s = ([], False, s)"
proof (cases k)
  case (Suc left)
  assume s: "stops s"
  have "Option.bind (read_separator later s) (read_number 65535 16 (Some 4) True) = None"
    and "Option.bind (read_separator later s) read_ipv4_addr = None"
    using s by (cases s; auto simp: stops_def read_separator_def read_given_char_def read_number_none
      read_ipv4_no_digit no_digit_10)+
  then show ?thesis using Suc by simp
qed simp

lemma read_groups_fmt:
  assumes "gs \<noteq> []" and "\<forall>g\<in>set gs. g < 65536" and "46 \<notin> set s" and "stops s"
  shows "read_groups (length gs + k) later ((if later then [58] else []) @ fmt_subslice gs @ s) = (gs, False, s)"
  using assms(1,2)
proof (induction gs arbitrary: later)
  case (Cons g gs)
  let ?t = "if gs = [] then s else 58 # fmt_subslice gs @ s"
  have t: "fmt_subslice (g # gs) @ s = fmt_radix 16 g @ ?t" by (simp add: fmt_subslice_Cons)
  have n: "no_digit 16 ?t" using assms(4) by (simp add: stops_def)
  have sep: "read_separator later ((if later then [58] else []) @ u) = Some u" for u by (simp add: read_separator_def)
  have v4: "read_ipv4_addr (fmt_subslice (g # gs) @ s) = None"
    by (intro read_ipv4_needs_dot fmt_subslice_no_dot assms(3))
  have num: "read_number 65535 16 (Some 4) True (fmt_subslice (g # gs) @ s) = Some (g, ?t)"
    unfolding t using Cons(3) n by (intro read_group_fmt) simp_all
  have rec: "read_groups (length gs + k) True ?t = (gs, False, s)"
  proof (cases "gs = []")
    case True
    then show ?thesis using read_groups_stops [OF assms(4)] by simp
  next
    case False
    then show ?thesis using Cons(1) [of True] Cons(3) by simp
  qed
  show ?case unfolding list.size(4) add_Suc_right add_Suc add_0_right read_groups.simps(2)
      sep [of "fmt_subslice (g # gs) @ s"] bind.simps v4 num
    by (simp add: rec del: fmt_subslice.simps)
qed simp

text \<open>The span of zeros that is compressed.\<close>

definition zero_run :: "nat list \<Rightarrow> nat \<times> nat \<Rightarrow> bool" where
  "zero_run gs sp \<longleftrightarrow> fst sp + snd sp \<le> length gs \<and> (\<forall>j. fst sp \<le> j \<and> j < fst sp + snd sp \<longrightarrow> gs ! j = 0)"

lemma zero_span_run:
  assumes "zero_run (ys @ gs) longest" and "zero_run (ys @ gs) current" and "snd current = 0 \<or> fst current + snd current = length ys"
  shows "zero_run (ys @ gs) (zero_span (length ys) current longest gs)"
  using assms
proof (induction gs arbitrary: ys current longest)
  case (Cons g gs)
  let ?c = "(if snd current = 0 then length ys else fst current, snd current + 1)"
  show ?case
  proof (cases "g = 0")
    case True
    then have "zero_run ((ys @ [g]) @ gs) ?c" using Cons(3,4)
      by (auto simp: zero_run_def nth_append less_Suc_eq)
    moreover have "zero_run ((ys @ [g]) @ gs) (if snd ?c > snd longest then ?c else longest)"
      using calculation Cons(2) by simp
    ultimately have "zero_run ((ys @ [g]) @ gs)
        (zero_span (length (ys @ [g])) ?c (if snd ?c > snd longest then ?c else longest) gs)"
      using Cons(4) by (intro Cons(1)) auto
    then show ?thesis using True unfolding zero_span.simps Let_def by simp
  next
    case False
    have "zero_run ((ys @ [g]) @ gs) (0, 0)" by (simp add: zero_run_def)
    then show ?thesis using Cons(1) [of "ys @ [g]" longest "(0, 0)"] Cons(2) False by simp
  qed
qed simp

lemma zero_run_split:
  assumes "zero_run gs (start, len)"
  shows "gs = take start gs @ replicate len 0 @ drop (start + len) gs"
proof (rule nth_equalityI)
  show "length gs = length (take start gs @ replicate len 0 @ drop (start + len) gs)"
    using assms by (simp add: zero_run_def)
  show "gs ! i = (take start gs @ replicate len 0 @ drop (start + len) gs) ! i" if "i < length gs" for i
    using assms that by (auto simp: zero_run_def nth_append)
qed

lemma read_groups_part:
  assumes "length gs \<le> k" and "\<forall>g\<in>set gs. g < 65536" and "46 \<notin> set s" and "stops s"
  shows "read_groups k False (fmt_subslice gs @ s) = (gs, False, s)"
proof (cases "gs = []")
  case False
  then show ?thesis using read_groups_fmt [OF False assms(2-4), of "k - length gs" False] assms(1) by simp
qed (simp add: read_groups_stops [OF assms(4)])

lemma read_ipv6_compressed:
  assumes "length hd' + length tl' + len = 8" and "0 < len" and "\<forall>g\<in>set hd' \<union> set tl'. g < 65536" and "46 \<notin> set s" and "stops s"
  shows "read_ipv6_addr (fmt_subslice hd' @ 58 # 58 # fmt_subslice tl' @ s) = Some (segment_bytes (hd' @ replicate len 0 @ tl'), s)"
proof -
  have st: "stops (58 # 58 # fmt_subslice tl' @ s)" by (simp add: stops_def)
  have "46 \<notin> set (58 # 58 # fmt_subslice tl' @ s)" using fmt_subslice_no_dot [OF assms(4)] by auto
  then have h: "read_groups 8 False (fmt_subslice hd' @ 58 # 58 # fmt_subslice tl' @ s) = (hd', False, 58 # 58 # fmt_subslice tl' @ s)"
    using assms(1,3) st by (intro read_groups_part) auto
  have t: "read_groups (8 - (length hd' + 1)) False (fmt_subslice tl' @ s) = (tl', False, s)"
    using assms by (intro read_groups_part) auto
  have "8 - length hd' - length tl' = len" "length hd' \<noteq> 8" using assms(1,2) by auto
  then show ?thesis unfolding read_ipv6_addr_def h using t by simp
qed

lemma fmt_ffff: "fmt_radix 16 65535 = [102, 102, 102, 102]"
  by (simp add: fmt_radix.simps [of 16 65535] fmt_radix.simps [of 16 4095] fmt_radix.simps [of 16 255]
    fmt_radix.simps [of 16 15] digit_char_def)

lemma read_groups_mapped:
  assumes "length a = 4" and "no_digit 10 s"
  shows "read_groups 7 False (fmt_radix 16 65535 @ 58 # fmt_ipv4 a @ s) = (65535 # segments a, True, s)"
proof -
  have n: "read_number 65535 16 (Some 4) True (fmt_radix 16 65535 @ 58 # u) = Some (65535, 58 # u)" for u
    by (rule read_group_fmt) simp_all
  have f: "read_ipv4_addr (fmt_radix 16 65535 @ u) = None" for u
    by (rule read_ipv4_no_digit) (simp add: fmt_ffff no_digit_def is_digit_def to_digit_def Let_def)
  have v: "read_groups (Suc (Suc 4)) True (58 # fmt_ipv4 a @ s) = (segments a, True, s)"
    unfolding read_groups.simps(2) using read_ipv4_fmt [OF assms] by (simp add: read_separator_def)
  have "read_groups (Suc (Suc (Suc 4))) False (fmt_radix 16 65535 @ 58 # fmt_ipv4 a @ s) = (65535 # segments a, True, s)"
    unfolding read_groups.simps(2) [of "Suc (Suc 4)"] using n f v
    by (simp add: read_separator_def del: read_groups.simps)
  then show ?thesis by (simp del: read_groups.simps)
qed

lemma read_ipv6_mapped:
  assumes "length a = 4" and "no_digit 10 s"
  shows "read_ipv6_addr (str_lit ''::ffff:'' @ fmt_ipv4 a @ s) = Some (replicate 10 0 @ [255, 255] @ a, s)"
proof -
  have l: "str_lit ''::ffff:'' @ u = 58 # 58 # fmt_radix 16 65535 @ 58 # u" for u
    by (simp add: str_lit_def fmt_ffff)
  have h: "read_groups 8 False (58 # 58 # u) = ([], False, 58 # 58 # u)" for u
    by (rule read_groups_stops) (simp add: stops_def)
  have a: "length (segments a) = 2" "segment_bytes (segments a) = a"
    using assms(1) by (simp_all add: length_segments segment_bytes_segments)
  have r: "replicate 5 (0 :: nat) = [0, 0, 0, 0, 0]" "replicate 10 (0 :: byte) = [0, 0, 0, 0, 0, 0, 0, 0, 0, 0]"
    by (simp_all add: numeral_eq_Suc)
  have b: "segment_bytes (replicate 5 0 @ 65535 # segments a) = replicate 10 0 @ [255, 255] @ a"
    using a(2) unfolding r by (simp add: segment_bytes_def)
  show ?thesis unfolding l read_ipv6_addr_def h
    using read_groups_mapped [OF assms] a(1) b by (simp del: read_groups.simps)
qed

lemma read_ipv6_fmt:
  assumes "length a = 16" and "46 \<notin> set s" and "stops s"
  shows "read_ipv6_addr (fmt_ipv6 a @ s) = Some (a, s)"
proof (cases "take 12 a = replicate 10 0 @ [255, 255]")
  case True
  have "replicate 10 0 @ [255, 255] @ drop 12 a = a" using True append_take_drop_id [of 12 a] by simp
  moreover have "no_digit 10 s" using assms(3) by (simp add: stops_def no_digit_10)
  ultimately show ?thesis using True assms(1) read_ipv6_mapped [of "drop 12 a" s] by (simp add: fmt_ipv6_def)
next
  case False
  let ?gs = "segments a"
  obtain start len where sp: "zero_span 0 (0, 0) (0, 0) ?gs = (start, len)" by fastforce
  have run: "zero_run ?gs (start, len)"
    using zero_span_run [of "[]" ?gs "(0, 0)" "(0, 0)"] by (simp add: zero_run_def sp [symmetric])
  have gs: "\<forall>g\<in>set ?gs. g < 65536" "length ?gs = 8" "segment_bytes ?gs = a"
    using assms(1) segments_less by (auto simp: length_segments segment_bytes_segments)
  show ?thesis
  proof (cases "len > 1")
    case True
    have "read_ipv6_addr (fmt_subslice (take start ?gs) @ 58 # 58 # fmt_subslice (drop (start + len) ?gs) @ s)
      = Some (segment_bytes (take start ?gs @ replicate len 0 @ drop (start + len) ?gs), s)"
    proof (rule read_ipv6_compressed [OF _ _ _ assms(2,3)])
      show "length (take start ?gs) + length (drop (start + len) ?gs) + len = 8"
        using run gs(2) by (simp add: zero_run_def)
      show "\<forall>g\<in>set (take start ?gs) \<union> set (drop (start + len) ?gs). g < 65536"
        using gs(1) by (auto dest: in_set_takeD in_set_dropD)
    qed (use True in simp)
    then show ?thesis using False sp True gs(3) zero_run_split [OF run] by (simp add: fmt_ipv6_def Let_def)
  next
    case nl: False
    have "read_groups 8 False (fmt_subslice ?gs @ s) = (?gs, False, s)"
      using gs assms by (intro read_groups_part) simp_all
    then show ?thesis using False sp nl gs by (simp add: fmt_ipv6_def read_ipv6_addr_def)
  qed
qed

section \<open>Addresses and networks\<close>

fun ip_addr_wf :: "ip_addr \<Rightarrow> bool" where
  "ip_addr_wf (IpV4 a) \<longleftrightarrow> length a = 4"
| "ip_addr_wf (IpV6 a) \<longleftrightarrow> length a = 16"

lemma read_ipv4_of_ipv6: "read_ipv4_addr (fmt_ipv6 a) = None"
proof (cases "take 12 a = replicate 10 0 @ [255, 255]")
  case True
  then show ?thesis by (intro read_ipv4_no_digit) (simp add: fmt_ipv6_def str_lit_def)
next
  case False
  have "46 \<notin> set (fmt_subslice gs)" for gs using fmt_subslice_no_dot [of "[]" gs] by simp
  then show ?thesis using False by (intro read_ipv4_needs_dot) (simp add: fmt_ipv6_def Let_def split: prod.splits)
qed

lemma parse_ip_fmt:
  assumes "ip_addr_wf ip"
  shows "parse_ip_addr (fmt_ip_addr ip) = Some ip"
proof (cases ip)
  case (IpV4 a)
  then show ?thesis using read_ipv4_fmt [of a "[]"] assms by (simp add: parse_ip_addr_def)
next
  case (IpV6 a)
  then show ?thesis using read_ipv6_fmt [of a "[]"] assms read_ipv4_of_ipv6 [of a]
    by (simp add: parse_ip_addr_def stops_def)
qed

lemma fmt_radix_plain:
  assumes "2 \<le> radix" and "radix \<le> 16" and "\<And>d. d < 16 \<Longrightarrow> digit_char d \<noteq> b"
  shows "b \<notin> set (fmt_radix radix n)"
proof
  assume "b \<in> set (fmt_radix radix n)"
  then obtain d where "d < radix" "b = digit_char d" using fmt_radix_digits [OF assms(1,2)] by blast
  then show False using assms(2) assms(3) [of d] by simp
qed

lemma fmt_subslice_plain:
  assumes "\<And>d. d < 16 \<Longrightarrow> digit_char d \<noteq> b" and "b \<noteq> 58"
  shows "b \<notin> set (fmt_subslice gs)"
proof -
  have "b \<notin> set (fmt_radix 16 g)" for g by (rule fmt_radix_plain) (use assms(1) in simp_all)
  then show ?thesis using assms(2) by (induction gs rule: fmt_subslice.induct) simp_all
qed

lemma fmt_ip_addr_plain:
  assumes "\<And>d. d < 16 \<Longrightarrow> digit_char d \<noteq> b" and "b \<noteq> 58" and "b \<noteq> 46"
  shows "b \<notin> set (fmt_ip_addr ip)"
proof -
  have d: "b \<notin> set (fmt_radix 10 n)" for n by (rule fmt_radix_plain) (use assms(1) in simp_all)
  then have v4: "b \<notin> set (fmt_ipv4 a)" for a using assms(3) by (simp add: fmt_ipv4_def)
  have "b \<noteq> 102" using assms(1) [of 15] by (simp add: digit_char_def)
  then have "b \<notin> set (str_lit ''::ffff:'')" using assms(2) by (simp add: str_lit_def)
  moreover have "b \<notin> set (fmt_subslice gs)" for gs using assms(1,2) by (rule fmt_subslice_plain)
  ultimately have "b \<notin> set (fmt_ipv6 a)" for a using v4 assms(2) by (simp add: fmt_ipv6_def Let_def split: prod.splits)
  then show ?thesis using v4 by (cases ip) simp_all
qed

lemma allowed_ip_fmt:
  assumes "ip_addr_wf ip" and "unat cidr \<le> max_cidr ip"
  shows "allowed_ip_from_str (fmt_allowed_ip ip cidr) = Some \<lparr> aip_addr = ip, aip_cidr = cidr \<rparr>"
proof -
  have "47 \<notin> set (fmt_ip_addr ip)" by (rule fmt_ip_addr_plain) (use digit_char_plain(4) in auto)
  moreover have "47 \<notin> set (fmt_radix 10 (unat cidr))" by (rule fmt_radix_plain) (use digit_char_plain(4) in auto)
  ultimately have s: "str_split 47 (fmt_allowed_ip ip cidr) = [fmt_ip_addr ip, fmt_radix 10 (unat cidr)]"
    unfolding fmt_allowed_ip_def by (rule str_split_two)
  show ?thesis unfolding allowed_ip_from_str_def s using assms parse_ip_fmt [OF assms(1)]
    by (cases ip) (simp_all add: parse_fmt max_cidr_def word_le_nat_alt)
qed

lemma read_port_fmt: "read_port (58 # fmt_radix 10 (unat p)) = Some (p, [])"
proof -
  have "read_number 65535 10 None True (fmt_radix 10 (unat p) @ []) = Some (unat p, [])"
    using unat_bounds(2) [of p] by (intro read_number_fmt) simp_all
  then show ?thesis by (simp add: read_port_def)
qed

lemma read_scope_fmt:
  assumes "s = [] \<or> hd s \<noteq> 37" and "no_digit 10 s"
  shows "read_scope_id ((if i = 0 then [] else 37 # fmt_radix 10 (unat i)) @ s) = (i, s)"
proof (cases "i = 0")
  case True
  then show ?thesis using assms(1) by (simp add: read_scope_id_def read_given_char_other)
next
  case False
  have "read_number 4294967295 10 None True (fmt_radix 10 (unat i) @ s) = Some (unat i, s)"
    using unat_bounds(3) [of i] assms(2) by (intro read_number_fmt) simp_all
  then show ?thesis using False by (simp add: read_scope_id_def)
qed

text \<open>A socket address that the printed form determines: it has no flow label, and no scope for IPv4.\<close>

definition socket_addr_wf :: "socket_addr \<Rightarrow> bool" where
  "socket_addr_wf sa \<longleftrightarrow> ip_addr_wf (sa_ip sa) \<and> sa_flowinfo sa = 0 \<and> (is_v4 (sa_ip sa) \<longrightarrow> sa_scope_id sa = 0)"

lemma parse_socket_fmt:
  assumes "socket_addr_wf sa"
  shows "parse_socket_addr (fmt_socket_addr sa) = Some sa"
proof (cases "sa_ip sa")
  case (IpV4 a)
  have "read_ipv4_addr (fmt_ipv4 a @ 58 # fmt_radix 10 (unat (sa_port sa))) = Some (a, 58 # fmt_radix 10 (unat (sa_port sa)))"
    using assms IpV4 by (intro read_ipv4_fmt) (simp_all add: socket_addr_wf_def)
  then show ?thesis using IpV4 assms
    by (simp add: parse_socket_addr_def read_socket_addr_v4_def fmt_socket_addr_def read_port_fmt socket_addr_wf_def)
next
  case (IpV6 a)
  let ?sc = "if sa_scope_id sa = 0 then [] else 37 # fmt_radix 10 (unat (sa_scope_id sa))"
  let ?p = "93 # 58 # fmt_radix 10 (unat (sa_port sa))"
  have "46 \<notin> set (fmt_radix 10 n)" for n by (rule fmt_radix_plain) (use digit_char_plain(2) in auto)
  then have "read_ipv6_addr (fmt_ipv6 a @ ?sc @ ?p) = Some (a, ?sc @ ?p)"
    using assms IpV6 by (intro read_ipv6_fmt) (simp_all add: socket_addr_wf_def stops_def)
  moreover have "read_scope_id (?sc @ ?p) = (sa_scope_id sa, ?p)" by (rule read_scope_fmt) simp_all
  moreover have "read_ipv4_addr (91 # s) = None" for s by (rule read_ipv4_no_digit) simp
  ultimately show ?thesis using IpV6 assms
    by (simp add: parse_socket_addr_def read_socket_addr_v4_def read_socket_addr_v6_def fmt_socket_addr_def
      read_port_fmt socket_addr_wf_def)
qed

interpretation ip_text: printed_form ip_addr_wf fmt_ip_addr parse_ip_addr
  by unfold_locales (rule parse_ip_fmt)

interpretation socket_text: printed_form socket_addr_wf fmt_socket_addr parse_socket_addr
  by unfold_locales (rule parse_socket_fmt)

interpretation network_text: printed_form "\<lambda>ip. ip_addr_wf (aip_addr ip) \<and> cidr_ok ip"
    "\<lambda>ip. fmt_allowed_ip (aip_addr ip) (aip_cidr ip)" allowed_ip_from_str
  by unfold_locales (simp add: allowed_ip_fmt cidr_ok_def)

section \<open>What is parsed is well formed\<close>

lemma read_ipv4_length: "read_ipv4_addr s = Some (a, s') \<Longrightarrow> length a = 4"
  by (auto simp: read_ipv4_addr_def split: Option.bind_splits)

lemma length_read_groups: "read_groups k later s = (gs, v4, s') \<Longrightarrow> length gs \<le> k"
proof (induction k later s arbitrary: gs v4 s' rule: read_groups.induct)
  case (2 left later s)
  show ?case
  proof (cases "if left > 0 then Option.bind (read_separator later s) read_ipv4_addr else None")
    case (Some r)
    obtain a t where r: "r = (a, t)" by fastforce
    obtain u where "read_ipv4_addr u = Some (a, t)" "left > 0" using Some r by (auto split: if_splits Option.bind_splits)
    then have "length a = 4" "left > 0" by (blast intro: read_ipv4_length)+
    then show ?thesis using 2(2) Some r by (auto simp: length_segments)
  next
    case None
    then show ?thesis using 2
      by (auto split: option.splits prod.splits if_splits)
  qed
qed simp

lemma read_ipv6_length:
  assumes "read_ipv6_addr s = Some (a, s')"
  shows "length a = 16"
proof -
  obtain head v4 s1 where h: "read_groups 8 False s = (head, v4, s1)" by (metis prod_cases3)
  show ?thesis
  proof (cases "length head = 8")
    case False
    then have "length head < 8" using length_read_groups [OF h] by simp
    moreover obtain s3 tail f where "read_groups (8 - (length head + 1)) False s3 = (tail, f, s')"
      and a: "a = segment_bytes (head @ replicate (8 - length head - length tail) 0 @ tail)"
      using assms False by (auto simp: read_ipv6_addr_def h split: if_splits Option.bind_splits prod.splits)
    moreover have "length tail \<le> 8 - (length head + 1)" using calculation(2) by (rule length_read_groups)
    ultimately show ?thesis by (simp add: length_segment_bytes)
  qed (use assms h in \<open>auto simp: read_ipv6_addr_def length_segment_bytes\<close>)
qed

lemma parse_ip_wf: "parse_ip_addr s = Some ip \<Longrightarrow> ip_addr_wf ip"
  by (auto simp: parse_ip_addr_def split: option.splits list.splits) (blast intro: read_ipv4_length read_ipv6_length)+

lemma allowed_ip_wf:
  assumes "allowed_ip_from_str s = Some ip"
  shows "ip_addr_wf (aip_addr ip)" and "cidr_ok ip"
proof -
  obtain a cidr where p: "parse_ip_addr (str_split 47 s ! 0) = Some a" and ip: "ip = \<lparr> aip_addr = a, aip_cidr = cidr \<rparr>"
    and c: "cidr \<le> (if is_v4 a then 32 else 128)"
    using assms by (auto simp: allowed_ip_from_str_def Let_def split: option.splits ip_addr.splits if_splits)
  show "ip_addr_wf (aip_addr ip)" using parse_ip_wf [OF p] ip by simp
  show "cidr_ok ip" using c ip by (auto simp: cidr_ok_def max_cidr_def word_le_nat_alt split: if_splits)
qed

lemma socket_addr_parsed_wf: "parse_socket_addr s = Some sa \<Longrightarrow> socket_addr_wf sa"
  by (auto simp: parse_socket_addr_def read_socket_addr_v4_def read_socket_addr_v6_def socket_addr_wf_def
      split: option.splits list.splits Option.bind_splits prod.splits)
    (blast intro: read_ipv4_length read_ipv6_length)+

end
