(* ===== verification/Api.thy ===== *)
theory Api
  imports Serialization Addr_Text Device_Safety
begin

text \<open>
  \<^verbatim>\<open>device/api.rs\<close>: the configuration protocol on the control socket. A request is the list of the
  results of \<open>read_line\<close>: \<open>Some\<close> a line with its line feed, \<open>None\<close> an error; behind the list the end of the
  input is read, an empty line. Every line comes with what the operations it starts read from the
  outside (a record \<open>api_env\<close>), \<open>eof\<close> is that of the end of the input. A result \<open>None\<close> is a panic.

  The lemmas show what a request does to the device: a sequence of the operations of \<^verbatim>\<open>device/mod.rs\<close>, and
  for the printed form of the settings of a peer the update with these settings.
\<close>

section \<open>Requests\<close>

datatype api_status = ApiOk | EIO | EPROTO | EINVAL | EADDRINUSE

text \<open>The order of the iterations over the peers is that of the hash map of the peers.\<close>

record api_env =
  ae_nr :: new_readings
  ae_os :: os
  ae_order :: "(bytes \<rightharpoonup> nat) \<Rightarrow> bytes list"

type_synonym request = "(api_env \<times> bytes option) list"

text \<open>The local variables of \<open>api_set_peer\<close>.\<close>

record peer_section =
  ps_public_key :: bytes
  ps_remove :: bool
  ps_replace_ips :: bool
  ps_endpoint :: "socket_addr option"
  ps_keepalive :: "u16 option"
  ps_preshared_key :: "bytes option"
  ps_allowed_ips :: "allowed_ip list"

definition peer_section_new :: "bytes \<Rightarrow> peer_section" where
  "peer_section_new pub_key = \<lparr> ps_public_key = pub_key, ps_remove = False, ps_replace_ips = False, ps_endpoint = None,
     ps_keepalive = None, ps_preshared_key = None, ps_allowed_ips = [] \<rparr>"

definition commit_peer ::
  "('n, 'p, unit) ip_crate \<Rightarrow> ('m, 'i, nat) ip_crate \<Rightarrow> crypto \<Rightarrow> api_env \<Rightarrow> ('p, 'i) device \<Rightarrow> peer_section \<Rightarrow> ('p, 'i) device option" where
  "commit_peer cp ci c e d sec = update_peer cp ci c (ae_nr e) (ae_os e) d (ps_public_key sec) (ps_remove sec) (ps_replace_ips sec)
     (ps_endpoint sec) (ps_allowed_ips sec) (ps_keepalive sec) (ps_preshared_key sec)"

text \<open>An arm of the matches on the command: the value that was parsed goes on, an error returns \<open>EINVAL\<close>.\<close>

definition or_einval :: "'d \<Rightarrow> 'a option \<Rightarrow> ('a \<Rightarrow> ('d \<times> (api_status + 'b)) option) \<Rightarrow> ('d \<times> (api_status + 'b)) option" where
  "or_einval d r k = (case r of None \<Rightarrow> Some (d, Inl EINVAL) | Some x \<Rightarrow> k x)"

definition parse_key :: "codecs \<Rightarrow> bytes \<Rightarrow> (bytes option) option" where
  "parse_key cd val = map_option (\<lambda>r. case r of Inr key \<Rightarrow> Some key | Inl _ \<Rightarrow> None) (key_bytes_from_str cd val)"

text \<open>One command of a peer section: it returns a status, or the section goes on.\<close>

definition api_set_peer_step ::
  "('n, 'p, unit) ip_crate \<Rightarrow> ('m, 'i, nat) ip_crate \<Rightarrow> crypto \<Rightarrow> codecs \<Rightarrow> api_env \<Rightarrow> ('p, 'i) device \<Rightarrow> peer_section \<Rightarrow> bytes
     \<Rightarrow> (('p, 'i) device \<times> (api_status + peer_section)) option" where
  "api_set_peer_step cp ci c cd e d sec cmd =
    (let parsed_cmd = str_splitn2 61 cmd in
     if length parsed_cmd \<noteq> 2 then Some (d, Inl EPROTO)
     else
       let key = parsed_cmd ! 0; val = parsed_cmd ! 1 in
       if key = str_lit ''remove'' then
         or_einval d (parse_bool val) (\<lambda>b. Some (d, Inr (sec\<lparr> ps_remove := b \<rparr>)))
       else if key = str_lit ''preshared_key'' then do {
         r \<leftarrow> parse_key cd val;
         or_einval d r (\<lambda>k. Some (d, Inr (sec\<lparr> ps_preshared_key := Some k \<rparr>)))
       }
       else if key = str_lit ''endpoint'' then
         or_einval d (parse_socket_addr val) (\<lambda>addr. Some (d, Inr (sec\<lparr> ps_endpoint := Some addr \<rparr>)))
       else if key = str_lit ''persistent_keepalive_interval'' then
         or_einval d (parse_u16 val) (\<lambda>interval. Some (d, Inr (sec\<lparr> ps_keepalive := Some interval \<rparr>)))
       else if key = str_lit ''replace_allowed_ips'' then
         or_einval d (parse_bool val) (\<lambda>b. Some (d, Inr (sec\<lparr> ps_replace_ips := b \<rparr>)))
       else if key = str_lit ''allowed_ip'' then
         or_einval d (allowed_ip_from_str val) (\<lambda>ip. Some (d, Inr (sec\<lparr> ps_allowed_ips := ps_allowed_ips sec @ [ip] \<rparr>)))
       else if key = str_lit ''public_key'' then do {
         d \<leftarrow> commit_peer cp ci c e d sec;
         let sec = sec\<lparr> ps_allowed_ips := [] \<rparr>;
         r \<leftarrow> parse_key cd val;
         or_einval d r (\<lambda>k. Some (d, Inr (sec\<lparr> ps_public_key := k \<rparr>)))
       }
       else if key = str_lit ''protocol_version'' then
         (if parse_u32 val = Some 1 then Some (d, Inr sec) else Some (d, Inl EINVAL))
       else Some (d, Inl EINVAL))"

fun api_set_peer ::
  "('n, 'p, unit) ip_crate \<Rightarrow> ('m, 'i, nat) ip_crate \<Rightarrow> crypto \<Rightarrow> codecs \<Rightarrow> api_env \<Rightarrow> ('p, 'i) device \<Rightarrow> peer_section \<Rightarrow> request
     \<Rightarrow> (('p, 'i) device \<times> api_status) option" where
  "api_set_peer cp ci c cd eof d sec [] = map_option (\<lambda>d. (d, ApiOk)) (commit_peer cp ci c eof d sec)"
| "api_set_peer cp ci c cd eof d sec ((e, None) # reader) = Some (d, ApiOk)"
| "api_set_peer cp ci c cd eof d sec ((e, Some line) # reader) =
    (let cmd = str_pop line in
     if cmd = [] then map_option (\<lambda>d. (d, ApiOk)) (commit_peer cp ci c e d sec)
     else do {
       (d, r) \<leftarrow> api_set_peer_step cp ci c cd e d sec cmd;
       (case r of Inl status \<Rightarrow> Some (d, status) | Inr sec \<Rightarrow> api_set_peer cp ci c cd eof d sec reader)
     })"

text \<open>One command before the first peer section: it returns a status, or the key of the section that begins, if
  any. The firewall mark can be set where the platform has it (\<open>marks\<close>).\<close>

definition api_set_step ::
  "bool \<Rightarrow> ('m, 'i, nat) ip_crate \<Rightarrow> crypto \<Rightarrow> codecs \<Rightarrow> api_env \<Rightarrow> ('p, 'i) device \<Rightarrow> bytes
     \<Rightarrow> (('p, 'i) device \<times> (api_status + bytes option)) option" where
  "api_set_step marks ci c cd e device cmd =
    (let parsed_cmd = str_split 61 cmd in
     if length parsed_cmd \<noteq> 2 then Some (device, Inl EPROTO)
     else
       let key = parsed_cmd ! 0; val = parsed_cmd ! 1; order = ae_order e (dv_peers device) in
       if key = str_lit ''private_key'' then do {
         r \<leftarrow> parse_key cd val;
         or_einval device r (\<lambda>k. do { device \<leftarrow> set_key c (ae_nr e) order device k; Some (device, Inr None) })
       }
       else if key = str_lit ''listen_port'' then
         or_einval device (parse_u16 val) (\<lambda>port. do {
           (device, ok) \<leftarrow> open_listen_socket (ae_os e) order device port;
           Some (device, if ok then Inr None else Inl EADDRINUSE)
         })
       else if marks \<and> key = str_lit ''fwmark'' then
         or_einval device (parse_u32 val) (\<lambda>mark.
           let (device, ok) = set_fwmark (ae_os e) order device mark
           in Some (device, if ok then Inr None else Inl EADDRINUSE))
       else if key = str_lit ''replace_peers'' then
         or_einval device (parse_bool val) (\<lambda>b. Some (if b then clear_peers ci device else device, Inr None))
       else if key = str_lit ''public_key'' then do {
         r \<leftarrow> parse_key cd val;
         or_einval device r (\<lambda>k. Some (device, Inr (Some k)))
       }
       else Some (device, Inl EINVAL))"

fun api_set ::
  "bool \<Rightarrow> ('n, 'p, unit) ip_crate \<Rightarrow> ('m, 'i, nat) ip_crate \<Rightarrow> crypto \<Rightarrow> codecs \<Rightarrow> api_env \<Rightarrow> ('p, 'i) device \<Rightarrow> request
     \<Rightarrow> (('p, 'i) device \<times> api_status) option" where
  "api_set marks cp ci c cd eof device [] = Some (device, ApiOk)"
| "api_set marks cp ci c cd eof device ((e, None) # reader) = Some (device, ApiOk)"
| "api_set marks cp ci c cd eof device ((e, Some line) # reader) =
    (let cmd = str_pop line in
     if cmd = [] then Some (device, ApiOk)
     else do {
       (device, r) \<leftarrow> api_set_step marks ci c cd e device cmd;
       (case r of
          Inl status \<Rightarrow> Some (device, status)
        | Inr None \<Rightarrow> api_set marks cp ci c cd eof device reader
        | Inr (Some pub_key) \<Rightarrow> api_set_peer cp ci c cd eof device (peer_section_new pub_key) reader)
     })"

section \<open>The state of the device\<close>

definition fmt_line :: "string \<Rightarrow> bytes \<Rightarrow> bytes" where
  "fmt_line key val = str_lit key @ 61 # val @ [10]"

definition opt_line :: "string \<Rightarrow> ('a \<Rightarrow> bytes) \<Rightarrow> 'a option \<Rightarrow> bytes" where
  "opt_line key fmt x = (case x of None \<Rightarrow> [] | Some x \<Rightarrow> fmt_line key (fmt x))"

text \<open>The lines of one peer: \<open>now\<close> and \<open>now'\<close> are the readings of the clock for the last handshake and in
  \<open>stats()\<close>, of which the counters are printed.\<close>

definition api_get_peer ::
  "('n, 'p, unit) ip_crate \<Rightarrow> codecs \<Rightarrow> instant \<Rightarrow> instant \<Rightarrow> bytes \<Rightarrow> 'p peer \<Rightarrow> bytes option" where
  "api_get_peer cp cd now now' k p = do {
     time \<leftarrow> peer_time_since_last_handshake p now;
     _ \<leftarrow> time_since_last_handshake (pr_tunnel p) now';
     Some (fmt_line ''public_key'' (hex_encode cd k) @
       opt_line ''preshared_key'' (hex_encode cd) (pr_preshared_key p) @
       opt_line ''persistent_keepalive_interval'' (\<lambda>keepalive. fmt_radix 10 (unat keepalive)) (peer_persistent_keepalive p) @
       opt_line ''endpoint'' fmt_socket_addr (ep_addr (pr_endpoint p)) @
       concat (map (\<lambda>(ip, cidr). fmt_line ''allowed_ip'' (fmt_allowed_ip ip cidr)) (peer_allowed_ips cp p)) @
       opt_line ''last_handshake_time_sec'' (\<lambda>t. fmt_radix 10 (as_secs t)) time @
       opt_line ''last_handshake_time_nsec'' (\<lambda>t. fmt_radix 10 (subsec_nanos t)) time @
       fmt_line ''rx_bytes'' (fmt_radix 10 (unat (tn_rx_bytes (pr_tunnel p)))) @
       fmt_line ''tx_bytes'' (fmt_radix 10 (unat (tn_tx_bytes (pr_tunnel p)))))
   }"

fun api_get_peers ::
  "('n, 'p, unit) ip_crate \<Rightarrow> codecs \<Rightarrow> (nat \<Rightarrow> instant \<times> instant) \<Rightarrow> ('p, 'i) device \<Rightarrow> bytes list \<Rightarrow> bytes option" where
  "api_get_peers cp cd now d [] = Some []"
| "api_get_peers cp cd now d (k # ks) =
    (case dv_peers d k of
       None \<Rightarrow> api_get_peers cp cd now d ks
     | Some a \<Rightarrow> do {
         text \<leftarrow> api_get_peer cp cd (fst (now a)) (snd (now a)) k (dv_store d ! a);
         texts \<leftarrow> api_get_peers cp cd now d ks;
         Some (text @ texts)
       })"

definition api_get ::
  "('n, 'p, unit) ip_crate \<Rightarrow> codecs \<Rightarrow> (nat \<Rightarrow> instant \<times> instant) \<Rightarrow> bytes list \<Rightarrow> ('p, 'i) device \<Rightarrow> bytes option" where
  "api_get cp cd now order d = do {
     peers \<leftarrow> api_get_peers cp cd now d order;
     Some (opt_line ''own_public_key'' (hex_encode cd) (map_option snd (dv_key_pair d)) @
       (if dv_listen_port d \<noteq> 0 then fmt_line ''listen_port'' (fmt_radix 10 (unat (dv_listen_port d))) else []) @
       opt_line ''fwmark'' (\<lambda>fwmark. fmt_radix 10 (unat fwmark)) (dv_fwmark d) @
       peers)
   }"

section \<open>The handlers of the control socket\<close>

text \<open>A request on a connection: the lines behind the first one are read by \<open>api_set\<close> only. The result is the
  new state and the response; \<open>errno\<close> gives the error numbers of the platform.\<close>

definition api_respond ::
  "bool \<Rightarrow> ('n, 'p, unit) ip_crate \<Rightarrow> ('m, 'i, nat) ip_crate \<Rightarrow> crypto \<Rightarrow> codecs \<Rightarrow> (api_status \<Rightarrow> nat) \<Rightarrow> (nat \<Rightarrow> instant \<times> instant) \<Rightarrow> api_env
     \<Rightarrow> ('p, 'i) device \<Rightarrow> bytes \<Rightarrow> request \<Rightarrow> (('p, 'i) device \<times> bytes) option" where
  "api_respond marks cp ci c cd errno now eof d line reader =
    (let cmd = str_pop line in do {
       (d, text, status) \<leftarrow>
         (if cmd = str_lit ''get=1'' then
            map_option (\<lambda>text. (d, text, ApiOk)) (api_get cp cd now (ae_order eof (dv_peers d)) d)
          else if cmd = str_lit ''set=1'' then
            map_option (\<lambda>(d, status). (d, [], status)) (api_set marks cp ci c cd eof d reader)
          else Some (d, [], EIO));
       Some (d, text @ str_lit ''errno='' @ fmt_radix 10 (errno status) @ [10, 10])
     })"

text \<open>The handlers of \<open>register_api_handler\<close>, for the result of \<open>accept\<close>, and of \<open>register_api_fd\<close>.\<close>

definition api_handler ::
  "bool \<Rightarrow> ('n, 'p, unit) ip_crate \<Rightarrow> ('m, 'i, nat) ip_crate \<Rightarrow> crypto \<Rightarrow> codecs \<Rightarrow> (api_status \<Rightarrow> nat) \<Rightarrow> (nat \<Rightarrow> instant \<times> instant) \<Rightarrow> api_env
     \<Rightarrow> ('p, 'i) device \<Rightarrow> request option \<Rightarrow> (('p, 'i) device \<times> bytes \<times> action) option" where
  "api_handler marks cp ci c cd errno now eof d conn =
    (case conn of
       None \<Rightarrow> Some (d, [], Continue)
     | Some reader \<Rightarrow>
         (case (case reader of [] \<Rightarrow> Some [] | (e, line) # _ \<Rightarrow> line) of
            Some line \<Rightarrow> map_option (\<lambda>(d, text). (d, text, Continue)) (api_respond marks cp ci c cd errno now eof d line (tl reader))
          | None \<Rightarrow> Some (d, [], Continue)))"

definition api_fd_handler ::
  "bool \<Rightarrow> ('n, 'p, unit) ip_crate \<Rightarrow> ('m, 'i, nat) ip_crate \<Rightarrow> crypto \<Rightarrow> codecs \<Rightarrow> (api_status \<Rightarrow> nat) \<Rightarrow> (nat \<Rightarrow> instant \<times> instant) \<Rightarrow> api_env
     \<Rightarrow> ('p, 'i) device \<Rightarrow> request \<Rightarrow> (('p, 'i) device \<times> bytes \<times> action) option" where
  "api_fd_handler marks cp ci c cd errno now eof d reader =
    (case (case reader of [] \<Rightarrow> Some [] | (e, line) # _ \<Rightarrow> line) of
       Some line \<Rightarrow> map_option (\<lambda>(d, text). (d, text, Continue)) (api_respond marks cp ci c cd errno now eof d line (tl reader))
     | None \<Rightarrow> Some (d, [], Exit))"

section \<open>Requests are operations of the device\<close>

text \<open>What is read during a request: the clock does not pass \<open>T'\<close>, and an iteration over a hash map meets every
  key once.\<close>

definition api_env_ok :: "instant \<Rightarrow> api_env \<Rightarrow> bool" where
  "api_env_ok T' e \<longleftrightarrow> instant_wf (nr_timers_now (ae_nr e)) \<and> later (nr_timers_now (ae_nr e)) T' \<and>
     (\<forall>m. finite (dom m) \<longrightarrow> distinct (ae_order e m) \<and> set (ae_order e m) = dom m)"

lemma finite_peers:
  assumes "dev_wf routes M T d"
  shows "finite (dom (dv_peers d))"
proof (rule finite_subset)
  show "dom (dv_peers d) \<subseteq> peer_key d ` {..<length (dv_store d)}"
    using assms unfolding dev_wf_def tables_inv_def by (auto simp: image_iff)
qed simp

lemma api_env_iterates: "api_env_ok T' e \<Longrightarrow> dev_wf routes M T d \<Longrightarrow> iterates d (ae_order e (dv_peers d))"
  using finite_peers unfolding api_env_ok_def iterates_def by blast

lemma or_einval_Some:
  "or_einval d r k = Some x \<longleftrightarrow> (r = None \<and> x = (d, Inl EINVAL)) \<or> (\<exists>y. r = Some y \<and> k y = Some x)"
  by (auto simp: or_einval_def split: option.splits)

lemma api_set_step_moves:
  assumes "api_set_step marks ci c cd e d cmd = Some (d', r)" and "dev_wf routes M T d" and "api_env_ok T' e"
  shows "d' = d \<or> dev_step pq c cp ci M (T, d) (T, d')"
proof -
  note it = api_env_iterates [OF assms(3,2)]
  let ?o = "ae_order e (dv_peers d)"
  consider "d' = d" | k where "set_key c (ae_nr e) ?o d k = Some d'" | p ok where "open_listen_socket (ae_os e) ?o d p = Some (d', ok)"
    | m where "d' = fst (set_fwmark (ae_os e) ?o d m)" | "d' = clear_peers ci d"
    using assms(1) unfolding api_set_step_def
    by (auto simp: Let_def or_einval_Some bind_eq_Some_conv case_prod_beta split: if_splits)
  then show ?thesis by cases (use it in \<open>auto intro: dev_step.intros prod.collapse [symmetric]\<close>)
qed

lemma commit_moves:
  assumes "commit_peer cp ci c e d sec = Some d'" and "api_env_ok T' e" and "later T T'"
  shows "dev_step pq c cp ci M (T, d) (T', d')"
  using assms unfolding commit_peer_def api_env_ok_def by (blast intro: dev_step.update_peer)

lemma api_set_peer_step_moves:
  assumes "api_set_peer_step cp ci c cd e d sec cmd = Some (d', r)" and "api_env_ok T' e" and "later T T'"
  shows "d' = d \<or> dev_step pq c cp ci M (T, d) (T', d')"
proof -
  consider "d' = d" | "commit_peer cp ci c e d sec = Some d'"
    using assms(1) unfolding api_set_peer_step_def
    by (auto simp: Let_def or_einval_Some bind_eq_Some_conv split: if_splits)
  then show ?thesis by cases (simp, rule disjI2, rule commit_moves [OF _ assms(2,3)])
qed

text \<open>The steps of a request, from the time \<open>T\<close> to \<open>T\<close> or \<open>T'\<close>.\<close>

definition moves where
  "moves pq c cp ci M T T' d d' \<longleftrightarrow> (\<exists>T''\<in>{T, T'}. (dev_step pq c cp ci M)\<^sup>*\<^sup>* (T, d) (T'', d'))"

lemma moves_refl: "moves pq c cp ci M T T' d d"
  by (auto simp: moves_def)

lemma moves_commit:
  assumes "commit_peer cp ci c e d sec = Some d'" and "api_env_ok T' e" and "later T T'"
  shows "moves pq c cp ci M T T' d d'"
  using commit_moves [OF assms, of pq M] by (auto simp: moves_def)

lemma moves_step:
  assumes "d1 = d \<or> dev_step pq c cp ci M (T, d) (T, d1)" and "moves pq c cp ci M T T' d1 d'"
  shows "moves pq c cp ci M T T' d d'"
  using assms by (auto simp: moves_def intro: converse_rtranclp_into_rtranclp)

lemma moves_step':
  assumes "d1 = d \<or> dev_step pq c cp ci M (T, d) (T', d1)" and "\<And>T. later T T' \<Longrightarrow> moves pq c cp ci M T T' d1 d'" and "later T T'"
  shows "moves pq c cp ci M T T' d d'"
proof (cases "d1 = d")
  case False
  have "later T' T'" using assms(3) by (simp add: later_def)
  from assms(2) [OF this] have "(dev_step pq c cp ci M)\<^sup>*\<^sup>* (T', d1) (T', d')" by (simp add: moves_def)
  then show ?thesis using False assms(1) by (auto simp: moves_def intro: converse_rtranclp_into_rtranclp)
qed (use assms(2) [OF assms(3)] in simp)

lemma api_set_peer_moves:
  assumes "api_set_peer cp ci c cd eof d sec reader = Some (d', st)" and "later T T'" and "api_env_ok T' eof"
    and "\<forall>(e, l)\<in>set reader. api_env_ok T' e"
  shows "moves pq c cp ci M T T' d d'"
  using assms
proof (induction cp ci c cd eof d sec reader arbitrary: T rule: api_set_peer.induct)
  case (1 cp ci c cd eof d sec)
  then show ?case by (auto intro: moves_commit)
next
  case (2 cp ci c cd eof d sec e reader)
  then show ?case by (simp add: moves_refl)
next
  case (3 cp ci c cd eof d sec e line reader)
  show ?case
  proof (cases "str_pop line = []")
    case True
    then show ?thesis using 3 by (auto intro: moves_commit)
  next
    case False
    then obtain d1 r where s: "api_set_peer_step cp ci c cd e d sec (str_pop line) = Some (d1, r)"
      and r: "(case r of Inl status \<Rightarrow> Some (d1, status) | Inr sec \<Rightarrow> api_set_peer cp ci c cd eof d1 sec reader) = Some (d', st)"
      using 3(2) by (auto simp: Let_def bind_eq_Some_conv)
    have m: "moves pq c cp ci M T T' d1 d'" if "later T T'" for T
    proof (cases r)
      case (Inl status)
      then show ?thesis using r by (simp add: moves_refl)
    next
      case (Inr sec')
      then show ?thesis using 3(1) [OF refl False s refl Inr] r 3(4,5) that by simp
    qed
    show ?thesis using 3(5) by (intro moves_step' [OF api_set_peer_step_moves [OF s _ 3(3)] m 3(3)]) auto
  qed
qed

lemma api_set_moves:
  assumes "api_set marks cp ci c cd eof d reader = Some (d', st)" and "dev_wf routes M T d" and "later T T'" and "api_env_ok T' eof"
    and "\<forall>(e, l)\<in>set reader. api_env_ok T' e" and "ip_crate_ok ci routes" and "crypto_ok c"
  shows "moves pq c cp ci M T T' d d'"
  using assms
proof (induction marks cp ci c cd eof d reader rule: api_set.induct)
  case (3 marks cp ci c cd eof d e line reader)
  show ?case
  proof (cases "str_pop line = []")
    case False
    then obtain d1 r where s: "api_set_step marks ci c cd e d (str_pop line) = Some (d1, r)"
      and r: "(case r of Inl status \<Rightarrow> Some (d1, status) | Inr None \<Rightarrow> api_set marks cp ci c cd eof d1 reader
        | Inr (Some k) \<Rightarrow> api_set_peer cp ci c cd eof d1 (peer_section_new k) reader) = Some (d', st)"
      using 3(2) by (auto simp: Let_def bind_eq_Some_conv)
    have st: "d1 = d \<or> dev_step pq c cp ci M (T, d) (T, d1)" using api_set_step_moves [OF s 3(3)] 3(6) by auto
    then have wf: "dev_wf routes M T d1" using dev_step_wf 3(3,7,8) by blast
    have "moves pq c cp ci M T T' d1 d'"
    proof (cases r)
      case (Inl status)
      then show ?thesis using r by (simp add: moves_refl)
    next
      case (Inr k)
      show ?thesis
      proof (cases k)
        case None
        then show ?thesis using 3(1) [OF refl False s refl Inr None] r Inr 3(4-8) wf by simp
      next
        case (Some k')
        then show ?thesis using r Inr 3(4-6) by (intro api_set_peer_moves) auto
      qed
    qed
    then show ?thesis using st by (rule moves_step [rotated])
  qed (use 3(2) in \<open>simp add: moves_refl\<close>)
qed (simp_all add: moves_refl)

lemma api_respond_moves:
  assumes "api_respond marks cp ci c cd errno now eof d line reader = Some (d', text)" and "dev_wf routes M T d" and "later T T'"
    and "api_env_ok T' eof" and "\<forall>(e, l)\<in>set reader. api_env_ok T' e" and "ip_crate_ok ci routes" and "crypto_ok c"
  shows "moves pq c cp ci M T T' d d'"
proof -
  consider "d' = d" | st where "api_set marks cp ci c cd eof d reader = Some (d', st)"
    using assms(1) by (auto simp: api_respond_def Let_def bind_eq_Some_conv split: if_splits)
  then show ?thesis by cases (use api_set_moves [OF _ assms(2-7)] moves_refl in auto)
qed

lemma api_handler_moves:
  assumes "api_handler marks cp ci c cd errno now eof d conn = Some (d', text, act)" and "dev_wf routes M T d" and "later T T'"
    and "api_env_ok T' eof" and "\<And>reader. conn = Some reader \<Longrightarrow> \<forall>(e, l)\<in>set reader. api_env_ok T' e"
    and "ip_crate_ok ci routes" and "crypto_ok c"
  shows "moves pq c cp ci M T T' d d'"
proof -
  consider "d' = d" | line reader where "conn = Some reader" "api_respond marks cp ci c cd errno now eof d line (tl reader) = Some (d', text)"
    using assms(1) by (auto simp: api_handler_def split: option.splits list.splits)
  then show ?thesis
  proof cases
    case 2
    have "\<forall>(e, l)\<in>set (tl reader). api_env_ok T' e" using assms(5) [OF 2(1)] by (cases reader) auto
    then show ?thesis using api_respond_moves [OF 2(2) assms(2-4) _ assms(6,7)] by blast
  qed (simp add: moves_refl)
qed

section \<open>The text of a peer section\<close>

lemma peer_step_line:
  "str_pop (fmt_line key val) = str_lit key @ 61 # val"
  using str_pop_line [of "str_lit key @ 61 # val"] by (simp add: fmt_line_def)

lemma peer_keys:
  assumes "key \<in> {''remove'', ''preshared_key'', ''endpoint'', ''persistent_keepalive_interval'', ''replace_allowed_ips'',
    ''allowed_ip'', ''public_key''}"
  shows "str_splitn2 61 (str_lit key @ 61 # val) = [str_lit key, val]"
  by (rule str_splitn2_key) (use assms in \<open>auto simp: str_lit_def\<close>)

lemma api_set_peer_step_simps:
  "api_set_peer_step cp ci c cd e d sec (str_lit ''remove'' @ 61 # val) =
     or_einval d (parse_bool val) (\<lambda>b. Some (d, Inr (sec\<lparr> ps_remove := b \<rparr>)))"
  "api_set_peer_step cp ci c cd e d sec (str_lit ''preshared_key'' @ 61 # val) = do {
     r \<leftarrow> parse_key cd val; or_einval d r (\<lambda>k. Some (d, Inr (sec\<lparr> ps_preshared_key := Some k \<rparr>))) }"
  "api_set_peer_step cp ci c cd e d sec (str_lit ''endpoint'' @ 61 # val) =
     or_einval d (parse_socket_addr val) (\<lambda>addr. Some (d, Inr (sec\<lparr> ps_endpoint := Some addr \<rparr>)))"
  "api_set_peer_step cp ci c cd e d sec (str_lit ''persistent_keepalive_interval'' @ 61 # val) =
     or_einval d (parse_u16 val) (\<lambda>interval. Some (d, Inr (sec\<lparr> ps_keepalive := Some interval \<rparr>)))"
  "api_set_peer_step cp ci c cd e d sec (str_lit ''replace_allowed_ips'' @ 61 # val) =
     or_einval d (parse_bool val) (\<lambda>b. Some (d, Inr (sec\<lparr> ps_replace_ips := b \<rparr>)))"
  "api_set_peer_step cp ci c cd e d sec (str_lit ''allowed_ip'' @ 61 # val) =
     or_einval d (allowed_ip_from_str val) (\<lambda>ip. Some (d, Inr (sec\<lparr> ps_allowed_ips := ps_allowed_ips sec @ [ip] \<rparr>)))"
  "api_set_peer_step cp ci c cd e d sec (str_lit ''public_key'' @ 61 # val) = do {
     d \<leftarrow> commit_peer cp ci c e d sec;
     r \<leftarrow> parse_key cd val;
     or_einval d r (\<lambda>k. Some (d, Inr (sec\<lparr> ps_allowed_ips := [], ps_public_key := k \<rparr>))) }"
  by (simp_all add: api_set_peer_step_def peer_keys Let_def) (simp_all add: str_lit_def)

lemma api_set_peer_line:
  assumes "api_set_peer_step cp ci c cd e d sec (str_lit key @ 61 # val) = Some (d, Inr sec')"
  shows "api_set_peer cp ci c cd eof d sec ((e, Some (fmt_line key val)) # reader) = api_set_peer cp ci c cd eof d sec' reader"
  using assms by (simp add: peer_step_line)

text \<open>The lines with the settings of a section, and the settings that are read: those without a line are
  what they were.\<close>

definition fmt_bool :: "bool \<Rightarrow> bytes" where
  "fmt_bool b = str_lit (if b then ''true'' else ''false'')"

definition section_lines :: "codecs \<Rightarrow> peer_section \<Rightarrow> bytes list" where
  "section_lines cd sec =
     [fmt_line ''remove'' (fmt_bool (ps_remove sec)), fmt_line ''replace_allowed_ips'' (fmt_bool (ps_replace_ips sec))] @
     (case ps_preshared_key sec of None \<Rightarrow> [] | Some k \<Rightarrow> [fmt_line ''preshared_key'' (hex_encode cd k)]) @
     (case ps_keepalive sec of None \<Rightarrow> [] | Some n \<Rightarrow> [fmt_line ''persistent_keepalive_interval'' (fmt_radix 10 (unat n))]) @
     (case ps_endpoint sec of None \<Rightarrow> [] | Some a \<Rightarrow> [fmt_line ''endpoint'' (fmt_socket_addr a)]) @
     map (\<lambda>ip. fmt_line ''allowed_ip'' (fmt_allowed_ip (aip_addr ip) (aip_cidr ip))) (ps_allowed_ips sec)"

definition or_old :: "'a option \<Rightarrow> 'a option \<Rightarrow> 'a option" where
  "or_old x old = (case x of None \<Rightarrow> old | Some _ \<Rightarrow> x)"

definition section_over :: "peer_section \<Rightarrow> peer_section \<Rightarrow> peer_section" where
  "section_over old sec = old\<lparr> ps_remove := ps_remove sec, ps_replace_ips := ps_replace_ips sec,
     ps_preshared_key := or_old (ps_preshared_key sec) (ps_preshared_key old), ps_keepalive := or_old (ps_keepalive sec) (ps_keepalive old),
     ps_endpoint := or_old (ps_endpoint sec) (ps_endpoint old), ps_allowed_ips := ps_allowed_ips old @ ps_allowed_ips sec \<rparr>"

definition section_wf :: "peer_section \<Rightarrow> bool" where
  "section_wf sec \<longleftrightarrow> length (ps_public_key sec) = 32 \<and> (\<forall>k. ps_preshared_key sec = Some k \<longrightarrow> length k = 32) \<and>
     (\<forall>a. ps_endpoint sec = Some a \<longrightarrow> socket_addr_wf a) \<and> (\<forall>ip\<in>set (ps_allowed_ips sec). ip_addr_wf (aip_addr ip) \<and> cidr_ok ip)"

abbreviation lines_of :: "api_env \<Rightarrow> bytes list \<Rightarrow> request" where
  "lines_of e ls \<equiv> map (\<lambda>l. (e, Some l)) ls"

lemma parse_bool_fmt [simp]: "parse_bool (fmt_bool b) = Some b"
  by (simp add: parse_bool_def fmt_bool_def) (simp add: str_lit_def)

lemma parse_key_hex: "codecs_ok cd \<Longrightarrow> length k = 32 \<Longrightarrow> parse_key cd (hex_encode cd k) = Some (Some k)"
  by (simp add: parse_key_def key_of_hex)

lemma read_allowed_ips:
  assumes "\<forall>ip\<in>set ips. ip_addr_wf (aip_addr ip) \<and> cidr_ok ip"
  shows "api_set_peer cp ci c cd eof d sec
      (lines_of e (map (\<lambda>ip. fmt_line ''allowed_ip'' (fmt_allowed_ip (aip_addr ip) (aip_cidr ip))) ips) @ reader) =
    api_set_peer cp ci c cd eof d (sec\<lparr> ps_allowed_ips := ps_allowed_ips sec @ ips \<rparr>) reader"
  using assms
proof (induction ips arbitrary: sec)
  case (Cons ip ips)
  have "allowed_ip_from_str (fmt_allowed_ip (aip_addr ip) (aip_cidr ip)) = Some ip"
    using Cons(2) by (intro network_text.parse_printed) simp
  then have "api_set_peer_step cp ci c cd e d sec (str_lit ''allowed_ip'' @ 61 # fmt_allowed_ip (aip_addr ip) (aip_cidr ip))
    = Some (d, Inr (sec\<lparr> ps_allowed_ips := ps_allowed_ips sec @ [ip] \<rparr>))"
    by (simp add: api_set_peer_step_simps or_einval_def)
  from api_set_peer_line [OF this] show ?case using Cons by simp
qed simp

lemma read_option:
  assumes "\<And>x sec. opt = Some x \<Longrightarrow> api_set_peer_step cp ci c cd e d sec (str_lit key @ 61 # fmt x) = Some (d, Inr (upd (Some x) sec))"
  shows "api_set_peer cp ci c cd eof d sec (lines_of e (case opt of None \<Rightarrow> [] | Some x \<Rightarrow> [fmt_line key (fmt x)]) @ reader) =
    api_set_peer cp ci c cd eof d (case opt of None \<Rightarrow> sec | Some x \<Rightarrow> upd (Some x) sec) reader"
  using api_set_peer_line [OF assms] by (cases opt) simp_all

lemma read_section:
  assumes "codecs_ok cd" and "section_wf sec"
  shows "api_set_peer cp ci c cd eof d old (lines_of e (section_lines cd sec) @ reader) =
    api_set_peer cp ci c cd eof d (section_over old sec) reader"
proof -
  let ?s1 = "old\<lparr> ps_remove := ps_remove sec, ps_replace_ips := ps_replace_ips sec \<rparr>"
  let ?s2 = "?s1\<lparr> ps_preshared_key := or_old (ps_preshared_key sec) (ps_preshared_key old) \<rparr>"
  let ?s3 = "?s2\<lparr> ps_keepalive := or_old (ps_keepalive sec) (ps_keepalive old) \<rparr>"
  let ?s4 = "?s3\<lparr> ps_endpoint := or_old (ps_endpoint sec) (ps_endpoint old) \<rparr>"
  note step = api_set_peer_step_simps or_einval_def
  have 1: "api_set_peer cp ci c cd eof d old
      ((e, Some (fmt_line ''remove'' (fmt_bool (ps_remove sec)))) #
       (e, Some (fmt_line ''replace_allowed_ips'' (fmt_bool (ps_replace_ips sec)))) # r) = api_set_peer cp ci c cd eof d ?s1 r" for r
    by (subst api_set_peer_line, simp add: step, subst api_set_peer_line, simp add: step) simp
  have 2: "api_set_peer cp ci c cd eof d ?s1
      (lines_of e (case ps_preshared_key sec of None \<Rightarrow> [] | Some k \<Rightarrow> [fmt_line ''preshared_key'' (hex_encode cd k)]) @ r)
    = api_set_peer cp ci c cd eof d ?s2 r" for r
    by (subst read_option [where upd = "\<lambda>x s. s\<lparr> ps_preshared_key := x \<rparr>"])
      (use assms in \<open>auto simp: step parse_key_hex section_wf_def or_old_def split: option.split\<close>)
  have 3: "api_set_peer cp ci c cd eof d ?s2
      (lines_of e (case ps_keepalive sec of None \<Rightarrow> [] | Some n \<Rightarrow> [fmt_line ''persistent_keepalive_interval'' (fmt_radix 10 (unat n))]) @ r)
    = api_set_peer cp ci c cd eof d ?s3 r" for r
    by (subst read_option [where upd = "\<lambda>x s. s\<lparr> ps_keepalive := x \<rparr>"]) (auto simp: step u16_text.parse_printed or_old_def split: option.split)
  have 4: "api_set_peer cp ci c cd eof d ?s3
      (lines_of e (case ps_endpoint sec of None \<Rightarrow> [] | Some a \<Rightarrow> [fmt_line ''endpoint'' (fmt_socket_addr a)]) @ r)
    = api_set_peer cp ci c cd eof d ?s4 r" for r
    by (subst read_option [where upd = "\<lambda>x s. s\<lparr> ps_endpoint := x \<rparr>"])
      (use assms(2) in \<open>auto simp: step socket_text.parse_printed section_wf_def or_old_def split: option.split\<close>)
  have ips: "\<forall>ip\<in>set (ps_allowed_ips sec). ip_addr_wf (aip_addr ip) \<and> cidr_ok ip" using assms(2) by (simp add: section_wf_def)
  show ?thesis unfolding section_lines_def map_append append_assoc list.map(2) [of _ "fmt_line ''remove'' _"] list.map(1)
      list.map(2) [of _ "fmt_line ''replace_allowed_ips'' _"] append_Cons append_Nil 1 2 3 4 read_allowed_ips [OF ips]
    by (simp add: section_over_def)
qed

end
