(* ===== verification/Device_Config.thy ===== *)
theory Device_Config
  imports Device_Safety
begin

text \<open>
  The configuration of a device: what a new private key does to the peers, and what adding and removing a
  peer does to the tables.
\<close>

section \<open>A new private key\<close>

text \<open>The tunnel with the new key: the same peer, no session, and the shared limiter.\<close>

definition rekeyed :: "crypto \<Rightarrow> bytes \<Rightarrow> nat \<Rightarrow> tunn \<Rightarrow> tunn" where
  "rekeyed c sk rl t = t\<lparr> tn_timers := (tn_timers t)\<lparr> tm_should_reset_rr := False \<rparr>, tn_rate_limiter := rl,
     tn_handshake := (tn_handshake t)\<lparr> hs_params := (hs_params (tn_handshake t))\<lparr> np_static_private := sk,
       np_static_public := x25519_public c sk, np_static_shared := x25519_dh c sk (np_peer_static_public (hs_params (tn_handshake t))) \<rparr> \<rparr>,
     tn_sessions := map (\<lambda>_. None) (tn_sessions t) \<rparr>"

lemma set_static_private_rekeyed:
  "tunn_set_static_private c nr heap t sk (x25519_public c sk) (Some rl) = Some (heap, rekeyed c sk rl t)"
  by (simp add: tunn_set_static_private_def handshake_set_static_private_def noise_params_set_static_private_def rekeyed_def)

lemma set_static_privates_rekeyed:
  "distinct as \<Longrightarrow> \<exists>store. set_static_privates c nr d sk (x25519_public c sk) rl as = Some (d\<lparr> dv_store := store \<rparr>) \<and>
    length store = length (dv_store d) \<and> (\<forall>b < length (dv_store d). store ! b =
      (if b \<in> set as then (dv_store d ! b)\<lparr> pr_tunnel := rekeyed c sk rl (pr_tunnel (dv_store d ! b)) \<rparr> else dv_store d ! b))"
proof (induction as arbitrary: d)
  case Nil
  then show ?case by (intro exI [of _ "dv_store d"]) simp
next
  case (Cons a as)
  let ?d = "d\<lparr> dv_store := (dv_store d)[a := (dv_store d ! a)\<lparr> pr_tunnel := rekeyed c sk rl (pr_tunnel (dv_store d ! a)) \<rparr>] \<rparr>"
  from Cons.IH [of ?d] Cons.prems obtain store where
    "set_static_privates c nr ?d sk (x25519_public c sk) rl as = Some (?d\<lparr> dv_store := store \<rparr>)" "length store = length (dv_store d)"
    "\<forall>b < length (dv_store d). store ! b = (if b \<in> set as then (dv_store ?d ! b)\<lparr> pr_tunnel := rekeyed c sk rl (pr_tunnel (dv_store ?d ! b)) \<rparr>
      else dv_store ?d ! b)" by auto
  note st = this
  have "store ! b = (if b \<in> set (a # as) then (dv_store d ! b)\<lparr> pr_tunnel := rekeyed c sk rl (pr_tunnel (dv_store d ! b)) \<rparr> else dv_store d ! b)"
    if "b < length (dv_store d)" for b using that st(3) Cons.prems by (cases "b = a") simp_all
  then show ?case using st(1,2) by (intro exI [of _ store]) (simp add: set_static_private_rekeyed put_peer_def)
qed

lemma set_key_new:
  assumes "dev_wf routes M T d" and "iterates d order" and "Some (x25519_public c sk) \<noteq> map_option snd (dv_key_pair d)"
  shows "\<exists>heap rl store. set_key c nr order d sk = Some (d\<lparr> dv_key_pair := Some (sk, x25519_public c sk), dv_rate_limiter := Some rl,
        dv_limiters := heap, dv_store := store \<rparr>) \<and>
      limiter_for c (x25519_public c sk) (rlh_at heap rl) \<and> rl_count (rlh_at heap rl) = 0 \<and>
      length store = length (dv_store d) \<and>
      (\<forall>b < length (dv_store d). store ! b = (if b \<in> ran (dv_peers d)
        then (dv_store d ! b)\<lparr> pr_tunnel := rekeyed c sk rl (pr_tunnel (dv_store d ! b)) \<rparr> else dv_store d ! b))"
proof -
  obtain heap rl where al: "rl_alloc (dv_limiters d) (rate_limiter_new c (nr_secret_key nr) (nr_nonce_key nr) (nr_start_time nr) (nr_last_reset nr)
    (x25519_public c sk) HANDSHAKE_RATE_LIMIT) = (heap, rl)" by fastforce
  note v = peer_values_facts [OF dev_wf_facts(1) [OF assms(1)] assms(2)]
  from set_static_privates_rekeyed [OF v(1), of c nr "d\<lparr> dv_limiters := heap \<rparr>" sk rl] obtain store where
    s: "set_static_privates c nr (d\<lparr> dv_limiters := heap \<rparr>) sk (x25519_public c sk) rl (peer_values d order) =
        Some (d\<lparr> dv_limiters := heap, dv_store := store \<rparr>)" "length store = length (dv_store d)"
      "\<forall>b < length (dv_store d). store ! b = (if b \<in> ran (dv_peers d)
        then (dv_store d ! b)\<lparr> pr_tunnel := rekeyed c sk rl (pr_tunnel (dv_store d ! b)) \<rparr> else dv_store d ! b)"
    unfolding v(2) by auto
  have "peer_values (d\<lparr> dv_limiters := heap \<rparr>) order = peer_values d order" by (simp add: peer_values_def)
  then have "set_key c nr order d sk = Some (d\<lparr> dv_key_pair := Some (sk, x25519_public c sk), dv_rate_limiter := Some rl,
      dv_limiters := heap, dv_store := store \<rparr>)" using assms(3) al s(1) by (simp add: set_key_def)
  moreover have "limiter_for c (x25519_public c sk) (rlh_at heap rl)" "rl_count (rlh_at heap rl) = 0"
    using al limiter_for_new by (auto simp: rl_alloc_def) (simp add: rate_limiter_new_def)
  ultimately show ?thesis using s(2,3) by blast
qed

text \<open>C26: a new private key takes effect for every configured peer at once. Setting a key whose public key
  is not the present one succeeds in every reachable state; afterwards the device has the new key pair
  and a fresh limiter for the new public key; every configured peer has the new static keys, the shared
  secret of the new key and its own public key, this limiter, and no session left; its indices, queue and
  networks, the removed peers and the tables are as before. Setting the present key again changes
  nothing.\<close>
theorem set_key_rekeys_peers:
  assumes "dev_reach pq c cp ci M T d" and "ip_crate_ok ci routes" and "crypto_ok c" and "iterates d order"
  shows "if Some (x25519_public c sk) = map_option snd (dv_key_pair d) then set_key c nr order d sk = Some d
    else \<exists>heap rl store. set_key c nr order d sk = Some (d\<lparr> dv_key_pair := Some (sk, x25519_public c sk), dv_rate_limiter := Some rl,
        dv_limiters := heap, dv_store := store \<rparr>) \<and>
      limiter_for c (x25519_public c sk) (rlh_at heap rl) \<and> rl_count (rlh_at heap rl) = 0 \<and>
      length store = length (dv_store d) \<and>
      (\<forall>b < length (dv_store d). store ! b = (if b \<in> ran (dv_peers d)
        then (dv_store d ! b)\<lparr> pr_tunnel := rekeyed c sk rl (pr_tunnel (dv_store d ! b)) \<rparr> else dv_store d ! b))"
proof (cases "Some (x25519_public c sk) = map_option snd (dv_key_pair d)")
  case True
  then show ?thesis by (simp add: set_key_def)
next
  case False
  show ?thesis using set_key_new [OF dev_reach_wf [OF assms(1-3)] assms(4) False] unfolding if_not_P [OF False] .
qed

theorem set_key_rekeys_peers_witness:
  "\<exists>(d :: (unit net_list, nat net_list) device) d' p. dev_reach True plain_crypto list_crate list_crate 1420 demo_instant d \<and> dv_store d = [p] \<and>
     set_key plain_crypto demo_new [x25519_public plain_crypto [3]] d [5] = Some d' \<and> dv_key_pair d' = Some ([5], x25519_public plain_crypto [5]) \<and>
     np_static_private (hs_params (tn_handshake (pr_tunnel (dv_store d' ! 0)))) = [5]"
proof -
  from demo_device [of True "[3]" "[2]" True] obtain d :: "(unit net_list, nat net_list) device" and p where d:
    "dev_reach True plain_crypto list_crate list_crate 1420 demo_instant d" "dv_peers d = [x25519_public plain_crypto [3] \<mapsto> 0]" "dv_store d = [p]"
    "dv_key_pair d = Some ([2], x25519_public plain_crypto [2])" by blast
  have it: "iterates d [x25519_public plain_crypto [3]]" using d(2) by (simp add: iterates_def)
  have ne: "x25519_public plain_crypto [5] \<noteq> x25519_public plain_crypto [2]" by code_simp
  from set_key_rekeys_peers [OF d(1) list_crate_ok plain_crypto_ok it, of "[5]" demo_new] d ne show ?thesis
    by (auto simp: rekeyed_def ran_def)
qed

section \<open>Adding and removing a peer\<close>

lemma next_index_fresh:
  assumes "index_inv d" and "index_lfsr_next (dv_next_index d) = Some (l, idx)"
  shows "idx \<notin> pr_index ` set (dv_store d)"
proof -
  from assms(1) obtain rng l0 rng' where l0: "index_lfsr_default rng = Some (l0, rng')"
    "draw_indices (length (dv_store d)) l0 = Some (dv_next_index d, map pr_index (dv_store d))" by (auto simp: index_inv_def)
  from drawn_indices(1) [OF l0(1) draw_indices_snoc [OF l0(2) assms(2)]] show ?thesis by simp
qed

lemma add_peer_returns:
  assumes "ip_crate_ok cp routes'" and "ip_crate_ok ci routes" and "\<forall>ip\<in>set ips. cidr_ok ip" and "dv_peers d k = None"
    and "dv_key_pair d \<noteq> None" and "nr_system_time nr \<noteq> None" and "index_lfsr_next (dv_next_index d) = Some (l, idx)"
  shows "\<exists>d1 p tbl heap. update_peer cp ci c nr os d k False rip ep ips ka psk = Some d1 \<and>
    d1 = d\<lparr> dv_next_index := l, dv_limiters := heap, dv_store := dv_store d @ [p],
      dv_peers := (dv_peers d)(k \<mapsto> length (dv_store d)), dv_peers_by_idx := (dv_peers_by_idx d)(idx \<mapsto> length (dv_store d)), dv_peers_by_ip := tbl \<rparr> \<and>
    pr_index p = idx \<and> ep_addr (pr_endpoint p) = ep \<and> ep_conn (pr_endpoint p) = None \<and>
    routes tbl = routes (dv_peers_by_ip d) ++ map_of (rev (map (\<lambda>ip. (ip_prefix ip, length (dv_store d))) ips))"
proof -
  obtain sk pk where k: "dv_key_pair d = Some (sk, pk)" using assms(5) by auto
  obtain st where st: "time_stamper_new (nr_system_time nr) (nr_stamper_now nr) = Some st" using assms(6) by (auto simp: time_stamper_new_def)
  obtain heap t where t: "tunn_new c nr (dv_limiters d) sk k psk ka idx None = Some (heap, t)"
    using st by (simp add: tunn_new_def handshake_new_def rl_alloc_def Let_def)
  from peer_new_returns [OF assms(1,3)] obtain p where p: "peer_new cp t idx ep ips psk = Some p" "pr_index p = idx"
    "ep_addr (pr_endpoint p) = ep" "ep_conn (pr_endpoint p) = None" by blast
  have "\<forall>(ip, a)\<in>set (map (\<lambda>ip. (ip, length (dv_store d))) ips). cidr_ok ip" using assms(3) by auto
  from insert_all_abs [OF assms(2) this, of "dv_peers_by_ip d"] obtain tbl where
    tbl: "insert_all ci (dv_peers_by_ip d) (map (\<lambda>ip. (ip, length (dv_store d))) ips) = Some tbl"
      "routes tbl = routes (dv_peers_by_ip d) ++ map_of (rev (map (\<lambda>ip. (ip_prefix ip, length (dv_store d))) ips))" by (auto simp: comp_def)
  have "update_peer cp ci c nr os d k False rip ep ips ka psk = Some (d\<lparr> dv_next_index := l, dv_limiters := heap, dv_store := dv_store d @ [p],
      dv_peers := (dv_peers d)(k \<mapsto> length (dv_store d)), dv_peers_by_idx := (dv_peers_by_idx d)(idx \<mapsto> length (dv_store d)), dv_peers_by_ip := tbl \<rparr>)"
    using assms(4,7) k t p(1) tbl(1) by (simp add: update_peer_def device_next_index_def Let_def)
  then show ?thesis using p(2-4) tbl(2) by blast
qed

lemma map_of_const: "map_of (map (\<lambda>x. (f x, c)) xs) n = (if n \<in> f ` set xs then Some c else None)"
  by (induction xs) auto

lemma remove_peer_returns:
  assumes "ip_crate_ok ci routes" and "dv_peers d k = Some a" and "ep_conn (pr_endpoint (dv_store d ! a)) = None"
  shows "\<exists>d'. remove_peer ci os d k = Some d' \<and> dv_peers d' = (dv_peers d)(k := None) \<and>
    dv_peers_by_idx d' = (dv_peers_by_idx d)(pr_index (dv_store d ! a) := None) \<and>
    routes (dv_peers_by_ip d') = (\<lambda>n. if routes (dv_peers_by_ip d) n = Some a then None else routes (dv_peers_by_ip d) n)"
proof -
  have r: "routes (tbl_retain ci (\<lambda>_. f) t) = (\<lambda>n. case routes t n of Some x \<Rightarrow> if f x then Some x else None | None \<Rightarrow> None)" for f t
    using assms(1) unfolding ip_crate_ok_def by blast
  show ?thesis using assms(2,3)
    by (simp add: remove_peer_def shutdown_endpoint_def put_peer_def allowed_ips_remove_def r fun_eq_iff split: option.splits)
qed



end
