(* ===== verification/Api_Properties.thy ===== *)
theory Api_Properties
  imports Api Device_Config
begin

text \<open>
  The properties of the control socket: requests are sequences of operations of the device, the text of a
  configuration has the effect it describes, and what the parsers let through is well formed.
\<close>

section \<open>Requests and the device\<close>

lemma dev_reach_steps:
  assumes "dev_reach pq c cp ci M T d" and "(dev_step pq c cp ci M)\<^sup>*\<^sup>* (T, d) (T', d')"
  shows "dev_reach pq c cp ci M T' d'"
  using assms unfolding dev_reach_def by (blast intro: rtranclp_trans)


text \<open>An order of iteration for every map, and a request that sets the private key.\<close>

definition any_order :: "(bytes \<rightharpoonup> nat) \<Rightarrow> bytes list" where
  "any_order m = (SOME ks. distinct ks \<and> set ks = dom m)"

definition demo_api_env :: api_env where
  "demo_api_env = \<lparr> ae_nr = demo_new, ae_os = demo_os, ae_order = any_order \<rparr>"

lemma demo_api_env_ok: "api_env_ok demo_instant demo_api_env"
proof -
  have "distinct (any_order m) \<and> set (any_order m) = dom m" if "finite (dom m)" for m
    using someI_ex [of "\<lambda>ks. distinct ks \<and> set ks = dom m"] finite_distinct_list [OF that] unfolding any_order_def by blast
  then show ?thesis by (simp add: api_env_ok_def demo_api_env_def demo_new_def later_def demo_instant_def instant_wf_def NANOSECOND_def)
qed

lemma split_key_line:
  assumes "codecs_ok cd" and "key \<in> {''private_key'', ''public_key''}"
  shows "str_split 61 (str_lit key @ 61 # hex_encode cd k) = [str_lit key, hex_encode cd k]"
proof (rule str_split_two)
  show "61 \<notin> set (hex_encode cd k)"
    using assms(1) hex_pair_plain [of 61 k] digit_char_plain(5) by (fastforce simp: codecs_ok_def)
  show "61 \<notin> set (str_lit key)" using assms(2) by (auto simp: str_lit_def)
qed

lemma private_key_line:
  assumes "codecs_ok cd" and "length k = 32"
  shows "api_set_step marks ci c cd e d (str_lit ''private_key'' @ 61 # hex_encode cd k) =
    do { d \<leftarrow> set_key c (ae_nr e) (ae_order e (dv_peers d)) d k; Some (d, Inr None) }"
  by (simp add: api_set_step_def split_key_line [OF assms(1)] parse_key_hex [OF assms] or_einval_def)

lemma public_key_line:
  assumes "codecs_ok cd" and "length k = 32"
  shows "api_set_step marks ci c cd e d (str_lit ''public_key'' @ 61 # hex_encode cd k) = Some (d, Inr (Some k))"
  by (simp add: api_set_step_def split_key_line [OF assms(1)] Let_def)
    (simp add: str_lit_def parse_key_hex [OF assms] or_einval_def)


section \<open>Configurations as text\<close>

text \<open>The lines of a peer, and what the sections of a request leave for the update of each peer: a section
  starts with the settings of the one before it, without its networks.\<close>

definition peer_lines :: "codecs \<Rightarrow> peer_section \<Rightarrow> bytes list" where
  "peer_lines cd sec = fmt_line ''public_key'' (hex_encode cd (ps_public_key sec)) # section_lines cd sec"

fun carried :: "peer_section \<Rightarrow> peer_section list \<Rightarrow> peer_section list" where
  "carried old [] = []"
| "carried old (sec # secs) =
    (let sec' = section_over (old\<lparr> ps_allowed_ips := [], ps_public_key := ps_public_key sec \<rparr>) sec in sec' # carried sec' secs)"

fun commits ::
  "('n, 'p, unit) ip_crate \<Rightarrow> ('m, 'i, nat) ip_crate \<Rightarrow> crypto \<Rightarrow> api_env \<Rightarrow> ('p, 'i) device \<Rightarrow> peer_section list \<Rightarrow> ('p, 'i) device option" where
  "commits cp ci c e d [] = Some d"
| "commits cp ci c e d (sec # secs) = do {
     d \<leftarrow> update_peer cp ci c (ae_nr e) (ae_os e) d (ps_public_key sec) (ps_remove sec) (ps_replace_ips sec) (ps_endpoint sec)
       (ps_allowed_ips sec) (ps_keepalive sec) (ps_preshared_key sec);
     commits cp ci c e d secs
   }"

lemma section_over_new: "section_over (peer_section_new (ps_public_key sec)) sec = sec"
  by (cases sec) (simp add: section_over_def peer_section_new_def or_old_def split: option.split)

lemma read_sections:
  assumes "codecs_ok cd" and "\<forall>s\<in>set secs. section_wf s"
  shows "api_set_peer cp ci c cd eof d sec (lines_of e (concat (map (peer_lines cd) secs) @ [[10]])) =
    map_option (\<lambda>d. (d, ApiOk)) (commits cp ci c e d (sec # carried sec secs))"
  using assms(2)
proof (induction secs arbitrary: d sec)
  case Nil
  have "str_pop [10] = []" using str_pop_line [of "[]"] by simp
  then show ?case by (simp add: commit_peer_def split: Option.bind_split)
next
  case (Cons s secs)
  let ?s = "section_over (sec\<lparr> ps_allowed_ips := [], ps_public_key := ps_public_key s \<rparr>) s"
  have wf: "section_wf s" "length (ps_public_key s) = 32" using Cons(2) by (simp_all add: section_wf_def)
  have "api_set_peer cp ci c cd eof d sec ((e, Some (fmt_line ''public_key'' (hex_encode cd (ps_public_key s)))) #
      lines_of e (section_lines cd s) @ reader) =
    do { d \<leftarrow> commit_peer cp ci c e d sec; api_set_peer cp ci c cd eof d ?s reader }" for reader
    by (simp add: peer_step_line api_set_peer_step_simps(7) parse_key_hex [OF assms(1) wf(2)] or_einval_def
      read_section [OF assms(1) wf(1)] split: Option.bind_split)
  note step = this
  show ?case using Cons(1) Cons(2)
    by (simp add: peer_lines_def step commit_peer_def Let_def del: api_set_peer.simps split: Option.bind_split)
qed

text \<open>C12: from text to peers. The text of a list of peers, with hexadecimal keys and the printed forms of
  endpoints, intervals and networks (all forms of IPv4 and IPv6 addresses), is read back completely: the request
  succeeds if and only if the updates succeed, the first peer is updated with exactly the settings of its
  section, and every other one with its own key and networks and the settings its section states, while
  the preshared key, the endpoint and the interval it does not state are those of the peer before it.\<close>
theorem peer_text_configures:
  assumes "codecs_ok cd" and "\<forall>s\<in>set (sec # secs). section_wf s"
  shows "api_set marks cp ci c cd eof d (lines_of e (concat (map (peer_lines cd) (sec # secs)) @ [[10]])) =
    map_option (\<lambda>d'. (d', ApiOk)) (commits cp ci c e d (sec # carried sec secs))"
proof -
  have wf: "section_wf sec" "length (ps_public_key sec) = 32" "\<forall>s\<in>set secs. section_wf s"
    using assms(2) by (simp_all add: section_wf_def)
  have "api_set marks cp ci c cd eof d ((e, Some (fmt_line ''public_key'' (hex_encode cd (ps_public_key sec)))) # reader) =
      api_set_peer cp ci c cd eof d (peer_section_new (ps_public_key sec)) reader" for reader
    by (simp add: peer_step_line public_key_line [OF assms(1) wf(2)])
  then show ?thesis using read_sections [OF assms(1) wf(3), of cp ci c eof d sec e]
    by (simp add: peer_lines_def read_section [OF assms(1) wf(1)] section_over_new del: commits.simps)
qed

definition demo_section :: peer_section where
  "demo_section = \<lparr> ps_public_key = replicate 32 7, ps_remove = False, ps_replace_ips = True,
     ps_endpoint = Some \<lparr> sa_ip = IpV6 (0x20 # 1 # replicate 13 0 @ [1]), sa_port = 51820, sa_flowinfo = 0, sa_scope_id = 0 \<rparr>,
     ps_keepalive = Some 25, ps_preshared_key = Some (replicate 32 9),
     ps_allowed_ips = [\<lparr> aip_addr = IpV4 [10, 1, 0, 0], aip_cidr = 16 \<rparr>] \<rparr>"

lemma demo_section_wf: "section_wf demo_section"
  by (simp add: section_wf_def demo_section_def socket_addr_wf_def cidr_ok_def max_cidr_def)

theorem peer_text_configures_witness:
  "\<exists>(d :: (unit net_list, nat net_list) device) d'. dev_reach True plain_crypto list_crate list_crate 1420 demo_instant d \<and>
     api_set True list_crate list_crate plain_crypto plain_codecs demo_api_env d
       (lines_of demo_api_env (concat (map (peer_lines plain_codecs) [demo_section]) @ [[10]])) = Some (d', ApiOk) \<and>
     dv_peers d' (replicate 32 7) = Some 1 \<and> ep_addr (pr_endpoint (dv_store d' ! 1)) = ps_endpoint demo_section"
proof -
  from demo_device [of True "[3]" "[2]" True] obtain d :: "(unit net_list, nat net_list) device" and p where d:
    "dev_reach True plain_crypto list_crate list_crate 1420 demo_instant d" "dv_peers d = [x25519_public plain_crypto [3] \<mapsto> 0]" "dv_store d = [p]"
    "dv_key_pair d = Some ([2], x25519_public plain_crypto [2])" "dv_next_index d = \<lparr> lf_initial = 2, lf_lfsr = 1, lf_mask = 5 \<rparr>" by blast
  let ?ips = "[\<lparr> aip_addr = IpV4 [10, 1, 0, 0], aip_cidr = 16 \<rparr>]"
  have ips: "\<forall>ip\<in>set ?ips. cidr_ok ip" by (simp add: cidr_ok_def max_cidr_def)
  have "x25519_public plain_crypto [3] \<noteq> replicate 32 7" by code_simp
  then have k: "dv_peers d (replicate 32 7) = None" using d(2) by simp
  obtain l idx where l: "index_lfsr_next (dv_next_index d) = Some (l, idx)"
    unfolding d(5) by (simp add: index_lfsr_next_def LFSR_MAX_def LFSR_POLY_def Let_def)
  have n: "dv_key_pair d \<noteq> None" "nr_system_time demo_new \<noteq> None" using d(4) by (simp_all add: demo_new_def)
  from add_peer_returns [OF list_crate_ok list_crate_ok ips k n l, of plain_crypto demo_os True "ps_endpoint demo_section" "Some 25" "Some (replicate 32 9)"]
  obtain d1 where d1: "commits list_crate list_crate plain_crypto demo_api_env d [demo_section] = Some d1"
    "dv_peers d1 (replicate 32 7) = Some 1" "ep_addr (pr_endpoint (dv_store d1 ! 1)) = ps_endpoint demo_section"
    using d(3) by (auto simp: demo_api_env_def demo_section_def)
  from peer_text_configures [OF plain_codecs_ok, of demo_section "[]" True list_crate list_crate plain_crypto demo_api_env d demo_api_env]
  show ?thesis using d(1) d1 demo_section_wf by (auto simp del: commits.simps)
qed

text \<open>The settings a section does not state: a peer that is listed without a preshared key behind one with a
  preshared key gets that key, and likewise its endpoint and its interval.\<close>

lemma unstated_settings_carry_over:
  assumes "ps_preshared_key s2 = None" and "ps_endpoint s2 = None" and "ps_keepalive s2 = None" and "carried s1 [s2] = [s]"
  shows "ps_public_key s = ps_public_key s2 \<and> ps_preshared_key s = ps_preshared_key s1 \<and> ps_endpoint s = ps_endpoint s1 \<and>
    ps_keepalive s = ps_keepalive s1"
  using assms by (auto simp: section_over_def or_old_def)

section \<open>What is read is well formed\<close>

lemma parse_key_length:
  assumes "parse_key cd val = Some (Some k)"
  shows "length k = 32"
proof -
  obtain r where "key_bytes_from_str cd val = Some r" "(case r of Inr key \<Rightarrow> Some key | Inl _ \<Rightarrow> None) = Some k"
    using assms by (auto simp: parse_key_def)
  then show ?thesis by (cases r) (auto dest: length_key_bytes)
qed



section \<open>Texts that are treated differently\<close>

text \<open>The padded base64 form of a key is a key for a peer section, while before the first section its padding
  character makes the line a third part, and the request ends with a protocol error.\<close>

lemma padded_base64_keys:
  assumes "codecs_ok cd" and "length k = 32"
  shows "api_set_peer_step cp ci c cd e d sec (str_lit ''preshared_key'' @ 61 # base64_encode cd k) =
      Some (d, Inr (sec\<lparr> ps_preshared_key := Some k \<rparr>))"
    and "api_set_step marks ci c cd e d (str_lit key @ 61 # base64_encode cd k) = Some (d, Inl EPROTO)"
proof -
  show "api_set_peer_step cp ci c cd e d sec (str_lit ''preshared_key'' @ 61 # base64_encode cd k) =
      Some (d, Inr (sec\<lparr> ps_preshared_key := Some k \<rparr>))"
    by (simp add: api_set_peer_step_simps parse_key_def key_of_base64 [OF assms] or_einval_def)
  obtain t where "base64_encode cd k = t @ [61]" using assms unfolding codecs_ok_def by blast
  then have "length (str_split 61 (str_lit key @ 61 # base64_encode cd k)) \<noteq> 2"
    unfolding length_str_split by simp
  then show "api_set_step marks ci c cd e d (str_lit key @ 61 # base64_encode cd k) = Some (d, Inl EPROTO)"
    by (simp add: api_set_step_def)
qed

text \<open>A key of 64 bytes whose second character takes two bytes: the first slice ends inside it.\<close>

lemma key_text_panics:
  "api_set_step marks ci c cd e d (str_lit ''private_key'' @ 61 # 48 # 0xC3 # 0xA9 # replicate 61 48) = None"
proof -
  let ?k = "48 # 0xC3 # 0xA9 # replicate 61 48 :: bytes"
  have s: "str_split 61 (str_lit ''private_key'' @ 61 # ?k) = [str_lit ''private_key'', ?k]"
    by (rule str_split_two) (simp_all add: str_lit_def)
  have "str_slice ?k 0 2 = None" by (simp add: str_slice_def is_char_boundary_def is_continuation_def)
  then have "key_hex_loop ?k (0 # is) internal = None" for "is" internal by (simp add: numeral_2_eq_2)
  moreover have "[0..<32] = 0 # [1..<32 :: nat]" by (simp add: upt_conv_Cons)
  ultimately have "key_bytes_from_str cd ?k = None" unfolding key_bytes_from_str_def by simp
  then show ?thesis unfolding api_set_step_def Let_def s by (simp add: parse_key_def)
qed

end
