(* ===== verification/Ffi.thy ===== *)
theory Ffi
  imports Tunnel_Flow Serialization
begin

text \<open>
  \<^verbatim>\<open>ffi/mod.rs\<close>: the functions for callers from C. A C string is the bytes before its final zero byte, and
  \<open>None\<close> where they are not UTF-8; a null pointer for an optional string is \<open>None\<close> as well. The buffer of the
  caller is a list of the given size, and a tunnel is owned by the caller. A result \<open>None\<close> is a panic, which
  the hook of \<open>new_tunnel\<close> turns into a signal.

  The lemmas show that what a call asks the caller to send or to write lies in the buffer it was given.
\<close>

datatype result_type = WIREGUARD_DONE | WRITE_TO_NETWORK | WIREGUARD_ERROR | WRITE_TO_TUNNEL_IPV4 | WRITE_TO_TUNNEL_IPV6

record wireguard_result =
  wr_op :: result_type
  wr_size :: nat

text \<open>The discriminant of an error.\<close>

fun error_code :: "wireguard_error \<Rightarrow> nat" where
  "error_code DestinationBufferTooSmall = 0"
| "error_code IncorrectPacketLength = 1"
| "error_code UnexpectedPacket = 2"
| "error_code WrongPacketType = 3"
| "error_code WrongIndex = 4"
| "error_code WrongKey = 5"
| "error_code InvalidTai64nTimestamp = 6"
| "error_code WrongTai64nTimestamp = 7"
| "error_code InvalidMac = 8"
| "error_code InvalidAeadTag = 9"
| "error_code InvalidCounter = 10"
| "error_code DuplicateCounter = 11"
| "error_code InvalidPacket = 12"
| "error_code NoCurrentSession = 13"
| "error_code LockFailed = 14"
| "error_code ConnectionExpired = 15"
| "error_code UnderLoad = 16"
| "error_code MlKemDecapsulationFailed = 17"

fun wireguard_result_from :: "tunn_result \<Rightarrow> wireguard_result" where
  "wireguard_result_from Done = \<lparr> wr_op = WIREGUARD_DONE, wr_size = 0 \<rparr>"
| "wireguard_result_from (Err e) = \<lparr> wr_op = WIREGUARD_ERROR, wr_size = error_code e \<rparr>"
| "wireguard_result_from (WriteToNetwork b) = \<lparr> wr_op = WRITE_TO_NETWORK, wr_size = length b \<rparr>"
| "wireguard_result_from (WriteToTunnelV4 b a) = \<lparr> wr_op = WRITE_TO_TUNNEL_IPV4, wr_size = length b \<rparr>"
| "wireguard_result_from (WriteToTunnelV6 b a) = \<lparr> wr_op = WRITE_TO_TUNNEL_IPV6, wr_size = length b \<rparr>"

section \<open>Keys\<close>

definition x25519_public_key :: "crypto \<Rightarrow> bytes \<Rightarrow> bytes" where
  "x25519_public_key c private_key = x25519_public c private_key"

text \<open>The strings are made with \<open>CString::new(...).unwrap()\<close>, which panics for a zero byte.\<close>

definition c_string_new :: "bytes \<Rightarrow> bytes option" where
  "c_string_new s = (if 0 \<in> set s then None else Some s)"

definition x25519_key_to_base64 :: "codecs \<Rightarrow> bytes \<Rightarrow> bytes option" where
  "x25519_key_to_base64 cd key = c_string_new (base64_encode cd key)"

definition x25519_key_to_hex :: "codecs \<Rightarrow> bytes \<Rightarrow> bytes option" where
  "x25519_key_to_hex cd key = c_string_new (hex_encode cd key)"

definition check_base64_encoded_x25519_key :: "codecs \<Rightarrow> bytes option \<Rightarrow> nat" where
  "check_base64_encoded_x25519_key cd key =
    (case key of
       None \<Rightarrow> 0
     | Some utf8_key \<Rightarrow>
         (case base64_decode cd utf8_key of
            Some key \<Rightarrow> if length key = 32 \<and> fold (\<lambda>b zero. zero OR b) key 0 \<noteq> 0 then 1 else 0
          | None \<Rightarrow> 0))"

section \<open>Tunnels\<close>

text \<open>\<open>new_tunnel\<close>: the inner option is the pointer. The outer option of the preshared key is the null pointer.\<close>

definition new_tunnel ::
  "crypto \<Rightarrow> codecs \<Rightarrow> new_readings \<Rightarrow> rl_heap \<Rightarrow> bytes option \<Rightarrow> bytes option \<Rightarrow> bytes option option \<Rightarrow> u16 \<Rightarrow> u32
     \<Rightarrow> (rl_heap \<times> tunn option) option" where
  "new_tunnel c cd nr heap static_private server_static_public preshared_key keep_alive index =
    (case static_private of None \<Rightarrow> Some (heap, None) | Some static_private \<Rightarrow>
     (case server_static_public of None \<Rightarrow> Some (heap, None) | Some server_static_public \<Rightarrow> do {
        preshared_key \<leftarrow>
          (case preshared_key of
             None \<Rightarrow> Some (Inr None)
           | Some None \<Rightarrow> Some (Inl ())
           | Some (Some string) \<Rightarrow> do {
               r \<leftarrow> key_bytes_from_str cd string;
               Some (case r of Inr key \<Rightarrow> Inr (Some key) | Inl _ \<Rightarrow> Inl ())
             });
        (case preshared_key of Inl _ \<Rightarrow> Some (heap, None) | Inr preshared_key \<Rightarrow> do {
           r \<leftarrow> key_bytes_from_str cd static_private;
           (case r of Inl _ \<Rightarrow> Some (heap, None) | Inr private_key \<Rightarrow> do {
              r \<leftarrow> key_bytes_from_str cd server_static_public;
              (case r of Inl _ \<Rightarrow> Some (heap, None) | Inr public_key \<Rightarrow> do {
                 let keep_alive = (if keep_alive = 0 then None else Some keep_alive);
                 (heap, tunnel) \<leftarrow> tunn_new c nr heap private_key public_key preshared_key keep_alive index None;
                 Some (heap, Some tunnel)
               })
            })
         })
      }))"

definition wireguard_write ::
  "bool \<Rightarrow> crypto \<Rightarrow> readings \<Rightarrow> tunn \<Rightarrow> bytes \<Rightarrow> bytes \<Rightarrow> (tunn \<times> wireguard_result) option" where
  "wireguard_write pq c rd tunnel src dst = do {
     (tunnel, r) \<leftarrow> encapsulate pq c rd tunnel src dst;
     Some (tunnel, wireguard_result_from r)
   }"

definition wireguard_read ::
  "bool \<Rightarrow> crypto \<Rightarrow> readings \<Rightarrow> rl_heap \<Rightarrow> tunn \<Rightarrow> bytes \<Rightarrow> bytes \<Rightarrow> (rl_heap \<times> tunn \<times> wireguard_result) option" where
  "wireguard_read pq c rd heap tunnel src dst = do {
     (heap, tunnel, r) \<leftarrow> decapsulate pq c rd heap tunnel None src dst;
     Some (heap, tunnel, wireguard_result_from r)
   }"

definition wireguard_tick ::
  "bool \<Rightarrow> crypto \<Rightarrow> readings \<Rightarrow> rl_heap \<Rightarrow> tunn \<Rightarrow> bytes \<Rightarrow> (rl_heap \<times> tunn \<times> wireguard_result) option" where
  "wireguard_tick pq c rd heap tunnel dst = do {
     (heap, tunnel, r) \<leftarrow> update_timers pq c rd heap tunnel dst;
     Some (heap, tunnel, wireguard_result_from r)
   }"

definition wireguard_force_handshake ::
  "bool \<Rightarrow> crypto \<Rightarrow> readings \<Rightarrow> tunn \<Rightarrow> bytes \<Rightarrow> (tunn \<times> wireguard_result) option" where
  "wireguard_force_handshake pq c rd tunnel dst = do {
     (tunnel, r) \<leftarrow> tunn_format_handshake_initiation pq c rd tunnel dst True;
     Some (tunnel, wireguard_result_from r)
   }"

section \<open>Results lie in the buffer\<close>

fun fits :: "bytes \<Rightarrow> tunn_result \<Rightarrow> bool" where
  "fits dst (WriteToNetwork b) \<longleftrightarrow> length b \<le> length dst"
| "fits dst (WriteToTunnelV4 b a) \<longleftrightarrow> length b \<le> length dst"
| "fits dst (WriteToTunnelV6 b a) \<longleftrightarrow> length b \<le> length dst"
| "fits dst _ \<longleftrightarrow> True"

lemma append_macs_fits:
  assumes "crypto_ok c" and "append_mac1_and_mac2 c h i m = (h', Inr out)" and "32 \<le> length m"
  shows "length out = length m"
  using assms by (auto simp: append_mac1_and_mac2_def Let_def crypto_ok_lengths split: option.splits)

lemma length_fill_prefix: "length (fill_prefix dst xs) = max (length xs) (length dst)"
  by (auto simp: fill_prefix_def)

lemma format_init_fits:
  assumes "crypto_ok c" and "format_handshake_initiation c e h dst = Some (h', Inr p)"
  shows "length p \<le> length dst"
  using assms(2) append_macs_fits [OF assms(1)]
  by (fastforce simp: format_handshake_initiation_def Let_def length_fill_prefix size_consts case_prod_beta
    split: if_splits Option.bind_splits)

lemma format_pq_init_fits:
  assumes "crypto_ok c" and "format_pq_handshake_initiation c e h dst = Some (h', Inr p)"
  shows "length p \<le> length dst"
  using assms(2) append_macs_fits [OF assms(1)]
  by (fastforce simp: format_pq_handshake_initiation_def Let_def length_fill_prefix size_consts case_prod_beta
    split: if_splits Option.bind_splits)

lemma length_with_macs: "crypto_ok c \<Longrightarrow> length (with_macs c np k m) = length m + 32"
  by (simp add: with_macs_def Let_def crypto_ok_lengths split: option.split)

lemma format_resp_fits:
  assumes "crypto_ok c" and "format_handshake_response c e h dst = Some (h', Inr (p, s))"
  shows "length p \<le> length dst"
proof -
  from assms(2) obtain hash ck pe i ek where st: "hs_state h = InitReceived hash ck pe i ek"
    and sz: "HANDSHAKE_RESP_SZ \<le> length dst"
    by (auto simp: format_handshake_response_def split: handshake_state.splits if_splits)
  have "length (with_macs c np k (wire_body (HandshakeResponse (resp_packet c j i' f K H psk)))) = HANDSHAKE_RESP_SZ"
    for np k j i' f K H psk
    using resp_packet_wf(1) [OF assms(1), of j i' f K H psk] by (simp add: length_with_macs [OF assms(1)] size_consts)
  with format_resp_eq [OF assms(1) st sz, of e] assms(2) show ?thesis using sz by auto
qed

lemma format_pq_resp_fits:
  assumes "crypto_ok c" and "format_pq_handshake_response c e h dst = Some (h', Inr (p, s))"
  shows "length p \<le> length dst"
proof -
  from assms(2) obtain hash ck pe i ek where st: "hs_state h = InitReceived hash ck pe i (Some ek)"
    and sz: "PQ_HANDSHAKE_RESP_SZ \<le> length dst"
    by (auto simp: format_pq_handshake_response_def split: handshake_state.splits if_splits Option.bind_splits)
  have len: "length ek = MLKEM768_PK_SIZE"
    using assms(2) sz by (auto simp: format_pq_handshake_response_def st inc_index_eq Let_def split: if_splits)
  have ek: "mlkem_ek_ok c ek"
    using assms(2) sz len by (auto simp: format_pq_handshake_response_def st inc_index_eq Let_def split: if_splits)
  obtain ct ss where ct: "mlkem_encaps c ek (env_kem e) = (ct, ss)" by fastforce
  then have "length ct = MLKEM768_CT_SIZE" using crypto_ok_lengths(10) [OF assms(1), of ek "env_kem e"] by simp
  then have wf: "packet_wf (PqHandshakeResponse (pq_resp_packet c j i' f K H psk ct))" for j i' f K H psk
    using resp_packet_wf(2) [OF assms(1)] by blast
  have "length (with_macs c np k (wire_body (PqHandshakeResponse (pq_resp_packet c j i' f K H psk ct)))) = PQ_HANDSHAKE_RESP_SZ"
    for np k j i' f K H psk
    using wf [of j i' f K H psk] by (simp add: length_with_macs [OF assms(1)] size_consts)
  with format_pq_resp_eq [OF assms(1) st sz len ek ct] assms(2) show ?thesis using sz by auto
qed

lemma format_packet_fits:
  assumes "crypto_ok c" and "format_packet_data c s src dst = Some (s', p)"
  shows "length p \<le> length dst"
  using assms crypto_ok_seal_len [OF assms(1)]
  by (auto simp: format_packet_data_def Let_def case_prod_beta size_consts split: if_splits)

lemma receive_packet_fits:
  assumes "crypto_ok c" and "receive_packet_data c s p dst = Some (s', Inr d)"
  shows "length d \<le> length dst"
  using assms(2) crypto_ok_open_len [OF assms(1)]
  by (fastforce simp: receive_packet_data_def Let_def bind_result_def split: if_splits Option.bind_splits sum.splits option.splits)

lemma tunn_format_init_fits:
  assumes "crypto_ok c" and "tunn_format_handshake_initiation pq c rd t dst fr = Some (t', r)"
  shows "fits dst r"
  using assms(2) format_init_fits [OF assms(1)] format_pq_init_fits [OF assms(1)]
  by (auto simp: tunn_format_handshake_initiation_def Let_def split: if_splits Option.bind_splits sum.splits)

lemma encapsulate_fits:
  assumes "crypto_ok c" and "encapsulate pq c rd t src dst = Some (t', r)"
  shows "fits dst r"
  using assms(2) format_packet_fits [OF assms(1)] tunn_format_init_fits [OF assms(1)]
  by (auto simp: encapsulate_def Let_def split: option.splits Option.bind_splits)

lemma send_queued_fits:
  assumes "crypto_ok c" and "send_queued_packet pq c rd t dst = Some (t', r)"
  shows "fits dst r"
  using assms(2) encapsulate_fits [OF assms(1)]
  by (fastforce simp: send_queued_packet_def split: prod.splits option.splits Option.bind_splits tunn_result.splits)

lemma validate_fits: "length p \<le> length dst \<Longrightarrow> validate_decapsulated_packet t p = (t', r) \<Longrightarrow> fits dst r"
  by (auto simp: validate_decapsulated_packet_def Let_def split: list.splits option.splits if_splits ip_addr.splits)

lemma handle_fits:
  assumes "crypto_ok c" and "handle_verified_packet c rd t p dst = Some (t', r)"
  shows "fits dst r"
proof -
  have init: "length b \<le> length dst" if "receive_any_init c e h q dst = Some (h', Inr (b, s))" for e h q h' b s
    using that format_resp_fits [OF assms(1)] format_pq_resp_fits [OF assms(1)]
    by (cases q) (fastforce simp: receive_any_init_def receive_init_open receive_pq_init_open
        split: Option.bind_splits sum.splits if_splits)+
  show ?thesis
  proof (cases p)
    case (HandshakeInit q)
    then show ?thesis using assms(2) init [of _ _ "HandshakeInit q"]
      by (fastforce simp: handle_verified_packet_def handle_handshake_init_def try_with_def Let_def receive_any_init_def
        split: Option.bind_splits sum.splits)
  next
    case (PqHandshakeInit q)
    then show ?thesis using assms(2) init [of _ _ "PqHandshakeInit q"]
      by (fastforce simp: handle_verified_packet_def handle_pq_handshake_init_def try_with_def Let_def receive_any_init_def
        split: Option.bind_splits sum.splits)
  next
    case (HandshakeResponse q)
    then show ?thesis using assms(2) format_packet_fits [OF assms(1)]
      by (fastforce simp: handle_verified_packet_def handle_handshake_response_def try_with_def Let_def
        split: Option.bind_splits sum.splits)
  next
    case (PqHandshakeResponse q)
    then show ?thesis using assms(2) format_packet_fits [OF assms(1)]
      by (fastforce simp: handle_verified_packet_def handle_pq_handshake_response_def try_with_def Let_def
        split: Option.bind_splits sum.splits)
  next
    case (PacketCookieReply q)
    then show ?thesis using assms(2)
      by (auto simp: handle_verified_packet_def handle_cookie_reply_def try_with_def Let_def
        split: Option.bind_splits sum.splits prod.splits)
  next
    case (PacketData q)
    then show ?thesis using assms(2) receive_packet_fits [OF assms(1)] validate_fits
      by (fastforce simp: handle_verified_packet_def handle_data_def try_with_def Let_def
        split: Option.bind_splits sum.splits option.splits prod.splits)
  qed
qed

lemma decapsulate_in_buffer:
  assumes "crypto_ok c" and "decapsulate pq c rd heap t src d dst = Some (heap', t', r)"
  shows "fits dst r"
proof (cases "d = []")
  case True
  then show ?thesis using assms(2) send_queued_fits [OF assms(1)] by (auto simp: decapsulate_def split: Option.bind_splits)
next
  case False
  obtain rl v where v: "verify_packet pq c (rlh_at heap (tn_rate_limiter t)) (rd_cookie rd) src d (replicate COOKIE_REPLY_SZ 0) = (rl, v)"
    by fastforce
  show ?thesis
  proof (cases v)
    case (Inr p)
    then show ?thesis using assms(2) False handle_fits [OF assms(1)] by (auto simp: decapsulate_def v Let_def split: Option.bind_splits)
  next
    case (Inl x)
    then show ?thesis using assms(2) False
      by (cases x) (auto simp: decapsulate_def v Let_def length_fill_prefix split: if_splits)
  qed
qed

lemma update_timers_fits:
  assumes "crypto_ok c" and "update_timers pq c rd heap t dst = Some (heap', t', r)"
  shows "fits dst r"
  using assms(2) encapsulate_fits [OF assms(1)] tunn_format_init_fits [OF assms(1)]
  by (fastforce simp: update_timers_def Let_def split: Option.bind_splits if_splits prod.splits)

section \<open>Properties\<close>

text \<open>The four calls that return a result for a buffer.\<close>

datatype ffi_call = FfiWrite bytes | FfiRead bytes | FfiTick | FfiForceHandshake

fun ffi_result :: "bool \<Rightarrow> crypto \<Rightarrow> readings \<Rightarrow> rl_heap \<Rightarrow> tunn \<Rightarrow> ffi_call \<Rightarrow> bytes \<Rightarrow> (tunn \<times> wireguard_result) option" where
  "ffi_result pq c rd heap t (FfiWrite src) dst = wireguard_write pq c rd t src dst"
| "ffi_result pq c rd heap t (FfiRead src) dst = map_option snd (wireguard_read pq c rd heap t src dst)"
| "ffi_result pq c rd heap t FfiTick dst = map_option snd (wireguard_tick pq c rd heap t dst)"
| "ffi_result pq c rd heap t FfiForceHandshake dst = wireguard_force_handshake pq c rd t dst"

lemma ffi_result_from:
  assumes "crypto_ok c" and "ffi_result pq c rd heap t call dst = Some (t', r)"
  shows "\<exists>x. fits dst x \<and> r = wireguard_result_from x"
  using assms(2) encapsulate_fits [OF assms(1)] decapsulate_in_buffer [OF assms(1)] update_timers_fits [OF assms(1)]
    tunn_format_init_fits [OF assms(1)]
  by (cases call) (fastforce simp: wireguard_write_def wireguard_read_def wireguard_tick_def wireguard_force_handshake_def
    split: Option.bind_splits)+

text \<open>C23: the results of the C interface. In every state of the tunnel, for every input and every buffer: if
  a call asks its caller to send or to write \<open>size\<close> bytes of the buffer, then the buffer has these bytes;
  otherwise the size is zero, or the number of an error when the operation says so.\<close>
theorem ffi_results_in_buffer:
  assumes "crypto_ok c" and "ffi_result pq c rd heap t call dst = Some (t', r)"
  shows "case wr_op r of
      WIREGUARD_DONE \<Rightarrow> wr_size r = 0
    | WIREGUARD_ERROR \<Rightarrow> (\<exists>e. wr_size r = error_code e)
    | _ \<Rightarrow> wr_size r \<le> length dst"
proof -
  obtain x where "fits dst x" "r = wireguard_result_from x" using ffi_result_from [OF assms] by blast
  then show ?thesis by (cases x) auto
qed

theorem ffi_results_in_buffer_witness:
  "\<exists>t' r. ffi_result False plain_crypto (demo_rd 1 0) (demo_heap_for [2]) (demo_tunn [2] [3] 1) (FfiWrite demo_packet) (replicate 1500 0) =
      Some (t', r) \<and> wr_op r = WRITE_TO_NETWORK \<and> wr_size r \<le> 1500"
proof -
  let ?t = "demo_tunn [2] [3] 1" and ?dst = "replicate 1500 0 :: bytes"
  have "\<exists>h m. format_any_init plain_crypto (rd_env (demo_rd 1 0)) (tn_handshake ?t) False ?dst = Some (h, Inr m)"
    using format_init_eq [OF plain_crypto_ok demo_handshake_facts(1) [of "[2]" "[3]" "push_bit 8 1"]
        demo_handshake_facts(2) [of "[2]" "[3]" "push_bit 8 1" 1], of ?dst]
    by (simp add: format_any_init_def size_consts demo_rd_def Let_def demo_tunn_def)
  then obtain h m where "format_any_init plain_crypto (rd_env (demo_rd 1 0)) (tn_handshake ?t) False ?dst = Some (h, Inr m)" by blast
  moreover have "tn_sessions ?t ! (tn_current ?t mod N_SESSIONS) = None" "\<not> is_in_progress (tn_handshake ?t)"
    "length (tn_packet_queue ?t) < MAX_QUEUE_DEPTH"
    by (simp_all add: demo_tunn_def demo_handshake_facts is_in_progress_def N_SESSIONS_def MAX_QUEUE_DEPTH_def)
  ultimately obtain t' where e: "encapsulate False plain_crypto (demo_rd 1 0) ?t demo_packet ?dst = Some (t', WriteToNetwork m)"
    using encapsulate_queues by blast
  then have f: "ffi_result False plain_crypto (demo_rd 1 0) (demo_heap_for [2]) ?t (FfiWrite demo_packet) ?dst =
      Some (t', \<lparr> wr_op = WRITE_TO_NETWORK, wr_size = length m \<rparr>)"
    by (simp add: wireguard_write_def)
  from ffi_results_in_buffer [OF plain_crypto_ok f] f show ?thesis by auto
qed

text \<open>C24: tunnels from text. The texts the library prints for 32-byte keys, in hexadecimal and in base64,
  are accepted by \<open>new_tunnel\<close>, which creates exactly the tunnel \<open>Tunn::new\<close> creates for the keys; an interval of zero
  means no keepalives.\<close>
theorem tunnel_from_key_text:
  assumes "codecs_ok cd" and "length sk = 32" and "length pk = 32" and "length psk = 32"
    and "x25519_key_to_base64 cd sk = Some sk_text" and "x25519_key_to_hex cd pk = Some pk_text" and "x25519_key_to_hex cd psk = Some psk_text"
  shows "new_tunnel c cd nr heap (Some sk_text) (Some pk_text) (Some (Some psk_text)) keep_alive index =
      map_option (\<lambda>(heap, t). (heap, Some t))
        (tunn_new c nr heap sk pk (Some psk) (if keep_alive = 0 then None else Some keep_alive) index None)"
proof -
  have "sk_text = base64_encode cd sk" "pk_text = hex_encode cd pk" "psk_text = hex_encode cd psk"
    using assms(5-7) by (auto simp: x25519_key_to_base64_def x25519_key_to_hex_def c_string_new_def split: if_splits)
  then show ?thesis
    by (simp add: new_tunnel_def key_of_hex [OF assms(1,3)] key_of_hex [OF assms(1,4)] key_of_base64 [OF assms(1,2)] Let_def
        split: Option.bind_split)
qed

theorem tunnel_from_key_text_witness:
  "\<exists>a b heap' t. x25519_key_to_base64 plain_codecs (replicate 32 7) = Some a \<and> x25519_key_to_hex plain_codecs (replicate 32 3) = Some b \<and>
     new_tunnel plain_crypto plain_codecs demo_new demo_heap (Some a) (Some b) (Some (Some b)) 25 9 = Some (heap', Some t) \<and>
     persistent_keepalive t = Some 25"
proof -
  have "0 \<notin> set (hex_pair 3)" by (simp add: hex_pair_def digit_char_def)
  then obtain a b where ab: "x25519_key_to_base64 plain_codecs (replicate 32 7) = Some a"
    "x25519_key_to_hex plain_codecs (replicate 32 3) = Some b"
    by (simp add: x25519_key_to_base64_def x25519_key_to_hex_def c_string_new_def plain_codecs_def)
  obtain heap' t where t: "tunn_new plain_crypto demo_new demo_heap (replicate 32 7) (replicate 32 3) (Some (replicate 32 3))
      (Some 25) 9 None = Some (heap', t)" "persistent_keepalive t = Some 25"
    by (simp add: tunn_new_def demo_new_def handshake_new_def time_stamper_new_def Let_def rl_alloc_def persistent_keepalive_def
      timers_new_def)
  from tunnel_from_key_text [OF plain_codecs_ok _ _ _ ab ab(2), of plain_crypto demo_new demo_heap 25 9] ab t
  show ?thesis by auto
qed

end
