(* ===== verification/Psk_Tool.thy ===== *)
theory Psk_Tool
  imports Serialization
begin

text \<open>
  \<^verbatim>\<open>pq-psk-tool/src/main.rs\<close>: the command line tool that lets two operators agree on a preshared key with
  ML-KEM-768. The files an operator can read as text are a map from paths to their contents; writing a file
  succeeds where the map \<open>writable\<close> says so. The crate \<open>ml_kem\<close> is the record \<open>ml_kem_crate\<close>, the randomness of a
  command is an argument. A result \<open>None\<close> is a panic, with which the tool reports its errors.
\<close>

record ('dk, 'ek) ml_kem_crate =
  mk_generate :: "bytes \<Rightarrow> 'dk \<times> 'ek"
  mk_ek_bytes :: "'ek \<Rightarrow> bytes"
  mk_ek_new :: "bytes \<Rightarrow> 'ek option"
  mk_to_seed :: "'dk \<Rightarrow> bytes option"
  mk_from_seed :: "bytes \<Rightarrow> 'dk"
  mk_encapsulate :: "'ek \<Rightarrow> bytes \<Rightarrow> bytes \<times> bytes"
  mk_try_decapsulate :: "'dk \<Rightarrow> bytes \<Rightarrow> bytes option"

record file_system =
  fs_files :: "string \<rightharpoonup> bytes"
  fs_writable :: "string \<Rightarrow> bool"

datatype psk_command =
    Keygen string string
  | Encaps string string string
  | Decaps string string string

definition fs_write :: "file_system \<Rightarrow> string \<Rightarrow> bytes \<Rightarrow> file_system option" where
  "fs_write fs path s = (if fs_writable fs path then Some (fs\<lparr> fs_files := (fs_files fs)(path \<mapsto> s) \<rparr>) else None)"

definition read_base64_file :: "codecs \<Rightarrow> file_system \<Rightarrow> string \<Rightarrow> bytes option" where
  "read_base64_file cd fs path = do {
     contents \<leftarrow> fs_files fs path;
     let trimmed = str_trim contents;
     base64_decode cd trimmed
   }"

definition write_base64_file :: "codecs \<Rightarrow> file_system \<Rightarrow> string \<Rightarrow> bytes \<Rightarrow> file_system option" where
  "write_base64_file cd fs path data = (let encoded = base64_encode cd data in fs_write fs path encoded)"

definition write_psk_base64 :: "codecs \<Rightarrow> file_system \<Rightarrow> string \<Rightarrow> bytes \<Rightarrow> file_system option" where
  "write_psk_base64 cd fs path secret = (let b64 = base64_encode cd secret in fs_write fs path b64)"

text \<open>The commands; the sizes are checked by \<open>try_into\<close> of a slice into an array.\<close>

fun psk_main :: "('dk, 'ek) ml_kem_crate \<Rightarrow> codecs \<Rightarrow> bytes \<Rightarrow> psk_command \<Rightarrow> file_system \<Rightarrow> file_system option" where
  "psk_main mk cd rng (Keygen ek_out dk_out) fs = do {
     let (dk, ek) = mk_generate mk rng;
     let ek_bytes = mk_ek_bytes mk ek;
     fs \<leftarrow> write_base64_file cd fs ek_out ek_bytes;
     dk_seed \<leftarrow> mk_to_seed mk dk;
     write_base64_file cd fs dk_out dk_seed
   }"
| "psk_main mk cd rng (Encaps ek_file ct_out psk_out) fs = do {
     ek_bytes \<leftarrow> read_base64_file cd fs ek_file;
     ek \<leftarrow> (if length ek_bytes = 1184 then mk_ek_new mk ek_bytes else None);
     let (ct, shared_secret) = mk_encapsulate mk ek rng;
     fs \<leftarrow> write_base64_file cd fs ct_out ct;
     write_psk_base64 cd fs psk_out shared_secret
   }"
| "psk_main mk cd rng (Decaps dk_file ct_file psk_out) fs = do {
     dk_bytes \<leftarrow> read_base64_file cd fs dk_file;
     ct_bytes \<leftarrow> read_base64_file cd fs ct_file;
     seed \<leftarrow> (if length dk_bytes = 64 then Some dk_bytes else None);
     let dk = mk_from_seed mk seed;
     ct \<leftarrow> (if length ct_bytes = 1088 then Some ct_bytes else None);
     shared_secret \<leftarrow> mk_try_decapsulate mk dk ct;
     write_psk_base64 cd fs psk_out shared_secret
   }"

section \<open>What the crate promises\<close>

definition ml_kem_ok :: "('dk, 'ek) ml_kem_crate \<Rightarrow> bool" where
  "ml_kem_ok mk \<longleftrightarrow>
     (\<forall>ek. length (mk_ek_bytes mk ek) = 1184) \<and>
     (\<forall>r. mk_ek_new mk (mk_ek_bytes mk (snd (mk_generate mk r))) = Some (snd (mk_generate mk r))) \<and>
     (\<forall>r. \<exists>seed. mk_to_seed mk (fst (mk_generate mk r)) = Some seed \<and> length seed = 64 \<and> mk_from_seed mk seed = fst (mk_generate mk r)) \<and>
     (\<forall>ek r. length (fst (mk_encapsulate mk ek r)) = 1088 \<and> length (snd (mk_encapsulate mk ek r)) = 32)"

text \<open>A run in which decapsulation returns the encapsulated secret, as it does but for a negligible part of the
  random inputs.\<close>

definition kem_run_ok :: "('dk, 'ek) ml_kem_crate \<Rightarrow> bytes \<Rightarrow> bytes \<Rightarrow> bool" where
  "kem_run_ok mk r r' \<longleftrightarrow> (let (dk, ek) = mk_generate mk r; (ct, ss) = mk_encapsulate mk ek r' in mk_try_decapsulate mk dk ct = Some ss)"

lemma read_written:
  assumes "codecs_ok cd" and "fs_files fs path = Some (base64_encode cd data)"
  shows "read_base64_file cd fs path = Some data"
  using assms by (simp add: read_base64_file_def codecs_ok_def)

section \<open>Properties\<close>

text \<open>C25: two operators agree on a preshared key. When the first one generates a key pair, the second one
  encapsulates to the copied public file, and the first one decapsulates the copied answer, no command fails, and the
  two files with the preshared key have the same text, which the device and the C interface accept as
  the 32-byte secret; files with other names are left alone.\<close>
theorem psk_exchange_agrees:
  assumes "ml_kem_ok mk" and "codecs_ok cd" and "kem_run_ok mk r1 r2"
    and "\<forall>p. fs_writable fa p" and "\<forall>p. fs_writable fb p" and "distinct [ek, dk, ct, psk]" and "ek' \<notin> {ct', psk'}" and "ct' \<noteq> psk'"
  shows "\<exists>fa1 ek_text fb1 ct_text fa2 secret.
    psk_main mk cd r1 (Keygen ek dk) fa = Some fa1 \<and> fs_files fa1 ek = Some ek_text \<and>
    psk_main mk cd r2 (Encaps ek' ct' psk') (fb\<lparr> fs_files := (fs_files fb)(ek' \<mapsto> ek_text) \<rparr>) = Some fb1 \<and> fs_files fb1 ct' = Some ct_text \<and>
    psk_main mk cd r3 (Decaps dk ct psk) (fa1\<lparr> fs_files := (fs_files fa1)(ct \<mapsto> ct_text) \<rparr>) = Some fa2 \<and>
    fs_files fa2 psk = fs_files fb1 psk' \<and> fs_files fa2 psk = Some (base64_encode cd secret) \<and>
    key_bytes_from_str cd (base64_encode cd secret) = Some (Inr secret) \<and>
    (\<forall>p. p \<notin> {ek, dk, ct, psk} \<longrightarrow> fs_files fa2 p = fs_files fa p) \<and> (\<forall>p. p \<notin> {ek', ct', psk'} \<longrightarrow> fs_files fb1 p = fs_files fb p)"
proof -
  obtain d e where g: "mk_generate mk r1 = (d, e)" by fastforce
  obtain seed where seed: "mk_to_seed mk d = Some seed" "length seed = 64" "mk_from_seed mk seed = d"
    using assms(1) g unfolding ml_kem_ok_def by (metis fst_conv)
  obtain c s where c: "mk_encapsulate mk e r2 = (c, s)" by fastforce
  have len: "length c = 1088" "length s = 32" "length (mk_ek_bytes mk e) = 1184" "mk_ek_new mk (mk_ek_bytes mk e) = Some e"
    using assms(1) g c unfolding ml_kem_ok_def by (metis fst_conv snd_conv)+
  have dec: "mk_try_decapsulate mk d c = Some s" using assms(3) by (simp add: kem_run_ok_def g c)
  let ?b = "base64_encode cd"
  let ?fa1 = "fa\<lparr> fs_files := (fs_files fa)(ek \<mapsto> ?b (mk_ek_bytes mk e), dk \<mapsto> ?b seed) \<rparr>"
  let ?fb = "fb\<lparr> fs_files := (fs_files fb)(ek' \<mapsto> ?b (mk_ek_bytes mk e)) \<rparr>"
  let ?fb1 = "?fb\<lparr> fs_files := (fs_files ?fb)(ct' \<mapsto> ?b c, psk' \<mapsto> ?b s) \<rparr>"
  let ?fa = "?fa1\<lparr> fs_files := (fs_files ?fa1)(ct \<mapsto> ?b c) \<rparr>"
  have 1: "psk_main mk cd r1 (Keygen ek dk) fa = Some ?fa1"
    using assms(4) g seed(1) by (simp add: write_base64_file_def fs_write_def)
  have "read_base64_file cd ?fb ek' = Some (mk_ek_bytes mk e)" by (rule read_written [OF assms(2)]) simp
  then have 2: "psk_main mk cd r2 (Encaps ek' ct' psk') ?fb = Some ?fb1"
    using assms(5) len(3,4) c by (simp add: write_base64_file_def write_psk_base64_def fs_write_def)
  have "read_base64_file cd ?fa dk = Some seed" "read_base64_file cd ?fa ct = Some c"
    using assms(6) by (auto intro!: read_written [OF assms(2)])
  then have 3: "psk_main mk cd r3 (Decaps dk ct psk) ?fa = Some (?fa\<lparr> fs_files := (fs_files ?fa)(psk \<mapsto> ?b s) \<rparr>)"
    using assms(4) len(1) seed dec by (simp add: write_psk_base64_def fs_write_def)
  show ?thesis
    using assms(6-8) key_of_base64 [OF assms(2) len(2)]
    by (intro exI [of _ ?fa1] exI [of _ "?b (mk_ek_bytes mk e)"] exI [of _ ?fb1] exI [of _ "?b c"]
        exI [of _ "?fa\<lparr> fs_files := (fs_files ?fa)(psk \<mapsto> ?b s) \<rparr>"] exI [of _ s] conjI 1 2 3) simp_all
qed

text \<open>A crate that keeps the promises: the keys are their own random input, which is part of the public bytes.\<close>

definition pad_to :: "nat \<Rightarrow> bytes \<Rightarrow> bytes" where
  "pad_to n x = take n (x @ replicate n 0)"

definition plain_kem :: "(bytes, bytes) ml_kem_crate" where
  "plain_kem = \<lparr> mk_generate = (\<lambda>r. (pad_to 64 r, pad_to 1184 r)), mk_ek_bytes = pad_to 1184, mk_ek_new = (\<lambda>b. Some b),
     mk_to_seed = (\<lambda>d. Some d), mk_from_seed = (\<lambda>s. s), mk_encapsulate = (\<lambda>ek r. (pad_to 1088 (pad_to 32 r), pad_to 32 r)),
     mk_try_decapsulate = (\<lambda>d c. Some (take 32 c)) \<rparr>"

lemma plain_kem_ok: "ml_kem_ok plain_kem" "kem_run_ok plain_kem r r'"
proof -
  have l: "length (pad_to n x) = n" for n x by (simp add: pad_to_def)
  have p: "length x = n \<Longrightarrow> pad_to n x = x" for n x by (simp add: pad_to_def)
  show "ml_kem_ok plain_kem" by (simp add: ml_kem_ok_def plain_kem_def l p)
  have "m \<le> n \<Longrightarrow> take m (pad_to n (pad_to m x)) = pad_to m x" for m n x using l [of m x] by (simp add: pad_to_def [of n])
  then show "kem_run_ok plain_kem r r'" by (simp add: kem_run_ok_def plain_kem_def)
qed

theorem psk_exchange_agrees_witness:
  "\<exists>fa1 fb1 fa2 text. psk_main plain_kem plain_codecs [1] (Keygen ''ek'' ''dk'') \<lparr> fs_files = Map.empty, fs_writable = \<lambda>_. True \<rparr> = Some fa1 \<and>
     psk_main plain_kem plain_codecs [2] (Encaps ''peer'' ''ct'' ''psk'') \<lparr> fs_files = [''peer'' \<mapsto> the (fs_files fa1 ''ek'')], fs_writable = \<lambda>_. True \<rparr> = Some fb1 \<and>
     psk_main plain_kem plain_codecs [] (Decaps ''dk'' ''ct'' ''psk'') (fa1\<lparr> fs_files := (fs_files fa1)(''ct'' \<mapsto> the (fs_files fb1 ''ct'')) \<rparr>) = Some fa2 \<and>
     fs_files fa2 ''psk'' = Some text \<and> fs_files fb1 ''psk'' = Some text"
proof -
  let ?f = "\<lparr> fs_files = Map.empty, fs_writable = \<lambda>_. True \<rparr>"
  have "\<forall>p. fs_writable ?f p" "distinct [''ek'', ''dk'', ''ct'', ''psk'']" "''peer'' \<notin> {''ct'', ''psk''}" "''ct'' \<noteq> ''psk''" by simp_all
  from psk_exchange_agrees [OF plain_kem_ok(1) plain_codecs_ok plain_kem_ok(2) [of "[1]" "[2]"] this(1) this(1) this(2-4), of "[]"]
  obtain fa1 ek_text fb1 ct_text fa2 secret where
    "psk_main plain_kem plain_codecs [1] (Keygen ''ek'' ''dk'') ?f = Some fa1" "fs_files fa1 ''ek'' = Some ek_text"
    "psk_main plain_kem plain_codecs [2] (Encaps ''peer'' ''ct'' ''psk'') (?f\<lparr> fs_files := (fs_files ?f)(''peer'' \<mapsto> ek_text) \<rparr>) = Some fb1"
    "fs_files fb1 ''ct'' = Some ct_text"
    "psk_main plain_kem plain_codecs [] (Decaps ''dk'' ''ct'' ''psk'') (fa1\<lparr> fs_files := (fs_files fa1)(''ct'' \<mapsto> ct_text) \<rparr>) = Some fa2"
    "fs_files fa2 ''psk'' = fs_files fb1 ''psk''" "fs_files fa2 ''psk'' = Some (base64_encode plain_codecs secret)"
    by (elim exE conjE) (rule that; assumption)
  then show ?thesis
    by (intro exI [of _ fa1] exI [of _ fb1] exI [of _ fa2] exI [of _ "base64_encode plain_codecs secret"]) (simp del: psk_main.simps)
qed

end
