(* ===== verification/Privileges.thy ===== *)
theory Privileges
  imports Prelude
begin

text \<open>
  \<^verbatim>\<open>device/drop_privileges.rs\<close>, for the platforms with \<open>getlogin\<close>: giving up the rights of the super user. The
  credentials of the process are a value of a type \<open>'c\<close> that \<open>setgid\<close> and \<open>setuid\<close> change; a result \<open>False\<close> is the
  return value -1. What the user database answers is an argument.
\<close>

record 'c process =
  sys_setgid :: "nat \<Rightarrow> 'c \<Rightarrow> 'c \<times> bool"
  sys_setuid :: "nat \<Rightarrow> 'c \<Rightarrow> 'c \<times> bool"
  sys_getlogin :: "string option"
  sys_getpwnam :: "string \<Rightarrow> (nat \<times> nat) option"

datatype privileges_error = NullFromGetlogin | NullFromGetpwnam | LastOsError | FailedToDrop

definition get_saved_ids :: "'c process \<Rightarrow> privileges_error + nat \<times> nat" where
  "get_saved_ids sys =
    (case sys_getlogin sys of
       None \<Rightarrow> Inl NullFromGetlogin
     | Some uname \<Rightarrow> (case sys_getpwnam sys uname of None \<Rightarrow> Inl NullFromGetpwnam | Some ids \<Rightarrow> Inr ids))"

text \<open>The second operand of \<open>||\<close> is evaluated only when the group could not be set.\<close>

definition drop_privileges :: "'c process \<Rightarrow> 'c \<Rightarrow> 'c \<times> (privileges_error + unit)" where
  "drop_privileges sys cred =
    (case get_saved_ids sys of
       Inl e \<Rightarrow> (cred, Inl e)
     | Inr (saved_uid, saved_gid) \<Rightarrow>
       let (cred, ok) = sys_setgid sys saved_gid cred in
       if \<not> ok then (cred, Inl LastOsError)
       else
         let (cred, ok) = sys_setuid sys saved_uid cred in
         if \<not> ok then (cred, Inl LastOsError)
         else
           let (cred, group_back) = sys_setgid sys 0 cred in
           if group_back then (cred, Inl FailedToDrop)
           else
             let (cred, user_back) = sys_setuid sys 0 cred in
             if user_back then (cred, Inl FailedToDrop) else (cred, Inr ()))"

text \<open>When a call that fails leaves the credentials alone, success means that the process has the identity of
  the user, and that with it neither the group nor the user of the super user can be had back.\<close>

lemma dropped_for_good:
  assumes "drop_privileges sys cred = (cred', Inr ())" and "\<And>f n s s'. f \<in> {sys_setgid sys, sys_setuid sys} \<Longrightarrow> f n s = (s', False) \<Longrightarrow> s' = s"
  shows "\<exists>uname uid gid c1. sys_getlogin sys = Some uname \<and> sys_getpwnam sys uname = Some (uid, gid) \<and>
    sys_setgid sys gid cred = (c1, True) \<and> sys_setuid sys uid c1 = (cred', True) \<and>
    \<not> snd (sys_setgid sys 0 cred') \<and> \<not> snd (sys_setuid sys 0 cred')"
proof -
  obtain uid gid where ids: "get_saved_ids sys = Inr (uid, gid)"
    using assms(1) by (auto simp: drop_privileges_def split: sum.splits)
  obtain c1 o1 where 1: "sys_setgid sys gid cred = (c1, o1)" by fastforce
  obtain c2 o2 where 2: "sys_setuid sys uid c1 = (c2, o2)" by fastforce
  obtain c3 o3 where 3: "sys_setgid sys 0 c2 = (c3, o3)" by fastforce
  obtain c4 o4 where 4: "sys_setuid sys 0 c3 = (c4, o4)" by fastforce
  have o: "o1" "o2" "\<not> o3" "\<not> o4" "c4 = cred'" using assms(1) by (auto simp: drop_privileges_def ids 1 2 3 4 split: if_splits)
  then have "c3 = c2" "c4 = c3" using assms(2) 3 4 by auto
  moreover obtain uname where "sys_getlogin sys = Some uname" "sys_getpwnam sys uname = Some (uid, gid)"
    using ids by (auto simp: get_saved_ids_def split: option.splits)
  ultimately show ?thesis using o 1 2 3 4 by auto
qed

end
