(* ===== verification/Spec2Isabelle.thy ===== *)
theory Spec2Isabelle
  imports Device_Properties Api_Properties Ffi Psk_Tool Privileges
begin

text \<open>
  A model of BoringTun, a WireGuard implementation in user space, with the hybrid post-quantum handshake
  that combines X25519 with ML-KEM-768, and the proofs of what it promises.

  \<^bold>\<open>The program and its parts.\<close> A tunnel to one peer (\<^verbatim>\<open>src/boringtun/src/noise\<close>) turns IP packets into datagrams
  and back: a handshake agrees on keys, a session with a replay filter seals and opens the packets, timers
  start handshakes and drop old keys, and a rate limiter answers with cookies under load. A device
  (\<^verbatim>\<open>src/boringtun/src/device\<close>) has many peers, each with a tunnel, an endpoint and networks; its event loop runs
  handlers for the UDP sockets, the network interface and the timers, and a control socket changes the
  configuration. The tunnel is also offered to C programs (\<^verbatim>\<open>src/boringtun/src/ffi\<close>), and a command line tool
  (\<^verbatim>\<open>src/pq-psk-tool\<close>) lets two operators agree on a preshared key.

  \<^bold>\<open>Conventions.\<close> A struct is a record, an enum a datatype, an integer a word of its width, whose sums wrap
  around as in a release build; \<open>usize\<close> lengths are natural numbers and a \<open>Duration\<close> is its number of nanoseconds.
  A \<open>Result\<close> is a sum with the error on the left. A method on \<open>&mut self\<close> returns the new state, on its error paths
  too, and an operation that can panic (or loop) has an option result where \<open>None\<close> is the panic. What a call reads
  from outside is an argument: readings of the clock, random numbers, the contents of a buffer, the answers of the
  operating system, the order of an iteration over a hash map. The cargo feature \<^verbatim>\<open>pq\<close> is a boolean argument.
  Crates are parameters, with their documented behaviour as named hypotheses: the primitives of cryptography
  (record \<open>crypto\<close>, \<open>crypto_ok\<close>), the routing table (record \<open>ip_crate\<close>, \<open>ip_crate_ok\<close>), the codecs of text (record
  \<open>codecs\<close>, \<open>codecs_ok\<close>), and ML-KEM in the tool (record \<open>ml_kem_crate\<close>, \<open>ml_kem_ok\<close>). Each of them has a concrete
  instance (\<open>plain_crypto\<close>, \<open>list_crate\<close>, \<open>plain_codecs\<close>, \<open>plain_kem\<close>), with which the theorems are applied to concrete inputs.

  \<^bold>\<open>The theories of the tunnel.\<close>
  \<^item> \<^verbatim>\<open>Prelude\<close>: byte encodings, slices and the question-mark operator.
  \<^item> \<^verbatim>\<open>Wire\<close> (\<^verbatim>\<open>noise/mod.rs\<close>, \<^verbatim>\<open>noise/errors.rs\<close>): the six messages and \<open>parse_incoming_packet\<close>; the parser accepts exactly
    the encodings of packets.
  \<^item> \<^verbatim>\<open>Clock\<close> (\<^verbatim>\<open>sleepyinstant\<close>): instants and their differences.
  \<^item> \<^verbatim>\<open>Session\<close> (\<^verbatim>\<open>noise/session.rs\<close>): the bitmap replay filter refines the set of counters seen in a window of 1024; data
    packets are delivered exactly once, also with concurrent receivers. The interface \<open>replay_filter\<close> is what
    the users of the filter rely on.
  \<^item> \<^verbatim>\<open>Crypto\<close>, \<^verbatim>\<open>Handshake\<close> (\<^verbatim>\<open>noise/handshake.rs\<close>): every function of both handshakes. \<^verbatim>\<open>Key_Agreement\<close> writes the
    Noise pattern down once and shows that the functions compute it and that both ends agree. \<^verbatim>\<open>Handshake_Safety\<close> is
    the state machine under every sequence of messages: no replays, no downgrade, no panic, and rejected messages
    change nothing.
  \<^item> \<^verbatim>\<open>Rate_Limiter\<close> (\<^verbatim>\<open>noise/rate_limiter.rs\<close>): the MACs, the limit and the cookie exchange.
  \<^item> \<^verbatim>\<open>Timers\<close>, \<^verbatim>\<open>Tunnel\<close> (\<^verbatim>\<open>noise/timers.rs\<close>, \<^verbatim>\<open>noise/mod.rs\<close>): the tunnel \<open>tunn\<close> with its entry points \<open>encapsulate\<close>,
    \<open>decapsulate\<close>, \<open>update_timers\<close>, \<open>tunn_format_handshake_initiation\<close> and \<open>tunn_set_static_private\<close>. Rate limiters are
    shared, so they live in a heap. \<^verbatim>\<open>Tunnel_Invariants\<close> has the interface \<open>tunnel_invariant\<close>: what the elementary
    updates keep, every entry point keeps. \<^verbatim>\<open>Tunnel_Safety\<close> and \<^verbatim>\<open>Tunnel_Flow\<close> show that no reachable tunnel panics, that
    the timers follow the rules of the protocol, and that a packet gets from one end to the other.

  \<^bold>\<open>The theories of the device.\<close>
  \<^item> \<^verbatim>\<open>Allowed_Ips\<close>, \<^verbatim>\<open>Index_Lfsr\<close>, \<^verbatim>\<open>Peer\<close> (\<^verbatim>\<open>device/allowed_ips.rs\<close>, \<^verbatim>\<open>device/mod.rs\<close>, \<^verbatim>\<open>device/peer.rs\<close>): networks, the indices of
    the peers and a peer with its endpoint.
  \<^item> \<^verbatim>\<open>Device\<close> (\<^verbatim>\<open>device/mod.rs\<close>): the record \<open>device\<close>, whose tables point into a store of peers; the configuration
    (\<open>update_peer\<close>, \<open>remove_peer\<close>, \<open>set_key\<close>, \<open>open_listen_socket\<close>, \<open>set_fwmark\<close>, \<open>clear_peers\<close>); the timers; and the handlers
    \<open>udp_handler\<close>, \<open>conn_handler\<close> and \<open>iface_handler\<close>, each from what it reads to what it sends.
  \<^item> \<^verbatim>\<open>Device_Invariants\<close>: the step relation \<open>dev_step\<close> with one rule per operation and event, and the invariant \<open>dev_wf\<close>
    of all reachable devices. \<^verbatim>\<open>Device_Safety\<close>, \<^verbatim>\<open>Device_Flow\<close> and \<^verbatim>\<open>Device_Properties\<close>: tables agree, handlers do not
    panic, datagrams reach their peer, packets leave by the best route and enter only from addresses
    of their peer, and packets cross two devices. \<^verbatim>\<open>Device_Config\<close>: new keys, adding and removing peers.
  \<^item> \<^verbatim>\<open>Text\<close>, \<^verbatim>\<open>Addr_Text\<close>: what the sources use of the strings, the number parsers and the address parsers of the
    standard library, and \<open>AllowedIP::from_str\<close>; the interface \<open>printed_form\<close> is the round trip between a printed form and
    its parser, interpreted for numbers, addresses, socket addresses and networks.
  \<^item> \<^verbatim>\<open>Serialization\<close> (\<^verbatim>\<open>serialization.rs\<close>): the text of keys. \<^verbatim>\<open>Api\<close> (\<^verbatim>\<open>device/api.rs\<close>): the requests \<open>api_get\<close> and
    \<open>api_set\<close> and the handlers of the control socket. \<^verbatim>\<open>Api_Properties\<close>: a request is a sequence of steps of the device, the
    text of a configuration has the effect it describes, and what is parsed is well formed.
  \<^item> \<^verbatim>\<open>Privileges\<close> (\<^verbatim>\<open>device/drop_privileges.rs\<close>): the rights that are given up cannot be had back.

  \<^bold>\<open>Other programs.\<close> \<^verbatim>\<open>Ffi\<close> (\<^verbatim>\<open>ffi/mod.rs\<close>): the functions for C; results lie in the buffers of the caller, and tunnels
  are made from the texts of keys. \<^verbatim>\<open>Psk_Tool\<close> (\<^verbatim>\<open>pq-psk-tool/src/main.rs\<close>): the three commands on a map of files; both operators
  end up with the same key.

  \<^bold>\<open>Loops and bounds.\<close> The loops over datagrams, packets and lines are recursion on the list of what is read; at most
  \<open>MAX_ITR\<close> = 100 of them count per call, as in the code. The two loops whose end is not structural are partial
  functions: clearing of skipped counters, which always returns (\<open>mark_did_receive_returns\<close>), and \<open>flush_queue\<close>, which ends
  for every peer of a reachable device because a queue has at most 256 packets. There is no fuel.
  Drawing a random index takes the words of the generator as a list and needs one that is not zero in its low 24 bits.

  \<^bold>\<open>Hypotheses.\<close> Theorems about all reachable states need \<open>crypto_ok\<close> (lengths, opening what was sealed, symmetry of the
  Diffie-Hellman function) and no strength of the primitives. That ML-KEM decapsulation returns the encapsulated secret
  is assumed of single runs only. Where a
  theorem needs that the readings of the clock do not go back, it says so. Counters are below the limit at
  which \<open>counter + 1024\<close> would wrap around; that this limit is needed is a theorem as well.

  \<^bold>\<open>Not modelled.\<close>
  \<^item> \<^verbatim>\<open>device/dev_lock.rs\<close>: a lock built from those of the crate parking_lot, whose behaviour under concurrency is not in
    the sources. A handler is an atomic step of the device; the concurrency inside a session is modelled.
  \<^item> \<^verbatim>\<open>device/epoll.rs\<close>, \<^verbatim>\<open>device/kqueue.rs\<close>, \<^verbatim>\<open>device/tun_linux.rs\<close>, \<^verbatim>\<open>device/tun_darwin.rs\<close>: system calls in unsafe code; what
    they return is an argument of the handlers. Also the start of the threads, the event loop itself, opening the
    interface, and creating the control socket and its directory.
  \<^item> \<^verbatim>\<open>jni.rs\<close>, and the logging, random key and free functions of \<^verbatim>\<open>ffi/mod.rs\<close>: conversions of foreign values and memory.
  \<^item> \<open>estimate_loss\<close>, \<open>stats\<close> and \<open>wireguard_stats\<close>: they read the state and compute in single precision floating point,
    of which the library has no model; of \<open>stats\<close> the counters are used by \<open>api_get\<close>.
  \<^item> \<^verbatim>\<open>boringtun-cli\<close>, \<^verbatim>\<open>lib.rs\<close>, Debug output, tests and benchmarks: command line, logging and glue.
\<close>

end
